(* ===== verification/Kernel_Prelude.thy ===== *)
theory Kernel_Prelude
  imports Main "HOL-Library.Word"
begin

text \<open>
  Shared vocabulary of the development: the machine integers of the C sources, the
  outcomes a C function can have besides returning (\<open>fault\<close>), the sequencing of
  fallible operations, the counting loops \<open>for (uint64_t i = a; i < n; i++)\<close> and
  \<open>for (int64_t i = a; i < n; i++)\<close>, and a small weakest-precondition calculus
  (\<open>holds\<close> with the collection \<open>wp\<close>) in which the component proofs are written.
\<close>

unbundle bit_operations_syntax

named_theorems wp \<open>rewrite rules for holds\<close>

section \<open>Machine integers\<close>

type_synonym u8 = "8 word"
type_synonym u16 = "16 word"
type_synonym u32 = "32 word"
type_synonym u64 = "64 word"

section \<open>Outcomes of a C function\<close>

text \<open>
  \<open>OutOfBounds\<close>: an access outside the object (undefined in C; on the machine a wild
  read or write). \<open>DivByZero\<close>: the divide exception. \<open>Deadlock\<close>: the trap
  \<open>int $0x15\<close> of \<open>spinLock\<close>, whose handler never returns. \<open>BadArgument\<close>: a
  \<open>va_arg\<close> with no argument left or of another type. \<open>SignedOverflow\<close>: \<open>int\<close> arithmetic
  that leaves its range (undefined in C). \<open>OutOfFuel\<close>: a loop or recursion that need not end was given
  up when its fuel was used up. \<open>Halt\<close>: the kernel stops in \<open>for(;;)\<close> on purpose.
\<close>

datatype fault = OutOfBounds | DivByZero | Deadlock | BadArgument | SignedOverflow | OutOfFuel | Halt

type_synonym 'a result = "fault + 'a"

definition and_then :: "'a result \<Rightarrow> ('a \<Rightarrow> 'b result) \<Rightarrow> 'b result" where
  "and_then m f = (case m of Inl e \<Rightarrow> Inl e | Inr x \<Rightarrow> f x)"

lemma and_then_simps [simp]:
  "and_then (Inl e) f = Inl e"
  "and_then (Inr x) f = f x"
  by (simp_all add: and_then_def)

lemma and_then_eq_Inr_iff:
  "and_then m f = Inr y \<longleftrightarrow> (\<exists>x. m = Inr x \<and> f x = Inr y)"
  by (cases m) auto

lemma and_then_assoc: "and_then (and_then m f) g = and_then m (\<lambda>x. and_then (f x) g)"
  by (cases m) auto

text \<open>\<open>holds m P\<close>: the operation returns, without a fault, and its result satisfies
  \<open>P\<close> (total correctness).\<close>

definition holds :: "'a result \<Rightarrow> ('a \<Rightarrow> bool) \<Rightarrow> bool" where
  "holds m P \<longleftrightarrow> (case m of Inl e \<Rightarrow> False | Inr x \<Rightarrow> P x)"

lemma holds_simps [simp, wp]:
  "holds (Inl e) P \<longleftrightarrow> False"
  "holds (Inr x) P \<longleftrightarrow> P x"
  by (simp_all add: holds_def)

lemma holds_and_then [wp]: "holds (and_then m f) P \<longleftrightarrow> holds m (\<lambda>x. holds (f x) P)"
  by (cases m) auto

lemma holds_if [wp]:
  "holds (if b then m1 else m2) P \<longleftrightarrow> (if b then holds m1 P else holds m2 P)"
  by simp

lemma holds_case_prod [wp]:
  "holds (case p of (a, b) \<Rightarrow> f a b) P \<longleftrightarrow> (case p of (a, b) \<Rightarrow> holds (f a b) P)"
  by (cases p) simp

lemma holds_Let [wp]: "holds (let x = t in f x) P \<longleftrightarrow> holds (f t) P"
  by (simp add: Let_def)

lemma holds_mono: "holds m P \<Longrightarrow> (\<And>x. P x \<Longrightarrow> Q x) \<Longrightarrow> holds m Q"
  by (cases m) auto

lemma holds_bind: "holds m P \<Longrightarrow> (\<And>x. P x \<Longrightarrow> holds (f x) Q) \<Longrightarrow> holds (and_then m f) Q"
  by (cases m) auto

lemma holds_conj: "holds m P \<Longrightarrow> holds m Q \<Longrightarrow> holds m (\<lambda>x. P x \<and> Q x)"
  by (cases m) auto

lemma holdsE:
  assumes "holds m P"
  obtains x where "m = Inr x" and "P x"
  using assms by (cases m) auto

lemma holds_eq_iff: "holds m (\<lambda>x. x = y) \<longleftrightarrow> m = Inr y"
  by (cases m) auto

lemma holds_InrD: "holds m P \<Longrightarrow> m = Inr x \<Longrightarrow> P x"
  by simp

text \<open>An operation that neither reads nor writes what \<open>g\<close> changes commutes with \<open>g\<close>.\<close>

definition commutes :: "('s \<Rightarrow> 's) \<Rightarrow> ('s \<Rightarrow> 's result) \<Rightarrow> bool" where
  "commutes g m \<longleftrightarrow> (\<forall>s. m (g s) = map_sum id g (m s))"

lemma commutesD: "commutes g m \<Longrightarrow> m (g s) = map_sum id g (m s)"
  by (simp add: commutes_def)

lemma commutes_Inr: "(\<And>s. f (g s) = g (f s)) \<Longrightarrow> commutes g (\<lambda>s. Inr (f s))"
  by (simp add: commutes_def)

lemma commutes_bind:
  "commutes g m \<Longrightarrow> commutes g f \<Longrightarrow> commutes g (\<lambda>s. and_then (m s) f)"
  by (auto simp: commutes_def and_then_def split: sum.split)

lemma commutes_const: "(\<And>x. commutes g (f x)) \<Longrightarrow> commutes g (\<lambda>s. and_then m (\<lambda>x. f x s))"
  by (cases m) (simp_all add: commutes_def)

lemma commutes_if:
  "commutes g m \<Longrightarrow> commutes g m' \<Longrightarrow> commutes g (\<lambda>s. if b then m s else m' s)"
  by (simp add: commutes_def)

section \<open>Checked array access\<close>

text \<open>An array object of the C program is the list of its elements; an index is the
  unsigned machine value the code computes, and an access outside the object is a fault.\<close>

definition fetch :: "'a list \<Rightarrow> u64 \<Rightarrow> 'a result" where
  "fetch xs i = (if unat i < length xs then Inr (xs ! unat i) else Inl OutOfBounds)"

definition store :: "'a list \<Rightarrow> u64 \<Rightarrow> 'a \<Rightarrow> 'a list result" where
  "store xs i x = (if unat i < length xs then Inr (xs[unat i := x]) else Inl OutOfBounds)"

lemma holds_fetch [wp]: "holds (fetch xs i) P \<longleftrightarrow> unat i < length xs \<and> P (xs ! unat i)"
  by (simp add: fetch_def)

lemma holds_store [wp]:
  "holds (store xs i x) P \<longleftrightarrow> unat i < length xs \<and> P (xs[unat i := x])"
  by (simp add: store_def)

section \<open>Counting loops\<close>

text \<open>
  One iteration of a loop body either goes on with a new loop state (\<open>Next\<close>, also for
  \<open>continue\<close>) or leaves the loop (\<open>Exit\<close>, for \<open>break\<close> and \<open>return\<close>).
\<close>

datatype ('s, 'r) flow = Next 's | Exit 'r

lemma unat_plus_1: "i < n \<Longrightarrow> unat (i + 1) = Suc (unat i)" for i n :: "'a::len word"
proof -
  assume "i < n"
  then have "unat i < unat n" by (simp add: word_less_nat_alt)
  moreover have "unat n < 2 ^ LENGTH('a)" by (rule unsigned_less)
  ultimately have "unat i + 1 < 2 ^ LENGTH('a)" by linarith
  then show ?thesis by (simp add: unat_word_ariths)
qed

lemma unat_add_small: "unat x + unat y < 2 ^ LENGTH('a) \<Longrightarrow> unat (x + y) = unat x + unat y"
  for x y :: "'a::len word"
  by (simp add: unat_word_ariths)

lemma unat_mult_small: "unat x * unat y < 2 ^ LENGTH('a) \<Longrightarrow> unat (x * y) = unat x * unat y"
  for x y :: "'a::len word"
  by (simp add: unat_word_ariths)

lemma unat_add_u64: "unat x + unat y < 2 ^ 64 \<Longrightarrow> unat (x + y) = unat x + unat y"
  for x y :: u64
  by (rule unat_add_small) simp

lemma unat_of_nat_small: "k < 2 ^ LENGTH('a) \<Longrightarrow> unat (of_nat k :: 'a::len word) = k"
  by (simp add: unat_of_nat)

lemma unat_of_nat_u64: "k < 2 ^ 64 \<Longrightarrow> unat (of_nat k :: u64) = k"
  by (rule unat_of_nat_small) simp

lemma unat_less_u64: "unat x < 2 ^ 64" for x :: u64
  using unsigned_less [of x] by simp

lemma plus_1_le: "i < n \<Longrightarrow> i + 1 \<le> n" for i n :: "'a::len word"
  by (simp add: word_le_nat_alt word_less_nat_alt unat_plus_1)

lemma sint_plus_1: "i <s n \<Longrightarrow> sint (i + 1) = sint i + 1" for i n :: u64
proof -
  assume "i <s n"
  then have "sint i + 1 < 2 ^ 63" using sint_lt [of n] by (simp add: word_sless_alt)
  moreover have "- (2 ^ 63) \<le> sint i + 1" using sint_ge [of i] by simp
  ultimately show ?thesis by (simp add: sint_word_ariths signed_take_bit_int_eq_self)
qed

function for_u64 ::
  "(u64 \<Rightarrow> 's \<Rightarrow> ('s, 'r) flow result) \<Rightarrow> u64 \<Rightarrow> u64 \<Rightarrow> 's \<Rightarrow> ('s, 'r) flow result"
where
  "for_u64 body i n s =
     (if i < n then
        (case body i s of
           Inl e \<Rightarrow> Inl e
         | Inr (Exit r) \<Rightarrow> Inr (Exit r)
         | Inr (Next s') \<Rightarrow> for_u64 body (i + 1) n s')
      else Inr (Next s))"
  by pat_completeness auto
termination
  by (relation "measure (\<lambda>(body, i, n, s). unat n - unat i)")
     (auto simp: unat_plus_1 word_less_nat_alt intro: diff_less_mono2)

declare for_u64.simps [simp del]

lemma for_u64_stop: "\<not> i < n \<Longrightarrow> for_u64 body i n s = Inr (Next s)"
  by (simp add: for_u64.simps)

lemma for_u64_step:
  "i < n \<Longrightarrow> for_u64 body i n s =
     (case body i s of
        Inl e \<Rightarrow> Inl e
      | Inr (Exit r) \<Rightarrow> Inr (Exit r)
      | Inr (Next s') \<Rightarrow> for_u64 body (i + 1) n s')"
  by (simp add: for_u64.simps [of body i n s])

lemma unat_max: "unat (- 1 :: u64) = 2 ^ 64 - 1"
  by (simp add: unsigned_minus_1_eq_mask mask_eq_exp_minus_1)

lemma not_max: "n < 2 ^ 64 - 1 \<Longrightarrow> (of_nat n :: u64) \<noteq> - 1"
proof
  assume n: "n < 2 ^ 64 - 1" and max: "(of_nat n :: u64) = - 1"
  have "unat (of_nat n :: u64) = n" using n by (simp add: unat_of_nat_u64)
  then show False using n unfolding max unat_max by simp
qed

text \<open>The invariant rule, for total correctness: the body never faults, keeps the
  invariant when it goes on, and establishes the postcondition when it leaves the loop.\<close>

lemma for_u64_holds:
  assumes "I i s" and "i \<le> n"
    and body: "\<And>i s. i < n \<Longrightarrow> I i s \<Longrightarrow>
      holds (body i s) (\<lambda>f. case f of Next s' \<Rightarrow> I (i + 1) s' | Exit r \<Rightarrow> Q (Exit r))"
    and stop: "\<And>s. I n s \<Longrightarrow> Q (Next s)"
  shows "holds (for_u64 body i n s) Q"
  using assms(1,2)
proof (induction "unat n - unat i" arbitrary: i s)
  case 0
  then have "i = n" by (simp add: word_le_nat_alt word_unat_eq_iff)
  with 0 stop show ?case by (simp add: for_u64_stop)
next
  case (Suc k)
  from Suc.hyps(2) have lt: "i < n" by (simp add: word_less_nat_alt)
  obtain f where f: "body i s = Inr f"
    and post: "case f of Next s' \<Rightarrow> I (i + 1) s' | Exit r \<Rightarrow> Q (Exit r)"
    using body [OF lt Suc.prems(1)] by (rule holdsE)
  show ?case
  proof (cases f)
    case (Next s')
    have "k = unat n - unat (i + 1)" using Suc.hyps(2) lt by (simp add: unat_plus_1)
    moreover have "I (i + 1) s'" using post Next by simp
    ultimately have "holds (for_u64 body (i + 1) n s') Q"
      using Suc.hyps(1) plus_1_le [OF lt] by blast
    then show ?thesis using f Next lt by (simp add: for_u64_step)
  next
    case (Exit r)
    then show ?thesis using f post lt by (simp add: for_u64_step)
  qed
qed

text \<open>A loop whose body never leaves it: only the state comes out.\<close>

function each_u64 :: "(u64 \<Rightarrow> 's \<Rightarrow> 's result) \<Rightarrow> u64 \<Rightarrow> u64 \<Rightarrow> 's \<Rightarrow> 's result" where
  "each_u64 body i n s =
     (if i < n then
        (case body i s of Inl e \<Rightarrow> Inl e | Inr s' \<Rightarrow> each_u64 body (i + 1) n s')
      else Inr s)"
  by pat_completeness auto
termination
  by (relation "measure (\<lambda>(body, i, n, s). unat n - unat i)")
     (auto simp: unat_plus_1 word_less_nat_alt intro: diff_less_mono2)

declare each_u64.simps [simp del]

lemma each_u64_stop: "\<not> i < n \<Longrightarrow> each_u64 body i n s = Inr s"
  by (simp add: each_u64.simps)

lemma each_u64_step:
  "i < n \<Longrightarrow> each_u64 body i n s = and_then (body i s) (each_u64 body (i + 1) n)"
  by (simp add: each_u64.simps [of body i n s] and_then_def)

lemma each_u64_holds:
  assumes "I i s" and "i \<le> n"
    and body: "\<And>i s. i < n \<Longrightarrow> I i s \<Longrightarrow> holds (body i s) (I (i + 1))"
    and stop: "\<And>s. I n s \<Longrightarrow> Q s"
  shows "holds (each_u64 body i n s) Q"
  using assms(1,2)
proof (induction "unat n - unat i" arbitrary: i s)
  case 0
  then have "i = n" by (simp add: word_le_nat_alt word_unat_eq_iff)
  with 0 stop show ?case by (simp add: each_u64_stop)
next
  case (Suc k)
  from Suc.hyps(2) have lt: "i < n" by (simp add: word_less_nat_alt)
  have k: "k = unat n - unat (i + 1)" using Suc.hyps(2) lt by (simp add: unat_plus_1)
  have "holds (body i s) (I (i + 1))" using lt Suc.prems(1) by (rule body)
  then have "holds (body i s) (\<lambda>s'. holds (each_u64 body (i + 1) n s') Q)"
    by (rule holds_mono) (rule Suc.hyps(1) [OF k _ plus_1_le [OF lt]])
  then show ?case by (simp add: each_u64_step [OF lt] holds_and_then)
qed

text \<open>Partial correctness: what every iteration that returns keeps.\<close>

lemma each_u64_invariant:
  assumes "each_u64 body i n s = Inr s'" and "I s"
    and body: "\<And>i s s'. body i s = Inr s' \<Longrightarrow> I s \<Longrightarrow> I s'"
  shows "I s'"
  using assms(1,2)
proof (induction "unat n - unat i" arbitrary: i s)
  case 0
  then have "\<not> i < n" by (simp add: word_less_nat_alt)
  with 0 show ?case by (simp add: each_u64_stop)
next
  case (Suc k)
  then have lt: "i < n" by (simp add: word_less_nat_alt)
  obtain s1 where s1: "body i s = Inr s1" "each_u64 body (i + 1) n s1 = Inr s'"
    using Suc.prems(1) by (auto simp: each_u64_step [OF lt] and_then_eq_Inr_iff)
  have "k = unat n - unat (i + 1)" using Suc.hyps(2) lt by (simp add: unat_plus_1)
  then show ?case using Suc.hyps(1) s1 body Suc.prems(2) by blast
qed

lemma for_u64_invariant:
  assumes "for_u64 body i n s = Inr f" and "I s"
    and body: "\<And>i s f. body i s = Inr f \<Longrightarrow> I s \<Longrightarrow> (case f of Next s' \<Rightarrow> I s' | Exit r \<Rightarrow> J r)"
  shows "case f of Next s' \<Rightarrow> I s' | Exit r \<Rightarrow> J r"
  using assms(1,2)
proof (induction "unat n - unat i" arbitrary: i s)
  case 0
  then have "\<not> i < n" by (simp add: word_less_nat_alt)
  with 0 show ?case by (auto simp: for_u64_stop)
next
  case (Suc k)
  then have lt: "i < n" by (simp add: word_less_nat_alt)
  obtain f1 where f1: "body i s = Inr f1"
    using Suc.prems(1) by (cases "body i s") (simp_all add: for_u64_step [OF lt])
  show ?case
  proof (cases f1)
    case (Next s1)
    then have "for_u64 body (i + 1) n s1 = Inr f"
      using Suc.prems(1) f1 by (simp add: for_u64_step [OF lt])
    moreover have "k = unat n - unat (i + 1)" using Suc.hyps(2) lt by (simp add: unat_plus_1)
    ultimately show ?thesis using Suc.hyps(1) body [OF f1 Suc.prems(2)] Next by simp
  next
    case (Exit r)
    then show ?thesis
      using Suc.prems body [OF f1] f1 by (simp add: for_u64_step [OF lt])
  qed
qed

lemma commutes_each_u64:
  assumes "\<And>i. commutes g (body i)"
  shows "commutes g (each_u64 body i n)"
proof -
  have "each_u64 body i n (g s) = map_sum id g (each_u64 body i n s)" for s
    using assms
  proof (induction body i n s rule: each_u64.induct)
    case (1 body i n s)
    show ?case
    proof (cases "i < n")
      case True
      have "body i (g s) = map_sum id g (body i s)" by (rule commutesD) (rule "1.prems")
      then show ?thesis
        using "1.IH" [OF True _ "1.prems"] True by (cases "body i s") (simp_all add: each_u64_step)
    qed (simp add: each_u64_stop)
  qed
  then show ?thesis by (simp add: commutes_def)
qed

text \<open>The same loop over \<open>int64_t\<close>: the comparison is signed.\<close>

function for_s64 ::
  "(u64 \<Rightarrow> 's \<Rightarrow> ('s, 'r) flow result) \<Rightarrow> u64 \<Rightarrow> u64 \<Rightarrow> 's \<Rightarrow> ('s, 'r) flow result"
where
  "for_s64 body i n s =
     (if i <s n then
        (case body i s of
           Inl e \<Rightarrow> Inl e
         | Inr (Exit r) \<Rightarrow> Inr (Exit r)
         | Inr (Next s') \<Rightarrow> for_s64 body (i + 1) n s')
      else Inr (Next s))"
  by pat_completeness auto
termination
  by (relation "measure (\<lambda>(body, i, n, s). nat (sint n - sint i))")
     (auto simp: sint_plus_1 word_sless_alt)

declare for_s64.simps [simp del]

lemma for_s64_stop: "\<not> i <s n \<Longrightarrow> for_s64 body i n s = Inr (Next s)"
  by (simp add: for_s64.simps)

lemma for_s64_step:
  "i <s n \<Longrightarrow> for_s64 body i n s =
     (case body i s of
        Inl e \<Rightarrow> Inl e
      | Inr (Exit r) \<Rightarrow> Inr (Exit r)
      | Inr (Next s') \<Rightarrow> for_s64 body (i + 1) n s')"
  by (simp add: for_s64.simps [of body i n s])

text \<open>On the nonnegative range the signed loop is the unsigned one.\<close>

lemma sint_nonneg:
  "unat i < 2 ^ (LENGTH('a) - 1) \<Longrightarrow> sint i = uint i" for i :: "'a::len word"
proof -
  assume "unat i < 2 ^ (LENGTH('a) - 1)"
  then have "int (unat i) < int (2 ^ (LENGTH('a) - 1))" by (simp only: of_nat_less_iff)
  then have "uint i < 2 ^ (LENGTH('a) - 1)" by simp
  moreover have "- (2 ^ (LENGTH('a) - 1)) \<le> uint i" by (rule order_trans [of _ 0]) simp_all
  ultimately show ?thesis by (simp add: sint_uint signed_take_bit_int_eq_self)
qed

lemma scast_nonneg:
  "unat i < 2 ^ (LENGTH('a) - 1) \<Longrightarrow> scast i = (ucast i :: 'b::len word)" for i :: "'a::len word"
  by (simp only: scast_eq sint_nonneg ucast_eq)

lemma unat_ucast_up:
  "LENGTH('a) \<le> LENGTH('b) \<Longrightarrow> unat (ucast x :: 'b::len word) = unat x" for x :: "'a::len word"
proof -
  assume "LENGTH('a) \<le> LENGTH('b)"
  then have "unat x < 2 ^ LENGTH('b)"
    using unsigned_less [of x] by (rule_tac less_le_trans [of _ "2 ^ LENGTH('a)"]) simp_all
  then show ?thesis by (simp add: unsigned_ucast_eq take_bit_nat_eq_self)
qed

lemma sless_nonneg_iff:
  fixes i n :: u64
  assumes "unat i < 2 ^ 63" and "unat n < 2 ^ 63"
  shows "i <s n \<longleftrightarrow> i < n"
proof -
  have "sint i = uint i" and "sint n = uint n"
    by (rule sint_nonneg, use assms in simp)+
  then show ?thesis by (simp only: word_sless_alt word_less_def)
qed

lemma for_s64_eq_for_u64:
  assumes "unat i < 2 ^ 63" and "unat n < 2 ^ 63"
  shows "for_s64 body i n s = for_u64 body i n s"
  using assms
proof (induction body i n s rule: for_u64.induct)
  case (1 body i n s)
  show ?case
  proof (cases "i < n")
    case True
    then have "unat (i + 1) < 2 ^ 63"
      using "1.prems"(2) by (simp add: unat_plus_1 word_less_nat_alt)
    with True 1 show ?thesis
      by (auto simp: for_u64_step for_s64_step sless_nonneg_iff split: sum.split flow.split)
  next
    case False
    with "1.prems" show ?thesis by (simp add: for_u64_stop for_s64_stop sless_nonneg_iff)
  qed
qed

definition each_s64 :: "(u64 \<Rightarrow> 's \<Rightarrow> 's result) \<Rightarrow> u64 \<Rightarrow> u64 \<Rightarrow> 's \<Rightarrow> 's result" where
  "each_s64 body i n s =
     and_then (for_s64 (\<lambda>i s. and_then (body i s) (\<lambda>s'. Inr (Next s'))) i n s)
       (\<lambda>f. case f of Next s' \<Rightarrow> Inr s' | Exit s' \<Rightarrow> Inr s')"

lemma for_u64_each:
  "and_then (for_u64 (\<lambda>i s. and_then (body i s) (\<lambda>s'. Inr (Next s'))) i n s)
     (\<lambda>f. case f of Next s' \<Rightarrow> Inr s' | Exit s' \<Rightarrow> Inr s') = each_u64 body i n s"
proof (induction body i n s rule: each_u64.induct)
  case (1 body i n s)
  show ?case
  proof (cases "i < n")
    case True
    with 1 show ?thesis
      by (cases "body i s") (simp_all add: for_u64_step each_u64_step)
  qed (simp add: for_u64_stop each_u64_stop)
qed

lemma each_s64_eq_each_u64:
  "unat i < 2 ^ 63 \<Longrightarrow> unat n < 2 ^ 63 \<Longrightarrow> each_s64 body i n s = each_u64 body i n s"
  by (simp only: each_s64_def for_s64_eq_for_u64 for_u64_each)

text \<open>Rounds that change nothing.\<close>

lemma for_u64_skip:
  fixes i n :: u64
  assumes "k \<le> unat n" and "\<And>j. unat i \<le> j \<Longrightarrow> j < k \<Longrightarrow> body (of_nat j) s = Inr (Next s)"
    and "unat i \<le> k"
  shows "for_u64 body i n s = for_u64 body (of_nat k) n s"
  using assms(2,3)
proof (induction "k - unat i" arbitrary: i)
  case 0
  then have "i = of_nat k" by simp
  then show ?case by simp
next
  case (Suc d)
  then have lt: "i < n" using assms(1) by (simp add: word_less_nat_alt)
  have "for_u64 body i n s = for_u64 body (i + 1) n s"
    using Suc.prems(1) [of "unat i"] Suc.hyps(2) by (simp add: for_u64_step [OF lt])
  also have "\<dots> = for_u64 body (of_nat k) n s"
    using Suc by (intro Suc.hyps(1)) (simp_all add: unat_plus_1 [OF lt])
  finally show ?case .
qed

section \<open>Linear search\<close>

text \<open>\<open>for (i = 0; i < n; i++) if (P(xs[i])) return i;\<close> on an array object that may be shorter
  than \<open>n\<close>.\<close>

definition search_body :: "('a \<Rightarrow> bool) \<Rightarrow> 'a list \<Rightarrow> u64 \<Rightarrow> unit \<Rightarrow> (unit, u64) flow result" where
  "search_body P xs i u = and_then (fetch xs i) (\<lambda>x. Inr (if P x then Exit i else Next ()))"

definition search :: "('a \<Rightarrow> bool) \<Rightarrow> 'a list \<Rightarrow> u64 \<Rightarrow> (unit, u64) flow result" where
  "search P xs n = for_u64 (search_body P xs) 0 n ()"

definition search_s64 :: "('a \<Rightarrow> bool) \<Rightarrow> 'a list \<Rightarrow> u64 \<Rightarrow> (unit, u64) flow result" where
  "search_s64 P xs n = for_s64 (search_body P xs) 0 n ()"

lemma search_s64_eq: "unat n < 2 ^ 63 \<Longrightarrow> search_s64 P xs n = search P xs n"
  by (simp add: search_def search_s64_def for_s64_eq_for_u64)

lemma search_at:
  assumes "k \<le> unat n" and "k \<le> length xs" and "\<And>j. j < k \<Longrightarrow> \<not> P (xs ! j)"
  shows "search P xs n = for_u64 (search_body P xs) (of_nat k) n ()"
  unfolding search_def
proof (rule for_u64_skip [OF assms(1)])
  show "search_body P xs (of_nat j) () = Inr (Next ())" if "j < k" for j
  proof -
    have "j < 2 ^ 64" using that assms(1) unat_less_u64 [of n] by linarith
    then show ?thesis
      using that assms(2,3) by (simp add: search_body_def fetch_def unat_of_nat_u64)
  qed
qed simp

lemma search_hit:
  assumes "k < unat n" and "k < length xs" and "P (xs ! k)" and "\<And>j. j < k \<Longrightarrow> \<not> P (xs ! j)"
  shows "search P xs n = Inr (Exit (of_nat k))"
proof -
  have "k < 2 ^ 64" using assms(1) unat_less_u64 [of n] by simp
  then have k: "unat (of_nat k :: u64) = k" by (rule unat_of_nat_u64)
  then have "of_nat k < n" using assms(1) by (simp add: word_less_nat_alt)
  moreover have "search P xs n = for_u64 (search_body P xs) (of_nat k) n ()"
    by (rule search_at) (use assms in auto)
  ultimately show ?thesis using assms(2,3) by (simp add: for_u64_step search_body_def fetch_def k)
qed

lemma search_miss:
  assumes "unat n \<le> length xs" and "\<And>j. j < unat n \<Longrightarrow> \<not> P (xs ! j)"
  shows "search P xs n = Inr (Next ())"
  using search_at [of "unat n" n xs P] assms by (simp add: for_u64_stop)

lemma search_overrun:
  assumes "length xs < unat n" and "\<And>x. x \<in> set xs \<Longrightarrow> \<not> P x"
  shows "search P xs n = Inl OutOfBounds"
proof -
  have "length xs < 2 ^ 64" using assms(1) unat_less_u64 [of n] by simp
  then have k: "unat (of_nat (length xs) :: u64) = length xs" by (rule unat_of_nat_u64)
  then have "of_nat (length xs) < n" using assms(1) by (simp add: word_less_nat_alt)
  moreover have "search P xs n = for_u64 (search_body P xs) (of_nat (length xs)) n ()"
    by (rule search_at) (use assms in auto)
  ultimately show ?thesis by (simp add: for_u64_step search_body_def fetch_def k)
qed

lemma search_cases:
  assumes "unat n = length xs"
  obtains (hit) k where "k < length xs" "P (xs ! k)" "\<And>j. j < k \<Longrightarrow> \<not> P (xs ! j)"
      "search P xs n = Inr (Exit (of_nat k))"
  | (miss) "\<And>x. x \<in> set xs \<Longrightarrow> \<not> P x" "search P xs n = Inr (Next ())"
proof (cases "\<exists>k < length xs. P (xs ! k)")
  case True
  define k where "k = (LEAST k. k < length xs \<and> P (xs ! k))"
  have k: "k < length xs \<and> P (xs ! k)" unfolding k_def by (rule LeastI_ex) (use True in blast)
  have least: "\<not> P (xs ! j)" if "j < k" for j
    using not_less_Least [of j "\<lambda>k. k < length xs \<and> P (xs ! k)"] that k by (auto simp: k_def)
  with k hit search_hit [of k n xs P] assms show ?thesis by auto
next
  case False
  then show ?thesis using miss search_miss [of n xs P] assms by (auto simp: in_set_conv_nth)
qed

end
