(* ===== verification/Mem_Utils.thy ===== *)
theory Mem_Utils
  imports Kernel_Prelude
begin

text \<open>
  \<^verbatim>\<open>lib/libk/memUtils.c\<close>: the bit operations \<open>set\<close>, \<open>clear\<close> and \<open>isset\<close> on
  byte arrays, on which both allocators rest, and the fill and copy loops.
  A bitmap is the list of its bytes; the contract of the three bit operations is the
  locale \<open>bit_array\<close>, stated over the set of the marked bit numbers, and
  \<open>bm\<close> is its interpretation on the code's functions.
  Fill and copy loops run over a memory \<open>u64 \<Rightarrow> 'w\<close> from addresses to cells, so that
  overlapping copies are visible.
\<close>

section \<open>Bit operations\<close>

text \<open>\<open>bitmap[location / 8] | (1 << (location % 8))\<close>: the byte is promoted to \<open>int\<close>,
  combined there and truncated by the assignment.\<close>

definition set_loc :: "u8 list \<Rightarrow> u64 \<Rightarrow> u8 list result" where
  "set_loc bitmap location =
     and_then (fetch bitmap (location div 8)) (\<lambda>b.
       store bitmap (location div 8)
         (ucast ((ucast b :: u32) OR push_bit (unat (location mod 8)) 1)))"

definition clear_loc :: "u8 list \<Rightarrow> u64 \<Rightarrow> u8 list result" where
  "clear_loc bitmap location =
     and_then (fetch bitmap (location div 8)) (\<lambda>b.
       store bitmap (location div 8)
         (ucast ((ucast b :: u32) AND NOT (push_bit (unat (location mod 8)) 1))))"

definition isset :: "u8 list \<Rightarrow> u64 \<Rightarrow> bool result" where
  "isset bitmap location =
     and_then (fetch bitmap (location div 8)) (\<lambda>b.
       Inr ((drop_bit (unat (location mod 8)) (ucast b :: u32)) AND 1 \<noteq> 0))"

section \<open>The abstract bitmap\<close>

text \<open>The bit numbers that are marked.\<close>

definition bits :: "u8 list \<Rightarrow> nat set" where
  "bits bitmap = {k. k < 8 * length bitmap \<and> bit (bitmap ! (k div 8)) (k mod 8)}"

lemma bits_subset: "bits bitmap \<subseteq> {..<8 * length bitmap}"
  by (auto simp: bits_def)

lemma finite_bits [simp]: "finite (bits bitmap)"
  by (rule finite_subset [OF bits_subset]) simp

lemma unat_div_8: "unat (location div 8) = unat location div 8" for location :: u64
  by (simp add: unat_div)

lemma unat_mod_8: "unat (location mod 8) = unat location mod 8" for location :: u64
  by (simp add: unat_mod)

lemma and_1_neq_0: "x AND 1 \<noteq> 0 \<longleftrightarrow> bit x 0" for x :: "'a::len word"
  by (simp add: and_one_eq bit_0 mod_2_eq_odd)

lemma bit_isset: "(drop_bit n (ucast b :: u32)) AND 1 \<noteq> 0 \<longleftrightarrow> bit b n" for b :: u8
  by (auto simp: and_1_neq_0 bit_simps dest: bit_imp_le_length)

lemma bit_set_byte:
  "n < 8 \<Longrightarrow> bit (ucast ((ucast b :: u32) OR push_bit n 1) :: u8) k \<longleftrightarrow> bit b k \<or> k = n"
  for b :: u8
  using bit_imp_le_length [of b k] by (auto simp: bit_simps)

lemma bit_clear_byte:
  "n < 8 \<Longrightarrow>
   bit (ucast ((ucast b :: u32) AND NOT (push_bit n 1)) :: u8) k \<longleftrightarrow> bit b k \<and> k \<noteq> n"
  for b :: u8
  using bit_imp_le_length [of b k] by (auto simp: bit_simps)

lemmas bit_set_byte' = bit_set_byte [unfolded push_bit_of_1]
  and bit_clear_byte' = bit_clear_byte [unfolded push_bit_of_1]

lemma div_mod_8_eq: "k div 8 = l div 8 \<Longrightarrow> k mod 8 = l mod 8 \<Longrightarrow> k = l" for k l :: nat
  by (metis div_mult_mod_eq)

lemma byte_index_less: "k div 8 < length bitmap \<longleftrightarrow> k < 8 * length bitmap"
  by (simp add: div_less_iff_less_mult mult.commute)

lemma in_bits_iff: "l \<in> bits bitmap \<longleftrightarrow> l div 8 < length bitmap \<and> bit (bitmap ! (l div 8)) (l mod 8)"
  by (simp add: bits_def byte_index_less)

lemma in_bits_update:
  assumes "k < 8 * length bitmap"
  shows "l \<in> bits (bitmap[k div 8 := b]) \<longleftrightarrow>
    (if l div 8 = k div 8 then bit b (l mod 8) else l \<in> bits bitmap)"
  using assms by (simp add: in_bits_iff nth_list_update byte_index_less [symmetric])

lemma in_bits_same_byte:
  assumes "k < 8 * length bitmap" and "l div 8 = k div 8"
  shows "l \<in> bits bitmap \<longleftrightarrow> bit (bitmap ! (k div 8)) (l mod 8)"
  using assms by (simp add: in_bits_iff byte_index_less [symmetric])

lemma bits_set_byte:
  assumes "k < 8 * length bitmap"
    and "\<And>j. bit b j \<longleftrightarrow> bit (bitmap ! (k div 8)) j \<or> j = k mod 8"
  shows "bits (bitmap[k div 8 := b]) = insert k (bits bitmap)"
proof (rule set_eqI)
  fix l
  show "l \<in> bits (bitmap[k div 8 := b]) \<longleftrightarrow> l \<in> insert k (bits bitmap)"
    using div_mod_8_eq [of l k]
    by (auto simp: in_bits_update [OF assms(1)] assms(2) in_bits_same_byte [OF assms(1)])
qed

lemma bits_clear_byte:
  assumes "k < 8 * length bitmap"
    and "\<And>j. bit b j \<longleftrightarrow> bit (bitmap ! (k div 8)) j \<and> j \<noteq> k mod 8"
  shows "bits (bitmap[k div 8 := b]) = bits bitmap - {k}"
proof (rule set_eqI)
  fix l
  show "l \<in> bits (bitmap[k div 8 := b]) \<longleftrightarrow> l \<in> bits bitmap - {k}"
    using div_mod_8_eq [of l k]
    by (auto simp: in_bits_update [OF assms(1)] assms(2) in_bits_same_byte [OF assms(1)])
qed

section \<open>The contract of a bit array\<close>

text \<open>What the allocators rely on: \<open>view\<close> is the set of the marked bit numbers,
  \<open>cap\<close> how many bits the array has.\<close>

locale bit_array =
  fixes rd :: "'b \<Rightarrow> u64 \<Rightarrow> bool result"
    and mark :: "'b \<Rightarrow> u64 \<Rightarrow> 'b result"
    and unmark :: "'b \<Rightarrow> u64 \<Rightarrow> 'b result"
    and cap :: "'b \<Rightarrow> nat"
    and view :: "'b \<Rightarrow> nat set"
  assumes rd: "unat i < cap b \<Longrightarrow> rd b i = Inr (unat i \<in> view b)"
    and mark: "unat i < cap b \<Longrightarrow>
      holds (mark b i) (\<lambda>b'. cap b' = cap b \<and> view b' = insert (unat i) (view b))"
    and unmark: "unat i < cap b \<Longrightarrow>
      holds (unmark b i) (\<lambda>b'. cap b' = cap b \<and> view b' = view b - {unat i})"
begin

lemma mark_range:
  assumes "i \<le> n" and "unat n \<le> cap b"
  shows "holds (each_u64 (\<lambda>i b. mark b i) i n b)
    (\<lambda>b'. cap b' = cap b \<and> view b' = view b \<union> {unat i..<unat n})"
proof (rule each_u64_holds [where
      I = "\<lambda>j b'. cap b' = cap b \<and> view b' = view b \<union> {unat i..<unat j} \<and> i \<le> j"])
  fix j b'
  assume lt: "j < n" and I: "cap b' = cap b \<and> view b' = view b \<union> {unat i..<unat j} \<and> i \<le> j"
  from lt I assms have "unat j < cap b'" by (simp add: word_less_nat_alt)
  from mark [OF this] I lt
  show "holds (mark b' j)
    (\<lambda>b'. cap b' = cap b \<and> view b' = view b \<union> {unat i..<unat (j + 1)} \<and> i \<le> j + 1)"
    by (elim holds_mono) (auto simp: unat_plus_1 [OF lt] word_le_nat_alt word_less_nat_alt)
qed (use assms in auto)

lemma unmark_range:
  assumes "i \<le> n" and "unat n \<le> cap b"
  shows "holds (each_u64 (\<lambda>i b. unmark b i) i n b)
    (\<lambda>b'. cap b' = cap b \<and> view b' = view b - {unat i..<unat n})"
proof (rule each_u64_holds [where
      I = "\<lambda>j b'. cap b' = cap b \<and> view b' = view b - {unat i..<unat j} \<and> i \<le> j"])
  fix j b'
  assume lt: "j < n" and I: "cap b' = cap b \<and> view b' = view b - {unat i..<unat j} \<and> i \<le> j"
  from lt I assms have "unat j < cap b'" by (simp add: word_less_nat_alt)
  note step = unmark [OF this]
  have up: "{unat i..<unat (j + 1)} = insert (unat j) {unat i..<unat j}" and le: "i \<le> j + 1"
    using conjunct2 [OF conjunct2 [OF I]] by (auto simp: unat_plus_1 [OF lt] word_le_nat_alt)
  show "holds (unmark b' j)
    (\<lambda>b'. cap b' = cap b \<and> view b' = view b - {unat i..<unat (j + 1)} \<and> i \<le> j + 1)"
    using I le by (intro holds_mono [OF step]) (auto simp: up)
qed (use assms in auto)

text \<open>\<open>for (j = 0; j < count; j++) set(bitmap, base + j)\<close>\<close>

lemma mark_run:
  assumes "unat base + unat count \<le> cap b" and "unat base + unat count < 2 ^ 64"
  shows "holds (each_u64 (\<lambda>j b. mark b (base + j)) 0 count b)
    (\<lambda>b'. cap b' = cap b \<and> view b' = view b \<union> {unat base..<unat base + unat count})"
proof (rule each_u64_holds [where
      I = "\<lambda>j b'. cap b' = cap b \<and> view b' = view b \<union> {unat base..<unat base + unat j}"])
  fix j b'
  assume lt: "j < count"
    and I: "cap b' = cap b \<and> view b' = view b \<union> {unat base..<unat base + unat j}"
  have u: "unat (base + j) = unat base + unat j"
    using lt assms(2) by (intro unat_add_small) (simp add: word_less_nat_alt)
  then have "unat (base + j) < cap b'" using lt I assms by (simp add: word_less_nat_alt)
  from mark [OF this] I lt
  show "holds (mark b' (base + j))
    (\<lambda>b'. cap b' = cap b \<and> view b' = view b \<union> {unat base..<unat base + unat (j + 1)})"
    by (elim holds_mono) (auto simp: u unat_plus_1)
qed auto

text \<open>\<open>for (i = 0; i < n; i++) if (!isset(bitmap, i)) return i;\<close>\<close>

lemma find_unmarked:
  assumes "unat n \<le> cap b"
  shows "holds (for_u64 (\<lambda>i (_ :: unit). and_then (rd b i) (\<lambda>u. Inr (if \<not> u then Exit i else Next ()))) 0 n ())
    (\<lambda>f. case f of
        Next _ \<Rightarrow> {..<unat n} \<subseteq> view b
      | Exit i \<Rightarrow> i < n \<and> {..<unat i} \<subseteq> view b \<and> unat i \<notin> view b)"
proof (rule for_u64_holds [where I = "\<lambda>i _. {..<unat i} \<subseteq> view b"])
  fix i :: u64 and s :: unit
  assume lt: "i < n" and I: "{..<unat i} \<subseteq> view b"
  have c: "unat i < cap b" using lt assms by (simp add: word_less_nat_alt)
  show "holds (and_then (rd b i) (\<lambda>u. Inr (if \<not> u then Exit i else Next ())))
    (\<lambda>f. case f of Next _ \<Rightarrow> {..<unat (i + 1)} \<subseteq> view b
      | Exit r \<Rightarrow> (case Exit r of Next _ \<Rightarrow> {..<unat n} \<subseteq> view b
          | Exit i \<Rightarrow> i < n \<and> {..<unat i} \<subseteq> view b \<and> unat i \<notin> view b))"
    using I lt by (auto simp: rd [OF c] unat_plus_1 lessThan_Suc)
qed auto

end

text \<open>The code's functions satisfy the contract.\<close>

interpretation bm: bit_array isset set_loc clear_loc "\<lambda>bitmap. 8 * length bitmap" bits
proof unfold_locales
  fix i :: u64 and b :: "u8 list"
  assume i: "unat i < 8 * length b"
  then have q: "unat i div 8 < length b" by simp
  show "isset b i = Inr (unat i \<in> bits b)"
    using q i by (simp add: isset_def fetch_def unat_div_8 unat_mod_8 bit_isset bits_def)
  show "holds (set_loc b i)
      (\<lambda>b'. 8 * length b' = 8 * length b \<and> bits b' = insert (unat i) (bits b))"
    using q by (simp add: set_loc_def wp unat_div_8 unat_mod_8 bits_set_byte [OF i] bit_set_byte')
  show "holds (clear_loc b i)
      (\<lambda>b'. 8 * length b' = 8 * length b \<and> bits b' = bits b - {unat i})"
    using q by (simp add: clear_loc_def wp unat_div_8 unat_mod_8 bits_clear_byte [OF i] bit_clear_byte')
qed

section \<open>Fill and copy loops\<close>

text \<open>
  \<open>src\<close> and \<open>dest\<close> are addresses, \<open>stride\<close> the size of a cell in bytes: the
  loops of \<open>memset8\<close> to \<open>memset64\<close> advance the pointer, those of \<open>memcpy8\<close> to
  \<open>memcpy64\<close> index from it.
\<close>

definition fill_cells :: "u64 \<Rightarrow> u64 \<Rightarrow> 'w \<Rightarrow> u64 \<Rightarrow> (u64 \<Rightarrow> 'w) \<Rightarrow> (u64 \<Rightarrow> 'w) result" where
  "fill_cells stride src data count m =
     and_then
       (each_u64 (\<lambda>i (p, m). Inr (p + stride, m(p := data))) 0 count (src, m))
       (\<lambda>(p, m). Inr m)"

definition memset8 :: "u64 \<Rightarrow> u8 \<Rightarrow> u64 \<Rightarrow> (u64 \<Rightarrow> u8) \<Rightarrow> (u64 \<Rightarrow> u8) result" where
  "memset8 src data count m = fill_cells 1 src data count m"

definition memset16 :: "u64 \<Rightarrow> u16 \<Rightarrow> u64 \<Rightarrow> (u64 \<Rightarrow> u16) \<Rightarrow> (u64 \<Rightarrow> u16) result" where
  "memset16 src data count m = fill_cells 2 src data count m"

definition memset32 :: "u64 \<Rightarrow> u32 \<Rightarrow> u64 \<Rightarrow> (u64 \<Rightarrow> u32) \<Rightarrow> (u64 \<Rightarrow> u32) result" where
  "memset32 src data count m = fill_cells 4 src data count m"

definition memset64 :: "u64 \<Rightarrow> u64 \<Rightarrow> u64 \<Rightarrow> (u64 \<Rightarrow> u64) \<Rightarrow> (u64 \<Rightarrow> u64) result" where
  "memset64 src data count m = fill_cells 8 src data count m"

definition copy_cells :: "u64 \<Rightarrow> u64 \<Rightarrow> u64 \<Rightarrow> u64 \<Rightarrow> (u64 \<Rightarrow> 'w) \<Rightarrow> (u64 \<Rightarrow> 'w) result" where
  "copy_cells stride dest src count m =
     each_u64 (\<lambda>i m. Inr (m(dest + stride * i := m (src + stride * i)))) 0 count m"

definition memcpy8 :: "u64 \<Rightarrow> u64 \<Rightarrow> u64 \<Rightarrow> (u64 \<Rightarrow> u8) \<Rightarrow> (u64 \<Rightarrow> u8) result" where
  "memcpy8 dest src count m = copy_cells 1 dest src count m"

definition memcpy16 :: "u64 \<Rightarrow> u64 \<Rightarrow> u64 \<Rightarrow> (u64 \<Rightarrow> u16) \<Rightarrow> (u64 \<Rightarrow> u16) result" where
  "memcpy16 dest src count m = copy_cells 2 dest src count m"

definition memcpy32 :: "u64 \<Rightarrow> u64 \<Rightarrow> u64 \<Rightarrow> (u64 \<Rightarrow> u32) \<Rightarrow> (u64 \<Rightarrow> u32) result" where
  "memcpy32 dest src count m = copy_cells 4 dest src count m"

definition memcpy64 :: "u64 \<Rightarrow> u64 \<Rightarrow> u64 \<Rightarrow> (u64 \<Rightarrow> u64) \<Rightarrow> (u64 \<Rightarrow> u64) result" where
  "memcpy64 dest src count m = copy_cells 8 dest src count m"

text \<open>\<open>memset\<close> (\<open>rep stosb\<close>) on an array of bytes, from its start.\<close>

definition memset :: "u8 list \<Rightarrow> u64 \<Rightarrow> u64 \<Rightarrow> u8 list result" where
  "memset src data count = each_u64 (\<lambda>i xs. store xs i (ucast data)) 0 count src"

lemma fill_holds:
  assumes "unat n \<le> length xs"
  shows "each_u64 (\<lambda>i xs. store xs i x) 0 n xs = Inr (replicate (unat n) x @ drop (unat n) xs)"
proof -
  have "holds (each_u64 (\<lambda>i xs. store xs i x) 0 n xs)
    (\<lambda>ys. ys = replicate (unat n) x @ drop (unat n) xs)"
  proof (rule each_u64_holds [where I = "\<lambda>i ys. ys = replicate (unat i) x @ drop (unat i) xs"])
    fix i ys
    assume lt: "i < n" and I: "ys = replicate (unat i) x @ drop (unat i) xs"
    have len: "unat i < length xs" using lt assms by (simp add: word_less_nat_alt)
    then show "holds (store ys i x)
        (\<lambda>ys. ys = replicate (unat (i + 1)) x @ drop (unat (i + 1)) xs)"
      by (simp add: wp I unat_plus_1 [OF lt] list_update_append replicate_append_same [symmetric]
          Cons_nth_drop_Suc [symmetric])
  qed simp_all
  then show ?thesis by (simp add: holds_eq_iff)
qed

lemma memset_eq:
  "unat count \<le> length src \<Longrightarrow>
   memset src data count = Inr (replicate (unat count) (ucast data) @ drop (unat count) src)"
  unfolding memset_def by (rule fill_holds)

lemma bits_memset_zero: "bits (replicate n 0 @ xs) = {k \<in> bits (replicate n 0 @ xs). 8 * n \<le> k}"
  by (auto simp: in_bits_iff nth_append byte_index_less not_less [symmetric])

lemma bits_replicate_zero [simp]: "bits (replicate n 0) = {}"
  by (auto simp: in_bits_iff)

text \<open>Cells of one array do not overlap: their addresses differ as long as the array does
  not wrap around the address space.\<close>

lemma unat_cell:
  fixes stride :: u64
  assumes "unat stride * n \<le> 2 ^ 64" and "0 < unat stride" and "k < n"
  shows "unat (stride * of_nat k) = unat stride * k"
proof -
  have "unat stride * k < unat stride * n" using assms(2,3) by (simp only: mult_less_mono2)
  then have less: "unat stride * k < 2 ^ 64" using assms(1) by (rule less_le_trans)
  have "k \<le> unat stride * k" using assms(2) by simp
  then have "k < 2 ^ 64" using less by (rule le_less_trans)
  then have "unat (of_nat k :: u64) = k" by (intro unat_of_nat_small) simp
  then show ?thesis using less by (subst unat_mult_small) simp_all
qed

lemma cell_neq:
  fixes stride :: u64
  assumes "unat stride * n \<le> 2 ^ 64" and "0 < unat stride" and "i < n" and "j < n" and "i \<noteq> j"
  shows "a + stride * of_nat i \<noteq> a + stride * of_nat j"
proof
  assume "a + stride * of_nat i = a + stride * of_nat j"
  then have "unat (stride * of_nat i) = unat (stride * of_nat j)" by simp
  then have "unat stride * i = unat stride * j" using assms by (simp add: unat_cell [OF assms(1,2)])
  then show False using assms(2,5) by simp
qed

text \<open>The forward copy is right unless the destination starts inside the source, after its
  first cell; cells outside the destination keep their values.\<close>

lemma copy_cells_holds:
  fixes stride count :: u64
  assumes nowrap: "unat stride * unat count \<le> 2 ^ 64" and pos: "0 < unat stride"
    and forward: "\<And>k. 0 < k \<Longrightarrow> k < unat count \<Longrightarrow> dest \<noteq> src + stride * of_nat k"
  shows "holds (copy_cells stride dest src count m)
    (\<lambda>m'. (\<forall>k < unat count. m' (dest + stride * of_nat k) = m (src + stride * of_nat k)) \<and>
       (\<forall>a. (\<forall>k < unat count. a \<noteq> dest + stride * of_nat k) \<longrightarrow> m' a = m a))"
  unfolding copy_cells_def
proof (rule each_u64_holds [where
      I = "\<lambda>i m'. unat i \<le> unat count \<and>
        (\<forall>k < unat i. m' (dest + stride * of_nat k) = m (src + stride * of_nat k)) \<and>
        (\<forall>a. (\<forall>k < unat i. a \<noteq> dest + stride * of_nat k) \<longrightarrow> m' a = m a)"])
  fix i m'
  assume "i < count" and I: "unat i \<le> unat count \<and>
        (\<forall>k < unat i. m' (dest + stride * of_nat k) = m (src + stride * of_nat k)) \<and>
        (\<forall>a. (\<forall>k < unat i. a \<noteq> dest + stride * of_nat k) \<longrightarrow> m' a = m a)"
  then have lt: "unat i < unat count" and i: "unat (i + 1) = Suc (unat i)"
    by (simp_all add: word_less_nat_alt unat_plus_1)
  have i_of: "stride * i = stride * of_nat (unat i)" by simp
  have "src + stride * i \<noteq> dest + stride * of_nat k" if "k < unat i" for k
  proof
    assume eq: "src + stride * i = dest + stride * of_nat k"
    have "i = of_nat (unat i - k) + of_nat k" using that by (simp flip: of_nat_add)
    then have "stride * i = stride * of_nat (unat i - k) + stride * of_nat k"
      by (simp only: distrib_left [symmetric])
    with eq have "dest = src + stride * of_nat (unat i - k)"
      by (simp add: add.assoc [symmetric])
    moreover have "0 < unat i - k" and "unat i - k < unat count" using that lt by simp_all
    ultimately show False using forward by blast
  qed
  then have rd: "m' (src + stride * i) = m (src + stride * i)" using I by blast
  have "dest + stride * of_nat k \<noteq> dest + stride * i" if "k < unat i" for k
    unfolding i_of by (rule cell_neq [OF nowrap pos]) (use that lt in auto)
  then show "holds (Inr (m'(dest + stride * i := m' (src + stride * i))))
     (\<lambda>m'. unat (i + 1) \<le> unat count \<and>
        (\<forall>k < unat (i + 1). m' (dest + stride * of_nat k) = m (src + stride * of_nat k)) \<and>
        (\<forall>a. (\<forall>k < unat (i + 1). a \<noteq> dest + stride * of_nat k) \<longrightarrow> m' a = m a))"
    using I lt by (auto simp: rd i less_Suc_eq)
qed auto

end
