(* ===== verification/Run_Allocator.thy ===== *)
theory Run_Allocator
  imports Mem_Utils
begin

text \<open>
  What the two allocators of the kernel (pages: \<open>physicalPageAlloc\<close>, heap blocks:
  \<open>kmalloc\<close>) have in common. First the search both perform, specified as the first run of
  free units (\<open>first_fit\<close>), with the facts about one iteration of the scanning loop that
  both refinement proofs use. Then the contract a caller relies on, as the locale
  \<open>run_allocator\<close>: sequences of calls never hand out overlapping memory.
\<close>

section \<open>First fit\<close>

definition run_free :: "nat set \<Rightarrow> nat \<Rightarrow> nat \<Rightarrow> nat \<Rightarrow> bool" where
  "run_free used n count p \<longleftrightarrow>
     0 < count \<and> p + count \<le> n \<and> (\<forall>k \<in> {p..<p + count}. k \<notin> used)"

definition first_fit :: "nat set \<Rightarrow> nat \<Rightarrow> nat \<Rightarrow> nat option" where
  "first_fit used n count = find (run_free used n count) [0..<n]"

lemma run_free_less: "run_free used n count p \<Longrightarrow> p < n"
  by (auto simp: run_free_def)

lemma first_fit_None_iff: "first_fit used n count = None \<longleftrightarrow> (\<forall>p. \<not> run_free used n count p)"
  by (auto simp: first_fit_def find_None_iff dest: run_free_less)

lemma first_fit_Some_iff:
  "first_fit used n count = Some p \<longleftrightarrow>
     run_free used n count p \<and> (\<forall>q < p. \<not> run_free used n count q)"
proof
  assume "first_fit used n count = Some p"
  then show "run_free used n count p \<and> (\<forall>q < p. \<not> run_free used n count q)"
    by (auto simp: first_fit_def find_Some_iff)
next
  assume p: "run_free used n count p \<and> (\<forall>q < p. \<not> run_free used n count q)"
  then have "p < n" by (blast dest: run_free_less)
  then show "first_fit used n count = Some p"
    using p by (auto simp: first_fit_def find_Some_iff intro!: exI [of _ p])
qed

lemma run_free_disjoint:
  "run_free used n count p \<longleftrightarrow> 0 < count \<and> p + count \<le> n \<and> {p..<p + count} \<inter> used = {}"
  by (auto simp: run_free_def)

lemma first_fit_least:
  assumes "run_free used n count p" and "{..<p} \<subseteq> used"
  shows "first_fit used n count = Some p"
proof -
  have "\<not> run_free used n count q" if "q < p" for q
    using that assms(2) by (auto simp: run_free_def)
  then show ?thesis using assms(1) by (simp add: first_fit_Some_iff)
qed

text \<open>A run long enough for a single unit and more is still long enough for the rest after the unit is taken.\<close>

definition room :: "nat set \<Rightarrow> nat \<Rightarrow> nat \<Rightarrow> bool" where
  "room used n count \<longleftrightarrow> first_fit used n count \<noteq> None"

lemma room_iff: "room used n count \<longleftrightarrow> (\<exists>p. run_free used n count p)"
  by (auto simp: room_def first_fit_None_iff)

lemma room_unit:
  assumes "room used n (Suc count)" and "0 < count" and "first_fit used n 1 = r"
  obtains q where "r = Some q" and "room (used \<union> {q..<q + 1}) n count"
proof -
  obtain p where p: "run_free used n (Suc count) p" using assms(1) by (auto simp: room_iff)
  then have one: "run_free used n 1 p" by (simp add: run_free_def)
  then obtain q where q: "r = Some q" using assms(3) by (cases r) (auto simp: first_fit_None_iff)
  then have "q \<le> p" using assms(3) one by (metis first_fit_Some_iff not_le)
  then have "run_free (used \<union> {q..<q + 1}) n count (if q = p then p + 1 else p)"
    using p assms(2) by (auto simp: run_free_def)
  then show ?thesis using that [OF q] by (auto simp: room_iff)
qed

text \<open>The state of the scan before unit \<open>i\<close>: the last \<open>cnt\<close> units are free, and no run
  that starts before them fits.\<close>

definition scan_inv :: "nat set \<Rightarrow> nat \<Rightarrow> nat \<Rightarrow> nat \<Rightarrow> nat \<Rightarrow> bool" where
  "scan_inv used n count i cnt \<longleftrightarrow>
     cnt \<le> i \<and> (0 < count \<longrightarrow> cnt < count) \<and>
     (\<forall>k \<in> {i - cnt..<i}. k \<notin> used) \<and>
     (\<forall>p < i - cnt. \<not> run_free used n count p)"

lemma scan_start: "{..<f} \<subseteq> used \<Longrightarrow> scan_inv used n count f 0"
  by (auto simp: scan_inv_def run_free_def subset_iff intro!: bexI)

lemma scan_used:
  assumes "scan_inv used n count i cnt" and "i \<in> used"
  shows "scan_inv used n count (Suc i) 0"
proof -
  have "\<not> run_free used n count p" if "p < Suc i" for p
  proof (cases "p < i - cnt")
    case True
    then show ?thesis using assms(1) by (simp add: scan_inv_def)
  next
    case False
    then have "0 < count \<Longrightarrow> i \<in> {p..<p + count}"
      using that assms(1) by (auto simp: scan_inv_def)
    then show ?thesis using assms(2) by (auto simp: run_free_def)
  qed
  then show ?thesis by (simp add: scan_inv_def)
qed

lemma scan_free:
  assumes "scan_inv used n count i cnt" and "i \<notin> used" and "Suc cnt \<noteq> count"
  shows "scan_inv used n count (Suc i) (Suc cnt)"
  using assms by (auto simp: scan_inv_def less_Suc_eq)

lemma scan_found:
  assumes "scan_inv used n count i cnt" and "i \<notin> used" and "Suc cnt = count" and "i < n"
  shows "first_fit used n count = Some (i - cnt)"
  using assms by (auto simp: first_fit_Some_iff scan_inv_def run_free_def less_Suc_eq)

lemma scan_end:
  assumes "scan_inv used n count n cnt"
  shows "first_fit used n count = None"
  using assms by (force simp: first_fit_None_iff scan_inv_def run_free_def not_less)

text \<open>
  The loop of both allocators: \<open>cnt\<close> counts the free units up to \<open>i\<close>, \<open>base\<close> is the
  address, in units of \<open>stride\<close> bytes, of the first of them; when the run is long enough
  the allocator takes it and leaves the loop (\<open>found\<close>). The whole loop is that step at the
  first fit, or runs to the end.
\<close>

lemma stride_base:
  fixes q stride :: u64
  assumes "unat stride * unat q < 2 ^ 64" and "0 < unat stride"
  shows "unat (q * stride) = unat q * unat stride" and "q * stride div stride = q"
proof -
  show u: "unat (q * stride) = unat q * unat stride"
    using assms by (subst unat_mult_small) (simp_all add: mult.commute)
  then have "unat (q * stride div stride) = unat q" using assms(2) by (simp add: unat_div)
  then show "q * stride div stride = q" by (simp only: word_unat_eq_iff)
qed

context bit_array
begin

lemma scan_from:
  assumes cap: "unat n \<le> cap b"
    and leaves: "\<And>base st. found base \<noteq> Inr (Next st)"
    and "scan_inv (view b) (unat n) (unat count) (unat i) (unat cnt)" and "i \<le> n"
  shows "\<exists>st. for_u64 (\<lambda>i (cnt, base).
       and_then (rd b i) (\<lambda>u.
         if u then Inr (Next (0, base + (cnt + 1) * stride))
         else if cnt + 1 = count then found base
         else Inr (Next (cnt + 1, base))))
       i n (cnt, (i - cnt) * stride) =
     (case first_fit (view b) (unat n) (unat count) of
        None \<Rightarrow> Inr (Next st)
      | Some p \<Rightarrow> found (of_nat p * stride))"
  using assms(3,4)
proof (induction "unat n - unat i" arbitrary: i cnt)
  case 0
  then have "i = n" by (simp add: word_le_nat_alt word_unat_eq_iff)
  with 0 show ?case by (auto simp: for_u64_stop dest: scan_end)
next
  case (Suc k)
  note inv = Suc.prems(1)
  from Suc.hyps(2) have lt: "i < n" by (simp add: word_less_nat_alt)
  then have i: "unat i < unat n" by (simp add: word_less_nat_alt)
  have read: "rd b i = Inr (unat i \<in> view b)" using i cap by (intro rd) simp
  have cnt: "unat cnt \<le> unat i" using inv by (simp add: scan_inv_def)
  then have "cnt < n" using lt by (simp add: word_less_nat_alt)
  note Suc1 = unat_plus_1 [OF lt] unat_plus_1 [OF this]
  have advance: "(i - cnt) * stride + (cnt + 1) * stride = (i + 1 - 0) * stride"
    by (simp add: distrib_right [symmetric])
  have k: "k = unat n - unat (i + 1)" using Suc.hyps(2) Suc1 by simp
  note next_iteration = Suc.hyps(1) [OF k _ plus_1_le [OF lt]]
  show ?case
  proof (cases "unat i \<in> view b")
    case True
    have "scan_inv (view b) (unat n) (unat count) (unat (i + 1)) (unat (0 :: u64))"
      using scan_used [OF inv True] Suc1 by simp
    from next_iteration [OF this] show ?thesis
      using True advance by (simp add: for_u64_step [OF lt] read)
  next
    case free: False
    show ?thesis
    proof (cases "cnt + 1 = count")
      case True
      then have c: "Suc (unat cnt) = unat count" using Suc1 by simp
      have "of_nat (unat i - unat cnt) = i - cnt" using cnt by (simp add: of_nat_diff)
      then show ?thesis
        using scan_found [OF inv free c i] free True leaves [of "(i - cnt) * stride"]
        by (auto simp: for_u64_step [OF lt] read split: sum.split flow.split)
    next
      case False
      then have "Suc (unat cnt) \<noteq> unat count" using Suc1 by (metis word_unat_eq_iff)
      then have "scan_inv (view b) (unat n) (unat count) (unat (i + 1)) (unat (cnt + 1))"
        using scan_free [OF inv free] Suc1 by simp
      from next_iteration [OF this] show ?thesis
        using free False by (simp add: for_u64_step [OF lt] read)
    qed
  qed
qed

lemma scan_loop:
  assumes "unat n \<le> cap b" and "start \<le> n" and "{..<unat start} \<subseteq> view b"
    and "\<And>base st. found base \<noteq> Inr (Next st)"
  shows "\<exists>st. for_u64 (\<lambda>i (cnt, base).
       and_then (rd b i) (\<lambda>u.
         if u then Inr (Next (0, base + (cnt + 1) * stride))
         else if cnt + 1 = count then found base
         else Inr (Next (cnt + 1, base))))
       start n (0, start * stride) =
     (case first_fit (view b) (unat n) (unat count) of
        None \<Rightarrow> Inr (Next st)
      | Some p \<Rightarrow> found (of_nat p * stride))"
  using scan_from [OF assms(1,4) _ assms(2), of count 0 stride] scan_start [OF assms(3)] by simp

end

section \<open>The contract\<close>

text \<open>Sequences of calls: the client keeps the list of the runs it holds, each with the
  count it asked for; a returned 0 is a failure.\<close>

datatype alloc_op = Alloc u64 | Release nat

fun run_ops ::
  "(u64 \<Rightarrow> 's \<Rightarrow> (u64 \<times> 's) result) \<Rightarrow> (u64 \<Rightarrow> u64 \<Rightarrow> 's \<Rightarrow> 's result) \<Rightarrow>
   alloc_op list \<Rightarrow> 's \<Rightarrow> (u64 \<times> u64) list \<Rightarrow> ('s \<times> (u64 \<times> u64) list) result"
where
  "run_ops alloc release [] s rs = Inr (s, rs)"
| "run_ops alloc release (Alloc c # ops) s rs =
     and_then (alloc c s) (\<lambda>(a, s').
       run_ops alloc release ops s' (if a = 0 then rs else (a, c) # rs))"
| "run_ops alloc release (Release k # ops) s rs =
     (if k < length rs
      then and_then (release (fst (rs ! k)) (snd (rs ! k)) s)
             (\<lambda>s'. run_ops alloc release ops s' (remove1 (rs ! k) rs))
      else run_ops alloc release ops s rs)"

text \<open>The bytes of a run, and runs that do not overlap; \<open>part r\<close> is what the run \<open>r\<close>
  occupies, its bytes or the units of the bitmap.\<close>

definition extent :: "nat \<Rightarrow> u64 \<times> u64 \<Rightarrow> nat set" where
  "extent stride r = {unat (fst r)..<unat (fst r) + stride * unat (snd r)}"

fun disjoint_runs :: "(u64 \<times> u64 \<Rightarrow> nat set) \<Rightarrow> (u64 \<times> u64) list \<Rightarrow> bool" where
  "disjoint_runs part [] = True"
| "disjoint_runs part (r # rs) =
     ((\<forall>r' \<in> set rs. part r \<inter> part r' = {}) \<and> disjoint_runs part rs)"

lemma disjoint_runs_remove1: "disjoint_runs part rs \<Longrightarrow> disjoint_runs part (remove1 r rs)"
  by (induction rs) (auto dest: notin_set_remove1 set_mp [OF set_remove1_subset])

lemma disjoint_runs_rest:
  "disjoint_runs part rs \<Longrightarrow> r \<in> set rs \<Longrightarrow> r' \<in> set (remove1 r rs) \<Longrightarrow> part r \<inter> part r' = {}"
proof (induction rs)
  case (Cons r0 rs)
  show ?case
  proof (cases "r0 = r \<or> r' = r0")
    case True
    with Cons.prems show ?thesis by (auto simp: Int_commute split: if_splits)
  next
    case False
    with Cons show ?thesis by auto
  qed
qed simp

lemma disjoint_runs_mono:
  "disjoint_runs part rs \<Longrightarrow>
   (\<And>r r'. r \<in> set rs \<Longrightarrow> r' \<in> set rs \<Longrightarrow> part r \<inter> part r' = {} \<Longrightarrow> part' r \<inter> part' r' = {}) \<Longrightarrow>
   disjoint_runs part' rs"
  by (induction rs) auto

text \<open>The runs the client holds are marked in the bitmap and do not share a unit.\<close>

definition runs_marked :: "(u64 \<times> u64 \<Rightarrow> nat set) \<Rightarrow> nat set \<Rightarrow> (u64 \<times> u64) list \<Rightarrow> bool" where
  "runs_marked part used rs \<longleftrightarrow> (\<forall>r \<in> set rs. part r \<subseteq> used) \<and> disjoint_runs part rs"

lemma runs_marked_add:
  "runs_marked part used rs \<Longrightarrow> part r \<inter> used = {} \<Longrightarrow>
   runs_marked part (used \<union> part r) (r # rs)"
  by (fastforce simp: runs_marked_def)

lemma runs_marked_remove:
  assumes "runs_marked part used rs" and "r \<in> set rs"
  shows "runs_marked part (used - part r) (remove1 r rs)"
proof -
  have "part r' \<subseteq> used - part r" if "r' \<in> set (remove1 r rs)" for r'
    using that assms disjoint_runs_rest [of part rs r r'] set_remove1_subset [of r rs]
    by (auto simp: runs_marked_def)
  then show ?thesis using assms by (simp add: runs_marked_def disjoint_runs_remove1)
qed

text \<open>Partial correctness: a call that returns keeps the invariant. An allocator whose calls
  always return is a \<open>total_run_allocator\<close>.\<close>

locale run_allocator =
  fixes alloc :: "u64 \<Rightarrow> 's \<Rightarrow> (u64 \<times> 's) result"
    and release :: "u64 \<Rightarrow> u64 \<Rightarrow> 's \<Rightarrow> 's result"
    and runs_ok :: "'s \<Rightarrow> (u64 \<times> u64) list \<Rightarrow> bool"
    and stride :: nat
  assumes alloc: "runs_ok s rs \<Longrightarrow> alloc c s = Inr (a, s') \<Longrightarrow>
      runs_ok s' (if a = 0 then rs else (a, c) # rs)"
    and release: "runs_ok s rs \<Longrightarrow> (a, c) \<in> set rs \<Longrightarrow> release a c s = Inr s' \<Longrightarrow>
      runs_ok s' (remove1 (a, c) rs)"
    and disjoint: "runs_ok s rs \<Longrightarrow> disjoint_runs (extent stride) rs"
begin

lemma run_ops_ok:
  "runs_ok s rs \<Longrightarrow> run_ops alloc release ops s rs = Inr (s', rs') \<Longrightarrow> runs_ok s' rs'"
proof (induction ops arbitrary: s rs)
  case (Cons op ops)
  show ?case
  proof (cases op)
    case (Alloc c)
    with Cons.prems(2) obtain a s1 where "alloc c s = Inr (a, s1)"
      "run_ops alloc release ops s1 (if a = 0 then rs else (a, c) # rs) = Inr (s', rs')"
      by (auto simp: and_then_eq_Inr_iff)
    then show ?thesis using Cons.IH alloc [OF Cons.prems(1)] by blast
  next
    case (Release k)
    show ?thesis
    proof (cases "k < length rs")
      case True
      with Release Cons.prems(2) obtain s1 where
        s1: "release (fst (rs ! k)) (snd (rs ! k)) s = Inr s1"
        and rest: "run_ops alloc release ops s1 (remove1 (rs ! k) rs) = Inr (s', rs')"
        by (auto simp: and_then_eq_Inr_iff)
      have r: "(fst (rs ! k), snd (rs ! k)) \<in> set rs" using True by simp
      from release [OF Cons.prems(1) r s1] have "runs_ok s1 (remove1 (rs ! k) rs)" by simp
      then show ?thesis using rest by (rule Cons.IH)
    next
      case False
      then show ?thesis using Release Cons by simp
    qed
  qed
qed simp

text \<open>No sequence of calls hands out memory that is already handed out.\<close>

lemma run_ops_disjoint:
  "runs_ok s rs \<Longrightarrow> run_ops alloc release ops s rs = Inr (s', rs') \<Longrightarrow>
   disjoint_runs (extent stride) rs'"
  by (rule disjoint [OF run_ops_ok])

end

locale total_run_allocator = run_allocator +
  assumes alloc_returns: "runs_ok s rs \<Longrightarrow> \<exists>a s'. alloc c s = Inr (a, s')"
    and release_returns: "runs_ok s rs \<Longrightarrow> (a, c) \<in> set rs \<Longrightarrow> \<exists>s'. release a c s = Inr s'"
begin

lemma run_ops_returns:
  "runs_ok s rs \<Longrightarrow> \<exists>s' rs'. run_ops alloc release ops s rs = Inr (s', rs')"
proof (induction ops arbitrary: s rs)
  case (Cons op ops)
  show ?case
  proof (cases op)
    case (Alloc c)
    obtain a s1 where "alloc c s = Inr (a, s1)" using alloc_returns [OF Cons.prems] by blast
    then show ?thesis using Alloc Cons.IH alloc [OF Cons.prems] by simp
  next
    case (Release k)
    show ?thesis
    proof (cases "k < length rs")
      case True
      then have r: "(fst (rs ! k), snd (rs ! k)) \<in> set rs" by simp
      from release_returns [OF Cons.prems r] obtain s1 where
        s1: "release (fst (rs ! k)) (snd (rs ! k)) s = Inr s1" by blast
      from release [OF Cons.prems r s1] show ?thesis
        using Release True Cons.IH s1 by simp
    next
      case False
      then show ?thesis using Release Cons by simp
    qed
  qed
qed simp

end

end
