(* ===== verification/K_String.thy ===== *)
theory K_String
  imports Kernel_Prelude
begin

text \<open>
  \<^verbatim>\<open>lib/libk/string.c\<close>. A C string is the list of the characters of its object with
  the terminating NUL among them; a walk past the end of the object is a fault, and the
  pointer increments of the walks are the recursion on the list. \<open>cstr\<close> makes the object
  of a literal.
\<close>

abbreviation NUL :: char where
  "NUL \<equiv> CHR 0x00"

definition cstr :: "string \<Rightarrow> string" where
  "cstr s = s @ [NUL]"

definition no_nul :: "string \<Rightarrow> bool" where
  "no_nul s \<longleftrightarrow> (\<forall>c \<in> set s. c \<noteq> NUL)"

lemma no_nul_simps [simp]:
  "no_nul []"
  "no_nul (c # cs) \<longleftrightarrow> c \<noteq> NUL \<and> no_nul cs"
  "no_nul (xs @ ys) \<longleftrightarrow> no_nul xs \<and> no_nul ys"
  by (auto simp: no_nul_def)

lemma cstr_simps [simp]: "cstr [] = [NUL]" "cstr (c # cs) = c # cstr cs"
  by (simp_all add: cstr_def)

lemma length_cstr: "length (cstr s) = Suc (length s)"
  by (simp add: cstr_def)

lemma take_cstr [simp]: "take (length s) (cstr s) = s"
  by (simp add: cstr_def)

lemma nth_cstr: "n < length s \<Longrightarrow> cstr s ! n = s ! n"
  by (simp add: cstr_def nth_append)

section \<open>strlen, strcmp, strncmp, strcpy\<close>

fun strlen_loop :: "string \<Rightarrow> u64 \<Rightarrow> u64 result" where
  "strlen_loop [] len = Inl OutOfBounds"
| "strlen_loop (c # cs) len = (if c \<noteq> NUL then strlen_loop cs (len + 1) else Inr len)"

definition strlen :: "string \<Rightarrow> u64 result" where
  "strlen str = strlen_loop str 0"

fun strcmp :: "string \<Rightarrow> string \<Rightarrow> int result" where
  "strcmp (x # a) (y # b) =
     (if x \<noteq> NUL \<and> x = y then strcmp a b else Inr (of_char x - of_char y))"
| "strcmp a b = Inl OutOfBounds"

definition strncmp :: "string \<Rightarrow> string \<Rightarrow> u64 \<Rightarrow> int result" where
  "strncmp str1 str2 n =
     and_then
       (for_u64 (\<lambda>i (_ :: unit).
          and_then (fetch str1 i) (\<lambda>c1. and_then (fetch str2 i) (\<lambda>c2.
            Inr (if c1 \<noteq> c2 then Exit 1 else Next ())))) 0 n ())
       (\<lambda>f. case f of Exit r \<Rightarrow> Inr r | Next _ \<Rightarrow> Inr 0)"

fun strcpy_loop :: "string \<Rightarrow> string \<Rightarrow> string result" where
  "strcpy_loop (d # dest) (c # src) =
     (if c \<noteq> NUL then and_then (strcpy_loop dest src) (\<lambda>rest. Inr (c # rest))
      else Inr (NUL # dest))"
| "strcpy_loop dest src = Inl OutOfBounds"

definition strcpy :: "string option \<Rightarrow> string \<Rightarrow> string option result" where
  "strcpy dest src =
     (case dest of None \<Rightarrow> Inr None
      | Some d \<Rightarrow> and_then (strcpy_loop d src) (\<lambda>d'. Inr (Some d')))"

text \<open>The C string in an object: its characters before the NUL.\<close>

definition cchars :: "string \<Rightarrow> string" where
  "cchars t = takeWhile (\<lambda>c. c \<noteq> NUL) t"

lemma cchars_cstr [simp]: "no_nul s \<Longrightarrow> cchars (cstr s) = s"
  by (simp add: cchars_def cstr_def no_nul_def takeWhile_append2)

lemma NUL_in_cstr [simp]: "NUL \<in> set (cstr s)"
  by (simp add: cstr_def)

lemma no_nul_cchars [simp]: "no_nul (cchars t)"
  by (auto simp: no_nul_def cchars_def dest: set_takeWhileD)

lemma length_cchars: "NUL \<in> set t \<Longrightarrow> length (cchars t) < length t"
  by (induction t) (auto simp: cchars_def)

lemma take_cchars: "take (length (cchars t)) t = cchars t"
  by (simp add: cchars_def takeWhile_eq_take [symmetric])

lemma strlen_loop_eq: "NUL \<in> set t \<Longrightarrow> strlen_loop t n = Inr (n + of_nat (length (cchars t)))"
  by (induction t arbitrary: n) (auto simp: cchars_def algebra_simps)

lemma strlen_eq: "NUL \<in> set t \<Longrightarrow> strlen t = Inr (of_nat (length (cchars t)))"
  by (simp add: strlen_def strlen_loop_eq)

lemma of_char_eq_int [simp]: "(of_char x :: int) - of_char y = 0 \<longleftrightarrow> x = y"
  by (metis diff_0_right eq_iff_diff_eq_0 of_char_eq_iff)

lemma of_char_eq_0 [simp]: "(of_char x :: int) = 0 \<longleftrightarrow> x = NUL"
  by (simp add: of_char_eq_int [of x NUL, symmetric] del: of_char_eq_int)

lemma strcmp_cstr:
  "no_nul a \<Longrightarrow> no_nul b \<Longrightarrow> \<exists>d. strcmp (cstr a @ u) (cstr b @ v) = Inr d \<and> (d = 0 \<longleftrightarrow> a = b)"
proof (induction a arbitrary: b)
  case Nil
  then show ?case by (cases b) auto
next
  case (Cons x a)
  then show ?case by (cases b) auto
qed


section \<open>itob\<close>

definition hold :: string where
  "hold = cstr ''0123456789ABCDEF''"

text \<open>\<open>str\<close> is the position of the pointer in \<open>buffer\<close>; \<open>*--str\<close> below the start of the
  buffer is a fault. The \<open>int\<close> base is converted to \<open>uint64_t\<close> for the division.\<close>

fun itob_loop :: "u64 \<Rightarrow> u64 \<Rightarrow> nat \<Rightarrow> string \<Rightarrow> (nat \<times> string) result" where
  "itob_loop num base 0 buffer = (if base = 0 then Inl DivByZero else Inl OutOfBounds)"
| "itob_loop num base (Suc str) buffer =
     (if base = 0 then Inl DivByZero
      else and_then (fetch hold (num mod base)) (\<lambda>c.
        let buffer' = buffer[str := c]; num' = num div base in
        if num' \<noteq> 0 then itob_loop num' base str buffer' else Inr (str, buffer')))"

text \<open>The result is the returned pointer, as a position in the static buffer, and that
  buffer.\<close>

definition itob :: "u64 \<Rightarrow> u32 \<Rightarrow> string \<Rightarrow> (nat \<times> string) result" where
  "itob num base buffer =
     and_then (store buffer 49 NUL) (\<lambda>buffer. itob_loop num (scast base) 49 buffer)"

text \<open>Reference: the numeral of \<open>n\<close>, most significant digit first.\<close>

definition digit_char :: "nat \<Rightarrow> char" where
  "digit_char d = ''0123456789ABCDEF'' ! d"

fun numeral_of :: "nat \<Rightarrow> nat \<Rightarrow> string" where
  "numeral_of b n =
     (if b < 2 \<or> n < b then [digit_char n] else numeral_of b (n div b) @ [digit_char (n mod b)])"

declare numeral_of.simps [simp del]

lemma numeral_of_small: "n < b \<Longrightarrow> numeral_of b n = [digit_char n]"
  by (simp add: numeral_of.simps [of b n])

lemma numeral_of_step:
  "2 \<le> b \<Longrightarrow> b \<le> n \<Longrightarrow> numeral_of b n = numeral_of b (n div b) @ [digit_char (n mod b)]"
  by (simp add: numeral_of.simps [of b n])

lemma fetch_hold: "unat d < 16 \<Longrightarrow> fetch hold d = Inr (digit_char (unat d))"
  by (simp add: fetch_def hold_def digit_char_def nth_cstr length_cstr del: cstr_simps)

lemma itob_loop_holds:
  assumes "2 \<le> unat base" and "unat base \<le> 16"
  shows "0 < str \<Longrightarrow> str \<le> length buffer \<Longrightarrow> unat num < unat base ^ str \<Longrightarrow>
    holds (itob_loop num base str buffer)
      (\<lambda>(p, buffer'). p < str \<and> length buffer' = length buffer \<and>
         drop p buffer' = numeral_of (unat base) (unat num) @ drop str buffer)"
proof (induction str arbitrary: num buffer)
  case 0
  then show ?case by simp
next
  case (Suc str)
  let ?b = "unat base" and ?n = "unat num"
  have base: "base \<noteq> 0" using assms(1) by auto
  have digit: "fetch hold (num mod base) = Inr (digit_char (?n mod ?b))"
    using assms by (subst fetch_hold) (simp_all add: unat_mod less_le_trans [OF mod_less_divisor])
  let ?buffer = "buffer[str := digit_char (?n mod ?b)]"
  have drop: "drop str ?buffer = digit_char (?n mod ?b) # drop (Suc str) buffer"
    using Suc.prems(2) by (simp add: Cons_nth_drop_Suc [symmetric])
  show ?case
  proof (cases "num div base = 0")
    case True
    then have "?n < ?b" using assms(1) by (metis div_eq_0_iff not_numeral_le_zero unat_0 unat_div)
    then show ?thesis
      using base digit True drop Suc.prems(2) by (simp add: wp numeral_of_small)
  next
    case False
    then have le: "?b \<le> ?n"
      by (metis div_less linorder_not_less unat_div unat_eq_zero)
    have "unat (num div base) < ?b ^ str"
      using Suc.prems(3) by (simp add: unat_div less_mult_imp_div_less mult.commute)
    moreover from this False have "0 < str"
      by (metis less_one neq0_conv power_0 unat_eq_zero)
    ultimately have "holds (itob_loop (num div base) base str ?buffer)
      (\<lambda>(p, buffer'). p < str \<and> length buffer' = length ?buffer \<and>
         drop p buffer' = numeral_of ?b (unat (num div base)) @ drop str ?buffer)"
      using Suc.prems(2) by (intro Suc.IH) simp_all
    then show ?thesis
      using base digit False drop assms(1) le
      by (simp add: wp unat_div numeral_of_step) (erule holds_mono, auto)
  qed
qed

lemma drop_update_last: "length xs = Suc n \<Longrightarrow> drop n (xs[n := x]) = [x]"
  by (cases xs rule: rev_cases) auto

lemma length_numeral_of: "2 \<le> b \<Longrightarrow> 0 < k \<Longrightarrow> n < b ^ k \<Longrightarrow> length (numeral_of b n) \<le> k"
proof (induction k arbitrary: n)
  case (Suc k)
  show ?case
  proof (cases "n < b")
    case False
    then have "0 < k" using Suc.prems by (cases k) auto
    moreover have "n div b < b ^ k" using Suc.prems by (simp add: less_mult_imp_div_less mult.commute)
    ultimately show ?thesis using Suc False by (simp add: numeral_of_step)
  qed (simp add: numeral_of_small)
qed simp

lemma digit_char_not_NUL: "d < 16 \<Longrightarrow> digit_char d \<noteq> NUL"
proof -
  assume "d < 16"
  then have "digit_char d \<in> set ''0123456789ABCDEF''"
    unfolding digit_char_def by (rule_tac nth_mem) simp
  then show ?thesis by auto
qed

lemma no_nul_numeral_of: "2 \<le> b \<Longrightarrow> b \<le> 16 \<Longrightarrow> no_nul (numeral_of b n)"
proof (induction b n rule: numeral_of.induct)
  case (1 b n)
  then show ?case
    by (simp add: numeral_of.simps [of b n] digit_char_not_NUL less_le_trans [OF mod_less_divisor])
qed

lemma itob_holds:
  assumes "3 \<le> unat base" and "unat base \<le> 16" and "length buffer = 50"
  shows "holds (itob num base buffer)
    (\<lambda>(p, buffer'). length buffer' = 50 \<and>
       drop p buffer' = cstr (numeral_of (unat base) (unat num)))"
proof -
  have b: "scast base = (ucast base :: u64)" using assms(2) by (intro scast_nonneg) simp
  have "unat num < 2 ^ 64" using unsigned_less [of num] by simp
  also have "\<dots> \<le> 3 ^ 49" by simp
  also have "\<dots> \<le> unat base ^ 49" using assms(1) by (rule power_mono) simp
  finally have "unat num < unat base ^ 49" .
  then have "holds (itob_loop num (ucast base) 49 (buffer[49 := NUL]))
      (\<lambda>(p, buffer'). p < 49 \<and> length buffer' = length (buffer[49 := NUL]) \<and>
         drop p buffer' = numeral_of (unat (ucast base :: u64)) (unat num) @ drop 49 (buffer[49 := NUL]))"
    using assms by (intro itob_loop_holds) (simp_all add: unat_ucast_up)
  then show ?thesis
    using assms by (simp add: itob_def wp b unat_ucast_up) (erule holds_mono, auto simp: cstr_def drop_update_last)
qed

text \<open>
  C40: in every base from 3 to 16, \<open>itob\<close> renders every 64-bit number without leaving its
  50-byte buffer: from the returned position the buffer holds the numeral and its NUL.
\<close>

theorem itob_correct:
  assumes "3 \<le> unat base" and "unat base \<le> 16" and "length buffer = 50"
  shows "\<exists>p buffer'. itob num base buffer = Inr (p, buffer') \<and> length buffer' = 50 \<and>
    drop p buffer' = cstr (numeral_of (unat base) (unat num))"
  using itob_holds [OF assms, of num] by (auto elim!: holdsE)

theorem itob_correct_witness:
  "\<exists>p buffer'. itob 255 16 (replicate 50 NUL) = Inr (p, buffer') \<and> drop p buffer' = cstr ''FF''"
proof -
  have "numeral_of 16 255 = ''FF''" by (simp add: numeral_of.simps digit_char_def)
  then show ?thesis using itob_correct [of 16 "replicate 50 NUL" 255] by auto
qed

end
