(* ===== verification/Spin_Lock.thy ===== *)
theory Spin_Lock
  imports Kernel_Prelude
begin

text \<open>
  \<open>spinLock\<close> and \<open>spinRelease\<close> of \<^verbatim>\<open>kernel/sched/scheduler.c\<close>, the lock of the
  page allocator, the scheduler, the system calls, the disk driver and the output
  routines. First the function as one core runs it when no other core touches the lock
  (the sequential model the components use), then any number of cores as a step relation:
  mutual exclusion, and the theorem that justifies the sequential model, namely that a
  locked section takes effect at once.
\<close>

section \<open>The functions\<close>

text \<open>\<open>__atomic_test_and_set\<close>: the old value is returned and the flag is set.\<close>

definition test_and_set :: "bool \<Rightarrow> bool \<times> bool" where
  "test_and_set ptr = (ptr, True)"

definition deadLockLimit :: u64 where
  "deadLockLimit = 100000000"

text \<open>\<open>while (test_and_set(ptr)) if (++deadLockCnt == 100000000) int $0x15\<close>. The handler of
  interrupt 0x15 prints the exception and stops (\<open>for (;;)\<close>), so the trap is a fault.\<close>

function spin_wait :: "u64 \<Rightarrow> bool \<Rightarrow> bool result" where
  "spin_wait deadLockCnt ptr =
     (let (old, new) = test_and_set ptr in
      if old
      then (if deadLockCnt + 1 = deadLockLimit then Inl Deadlock
            else spin_wait (deadLockCnt + 1) new)
      else Inr new)"
  by pat_completeness auto

lemma unat_pred_less: "x \<noteq> 0 \<Longrightarrow> unat (x - 1) < unat x" for x :: u64
  by (simp add: unat_minus_one unat_gt_0)

lemma spin_wait_measure:
  assumes "deadLockCnt + 1 \<noteq> deadLockLimit"
  shows "unat (deadLockLimit - 1 - (deadLockCnt + 1)) < unat (deadLockLimit - 1 - deadLockCnt)"
proof -
  have "deadLockLimit - 1 - deadLockCnt \<noteq> 0" using assms by auto
  from unat_pred_less [OF this] show ?thesis by simp
qed

termination spin_wait
  by (relation "measure (\<lambda>(deadLockCnt, ptr). unat (deadLockLimit - 1 - deadLockCnt))")
     (simp_all only: wf_measure in_measure split_conv spin_wait_measure not_False_eq_True)

declare spin_wait.simps [simp del]

definition spinLock :: "bool \<Rightarrow> bool result" where
  "spinLock ptr = spin_wait 0 ptr"

definition spinRelease :: "bool \<Rightarrow> bool" where
  "spinRelease ptr = False"

lemma spin_wait_free [simp]: "spin_wait n False = Inr True"
  by (simp add: spin_wait.simps [of n] test_and_set_def)

lemma spin_wait_held [simp]: "spin_wait n True = Inl Deadlock"
proof (induction "unat (deadLockLimit - 1 - n)" arbitrary: n rule: less_induct)
  case less
  then show ?case
    using spin_wait_measure [of n] by (auto simp: spin_wait.simps [of n] test_and_set_def)
qed

lemma spinLock_simps [simp]:
  "spinLock False = Inr True"
  "spinLock True = Inl Deadlock"
  by (simp_all add: spinLock_def)

lemma holds_spinLock [wp]: "holds (spinLock ptr) P \<longleftrightarrow> \<not> ptr \<and> P True"
  by (cases ptr) simp_all

lemma spinRelease_simps [simp]: "spinRelease ptr = False"
  by (simp add: spinRelease_def)

section \<open>Many cores\<close>

text \<open>
  A core is outside, in the loop of \<open>spinLock\<close> with its private counter, inside the
  locked section, or stopped in the handler of the trap. \<open>shared\<close> is the data the lock
  protects, \<open>entered\<close> its value when the running section began.
\<close>

datatype core_pc = Outside | Spinning u64 | Inside | Trapped

record 's machine =
  lock :: bool
  pcs :: "nat \<Rightarrow> core_pc"
  shared :: 's
  entered :: 's

definition boot :: "'s \<Rightarrow> 's machine" where
  "boot s = \<lparr>lock = False, pcs = (\<lambda>_. Outside), shared = s, entered = s\<rparr>"

text \<open>\<open>micro\<close>: what one access inside a section may do to the data; \<open>section\<close>: the
  relation between the data at entry and at exit of a whole section.\<close>

inductive lock_step ::
  "('s \<Rightarrow> 's \<Rightarrow> bool) \<Rightarrow> ('s \<Rightarrow> 's \<Rightarrow> bool) \<Rightarrow> 's machine \<Rightarrow> 's machine \<Rightarrow> bool"
  for micro :: "'s \<Rightarrow> 's \<Rightarrow> bool" and whole :: "'s \<Rightarrow> 's \<Rightarrow> bool" where
  request: "pcs m i = Outside \<Longrightarrow>
    lock_step micro whole m (m\<lparr>pcs := (pcs m)(i := Spinning 0)\<rparr>)"
| acquire: "pcs m i = Spinning n \<Longrightarrow> test_and_set (lock m) = (False, l) \<Longrightarrow>
    lock_step micro whole m
      (m\<lparr>lock := l, pcs := (pcs m)(i := Inside), entered := shared m\<rparr>)"
| busy: "pcs m i = Spinning n \<Longrightarrow> test_and_set (lock m) = (True, l) \<Longrightarrow>
    n + 1 \<noteq> deadLockLimit \<Longrightarrow>
    lock_step micro whole m (m\<lparr>lock := l, pcs := (pcs m)(i := Spinning (n + 1))\<rparr>)"
| trap: "pcs m i = Spinning n \<Longrightarrow> test_and_set (lock m) = (True, l) \<Longrightarrow>
    n + 1 = deadLockLimit \<Longrightarrow>
    lock_step micro whole m (m\<lparr>lock := l, pcs := (pcs m)(i := Trapped)\<rparr>)"
| work: "pcs m i = Inside \<Longrightarrow> micro (shared m) s \<Longrightarrow>
    lock_step micro whole m (m\<lparr>shared := s\<rparr>)"
| leave: "pcs m i = Inside \<Longrightarrow> whole (entered m) (shared m) \<Longrightarrow>
    lock_step micro whole m
      (m\<lparr>lock := spinRelease (lock m), pcs := (pcs m)(i := Outside)\<rparr>)"

inductive reachable ::
  "('s \<Rightarrow> 's \<Rightarrow> bool) \<Rightarrow> ('s \<Rightarrow> 's \<Rightarrow> bool) \<Rightarrow> 's \<Rightarrow> 's machine \<Rightarrow> bool"
  for micro :: "'s \<Rightarrow> 's \<Rightarrow> bool" and whole :: "'s \<Rightarrow> 's \<Rightarrow> bool" and s0 :: 's where
  start: "reachable micro whole s0 (boot s0)"
| step: "reachable micro whole s0 m \<Longrightarrow> lock_step micro whole m m' \<Longrightarrow>
    reachable micro whole s0 m'"

inductive_cases lock_stepE: "lock_step micro whole m m'"

text \<open>The lock bit and the program counters agree; this is what every step keeps.\<close>

definition lock_inv :: "'s machine \<Rightarrow> bool" where
  "lock_inv m \<longleftrightarrow>
     (\<forall>i j. pcs m i = Inside \<longrightarrow> pcs m j = Inside \<longrightarrow> i = j) \<and>
     (lock m \<longleftrightarrow> (\<exists>i. pcs m i = Inside))"

lemma lock_step_inv: "lock_step micro whole m m' \<Longrightarrow> lock_inv m \<Longrightarrow> lock_inv m'"
  by (induction rule: lock_step.induct)
     (force simp: lock_inv_def test_and_set_def split: if_splits)+

lemma lock_inv_boot: "lock_inv (boot s)"
  by (simp add: lock_inv_def boot_def)

lemma reachable_lock_inv: "reachable micro whole s0 m \<Longrightarrow> lock_inv m"
  by (induction rule: reachable.induct) (auto simp: lock_inv_boot intro: lock_step_inv)

text \<open>
  C13: however many cores call \<open>spinLock\<close> and \<open>spinRelease\<close> around their sections, at no
  reachable state are two of them inside, and the lock byte is set exactly while one is.
\<close>

theorem spinLock_mutual_exclusion:
  assumes "reachable micro whole s0 m"
  shows "(pcs m i = Inside \<and> pcs m j = Inside \<longrightarrow> i = j) \<and>
    (lock m \<longleftrightarrow> (\<exists>k. pcs m k = Inside))"
  using reachable_lock_inv [OF assms] by (auto simp: lock_inv_def)

theorem spinLock_mutual_exclusion_witness:
  "let m = (boot (0 :: nat))\<lparr>pcs := (\<lambda>_. Outside)(1 := Spinning 0)\<rparr>;
       m' = m\<lparr>lock := True, pcs := (pcs m)(1 := Inside), entered := shared m\<rparr>
   in reachable (\<lambda>_ _. True) (\<lambda>_ _. True) 0 m' \<and> pcs m' 1 = Inside \<and> lock m' \<and>
      (pcs m' 1 = Inside \<and> pcs m' 2 = Inside \<longrightarrow> (1 :: nat) = 2)"
proof -
  let ?m = "(boot (0 :: nat))\<lparr>pcs := (\<lambda>_. Outside)(1 := Spinning 0)\<rparr>"
  let ?m' = "?m\<lparr>lock := True, pcs := (pcs ?m)(1 := Inside), entered := shared ?m\<rparr>"
  have "reachable (\<lambda>_ _. True) (\<lambda>_ _. True) 0 ?m"
    using reachable.step [OF reachable.start lock_step.request [of "boot (0 :: nat)" 1]]
    by (simp add: boot_def)
  moreover have "lock_step (\<lambda>_ _. True) (\<lambda>_ _. True) ?m ?m'"
    by (rule lock_step.acquire [of _ 1 0]) (simp_all add: boot_def test_and_set_def)
  ultimately have r: "reachable (\<lambda>_ _. True) (\<lambda>_ _. True) 0 ?m'" by (rule reachable.step)
  then show ?thesis using spinLock_mutual_exclusion [OF r, of 1 2] by (simp add: Let_def)
qed

text \<open>The sections take effect one after the other: the data seen at the entry of the running
  section, or now if none runs, is the result of a sequence of whole sections.\<close>

lemma lock_step_whole:
  assumes "lock_step micro whole m m'" and "lock_inv m"
    and "if lock m then rtranclp whole s0 (entered m) else rtranclp whole s0 (shared m)"
  shows "if lock m' then rtranclp whole s0 (entered m') else rtranclp whole s0 (shared m')"
  using assms
proof (induction rule: lock_step.induct)
  case (work m i s)
  then have "lock m" by (auto simp: lock_inv_def)
  with work show ?case by simp
next
  case (leave m i)
  then have "lock m" by (auto simp: lock_inv_def)
  with leave show ?case by (simp add: rtranclp.rtrancl_into_rtrancl)
qed (auto simp: test_and_set_def)

lemma reachable_whole:
  "reachable micro whole s0 m \<Longrightarrow>
   if lock m then rtranclp whole s0 (entered m) else rtranclp whole s0 (shared m)"
proof (induction rule: reachable.induct)
  case start
  show ?case by (simp add: boot_def)
next
  case (step m m')
  from step.hyps(2) reachable_lock_inv [OF step.hyps(1)] step.IH
  show ?case by (rule lock_step_whole)
qed

text \<open>A property of the data that every whole section keeps holds whenever the lock is
  free, and held at the entry of the section that runs.\<close>

lemma reachable_section_invariant:
  assumes "reachable micro whole s0 m" and "P s0" and "\<And>s s'. P s \<Longrightarrow> whole s s' \<Longrightarrow> P s'"
  shows "if lock m then P (entered m) else P (shared m)"
proof -
  have "P s" if "rtranclp whole s0 s" for s
    using that by (induction rule: rtranclp_induct) (use assms(2,3) in auto)
  then show ?thesis using reachable_whole [OF assms(1)] by (auto split: if_splits)
qed

text \<open>A spinning core has made fewer failed attempts than the limit, so the trap comes with
  the attempt number 100000000 and not before.\<close>

definition spin_bounded :: "'s machine \<Rightarrow> bool" where
  "spin_bounded m \<longleftrightarrow> (\<forall>i n. pcs m i = Spinning n \<longrightarrow> n < deadLockLimit)"

lemma less_plus_1: "n < l \<Longrightarrow> n + 1 \<noteq> l \<Longrightarrow> n + 1 < l" for n l :: u64
  using plus_1_le [of n l] by simp

lemma lock_step_spin_bounded:
  "lock_step micro whole m m' \<Longrightarrow> spin_bounded m \<Longrightarrow> spin_bounded m'"
  by (induction rule: lock_step.induct)
     (auto simp: spin_bounded_def deadLockLimit_def intro: less_plus_1)

lemma spin_bounded_boot: "spin_bounded (boot s)"
  by (simp add: spin_bounded_def boot_def)

lemma reachable_spin_bounded: "reachable micro whole s0 m \<Longrightarrow> spin_bounded m"
  by (induction rule: reachable.induct)
     (auto simp: spin_bounded_boot intro: lock_step_spin_bounded)

end
