(* ===== verification/Console.thy ===== *)
theory Console
  imports K_String Spin_Lock
begin

text \<open>
  The debug console: \<open>serialWrite\<close> of \<^verbatim>\<open>lib/libk/asmUtils.c\<close> and \<open>kprintDS\<close> of
  \<^verbatim>\<open>lib/libk/output.c\<close>, with the format loop that \<open>kprintDS\<close>, \<open>kprintVS\<close> and the
  userspace \<open>printf\<close> repeat (\<open>format_out\<close>, over the routine that puts one character).
  \<open>console_state\<close> is the root of the record of the kernel's globals: every component
  extends it, so a function of one component runs on the state of all.
  \<open>kprintDS_renders\<close> says what is printed; \<open>char_device\<close> is the contract of a routine that
  puts a character, in which the format loop is proved once.
\<close>

record console_state =
  serial :: string
  itobBuffer :: string
  kprintDSLock :: bool

text \<open>The line status register is polled until the transmitter is empty; the device is
  taken to accept the byte in the end.\<close>

definition serialWrite :: "char \<Rightarrow> 'a console_state_scheme \<Rightarrow> 'a console_state_scheme" where
  "serialWrite data s = s\<lparr>serial := serial s @ [data]\<rparr>"

fun emit_all :: "(char \<Rightarrow> 's \<Rightarrow> 's result) \<Rightarrow> string \<Rightarrow> 's \<Rightarrow> 's result" where
  "emit_all emit [] s = Inr s"
| "emit_all emit (c # cs) s = and_then (emit c s) (emit_all emit cs)"

text \<open>\<open>for (i = 0; i < strlen(string); i++) emit(string[i])\<close>\<close>

definition put_string :: "(char \<Rightarrow> 's \<Rightarrow> 's result) \<Rightarrow> string \<Rightarrow> 's \<Rightarrow> 's result" where
  "put_string emit str s =
     and_then (strlen str) (\<lambda>n. emit_all emit (take (unat n) str) s)"

section \<open>The prefix table\<close>

definition escape :: "string \<Rightarrow> string" where
  "escape code = CHR 0x1B # CHR ''['' # code @ ''m''"

definition bashColours :: "string list" where
  "bashColours = map escape
     [''39'', ''30'', ''31'', ''32'', ''33'', ''34'', ''35'', ''36'', ''37'', ''90'', ''91'',
      ''92'', ''93'', ''94'', ''95'', ''96'', ''97'']"

record prefixList_t =
  prefix :: string
  prefixColour :: nat
  textColour :: nat

text \<open>The colours are positions in \<open>bashColours\<close>: DEFAULT 0, BLACK 1, RED 2, GREEN 3,
  YELLOW 4, BLUE 5, MAGENTA 6, CYAN 7, LIGHTGRAY 8, RIGHTGRAY 9, LIGHTRED 10, LIGHTGREEN 11,
  LIGHTYELLOW 12, LIGHTBLUE 13, LIGHTMAGENTA 14, LIGHTCYAN 15, WHITE 16.\<close>

definition prefixList :: "prefixList_t list" where
  "prefixList =
     [\<lparr>prefix = ''[KDEBUG]'', prefixColour = 3, textColour = 4\<rparr>,
      \<lparr>prefix = ''[KMM]'', prefixColour = 3, textColour = 10\<rparr>,
      \<lparr>prefix = ''[ACPI]'', prefixColour = 6, textColour = 7\<rparr>,
      \<lparr>prefix = ''[APIC]'', prefixColour = 2, textColour = 3\<rparr>,
      \<lparr>prefix = ''[SMP]'', prefixColour = 4, textColour = 13\<rparr>,
      \<lparr>prefix = ''[PCI]'', prefixColour = 5, textColour = 11\<rparr>,
      \<lparr>prefix = ''[AHCI]'', prefixColour = 10, textColour = 12\<rparr>,
      \<lparr>prefix = ''[FS]'', prefixColour = 2, textColour = 11\<rparr>,
      \<lparr>prefix = ''[NET]'', prefixColour = 3, textColour = 4\<rparr>]"

definition serial_emit :: "char \<Rightarrow> 'a console_state_scheme \<Rightarrow> 'a console_state_scheme result" where
  "serial_emit c s = Inr (serialWrite c s)"

definition serialWriteString :: "string \<Rightarrow> 'a console_state_scheme \<Rightarrow> 'a console_state_scheme result" where
  "serialWriteString str s = put_string serial_emit str s"

text \<open>The prefix loop of \<open>kprintDS\<close>: the first entry with this prefix prints it in its
  colours; at the last entry without a match the colour is reset.\<close>

definition print_prefix :: "string \<Rightarrow> 'a console_state_scheme \<Rightarrow> 'a console_state_scheme result" where
  "print_prefix pre s =
     and_then
       (for_u64 (\<lambda>i s.
          and_then (fetch prefixList i) (\<lambda>p.
          and_then (strcmp (cstr (prefix p)) pre) (\<lambda>d.
            if d = 0 then
              and_then (serialWriteString (cstr (bashColours ! prefixColour p)) s) (\<lambda>s.
              and_then (serialWriteString pre s) (\<lambda>s.
              and_then (serialWriteString (cstr (bashColours ! textColour p)) s) (\<lambda>s.
                Inr (Exit (serialWrite CHR '' '' s)))))
            else if i = of_nat (length prefixList) - 1 then
              and_then (serialWriteString (cstr (bashColours ! 0)) s) (\<lambda>s. Inr (Next s))
            else Inr (Next s))))
          0 (of_nat (length prefixList)) s)
       (\<lambda>f. case f of Exit s' \<Rightarrow> Inr s' | Next s' \<Rightarrow> Inr s')"

section \<open>The format loop\<close>

text \<open>A variable argument: a \<open>long\<close> or \<open>uint64_t\<close>, a string pointer, or a value that
  was promoted to \<open>int\<close>. Reading an \<open>int\<close> argument as a \<open>long\<close> gives the zero-extended
  register the caller loaded.\<close>

datatype va_value = VaLong u64 | VaStr string | VaInt u32

fun va_long :: "va_value list \<Rightarrow> (u64 \<times> va_value list) result" where
  "va_long (VaLong w # args) = Inr (w, args)"
| "va_long (VaInt w # args) = Inr (ucast w, args)"
| "va_long args = Inl BadArgument"

fun va_str :: "va_value list \<Rightarrow> (string \<times> va_value list) result" where
  "va_str (VaStr t # args) = Inr (t, args)"
| "va_str args = Inl BadArgument"

fun va_int :: "va_value list \<Rightarrow> (u32 \<times> va_value list) result" where
  "va_int (VaInt w # args) = Inr (w, args)"
| "va_int (VaLong w # args) = Inr (ucast w, args)"
| "va_int args = Inl BadArgument"

text \<open>\<open>string = itob(num, base)\<close>: the characters from the returned pointer on, in the
  static buffer.\<close>

definition itob_string ::
  "u64 \<Rightarrow> u32 \<Rightarrow> 'a console_state_scheme \<Rightarrow> (string \<times> 'a console_state_scheme) result"
where
  "itob_string num base s =
     and_then (itob num base (itobBuffer s)) (\<lambda>(p, buffer).
       Inr (drop p buffer, s\<lparr>itobBuffer := buffer\<rparr>))"

definition directive ::
  "(char \<Rightarrow> 'a console_state_scheme \<Rightarrow> 'a console_state_scheme result) \<Rightarrow> char \<Rightarrow>
   va_value list \<Rightarrow> 'a console_state_scheme \<Rightarrow>
   (va_value list \<times> 'a console_state_scheme) result"
where
  "directive emit c args s =
     (if c = CHR ''d'' then
        and_then (va_long args) (\<lambda>(num, args').
        and_then (itob_string num 10 s) (\<lambda>(str, s).
        and_then (put_string emit str s) (\<lambda>s. Inr (args', s))))
      else if c = CHR ''s'' then
        and_then (va_str args) (\<lambda>(str, args').
        and_then (put_string emit str s) (\<lambda>s. Inr (args', s)))
      else if c = CHR ''c'' then
        and_then (va_int args) (\<lambda>(character, args').
        and_then (emit (char_of (unat character)) s) (\<lambda>s. Inr (args', s)))
      else if c = CHR ''x'' then
        and_then (va_long args) (\<lambda>(num, args').
        and_then (itob_string num 16 s) (\<lambda>(str, s).
        and_then (put_string emit str s) (\<lambda>s. Inr (args', s))))
      else if c = CHR ''a'' then
        and_then (va_long args) (\<lambda>(num, args').
        and_then (itob_string num 16 s) (\<lambda>(str, s).
        and_then (strlen str) (\<lambda>n.
        let offset_zeros = sint (ucast (16 - n) :: u32) in
        and_then (emit_all emit (replicate (nat offset_zeros) CHR ''0'') s) (\<lambda>s.
        and_then (put_string emit str s) (\<lambda>s. Inr (args', s))))))
      else Inr (args, s))"

text \<open>\<open>for (i = 0; i < strlen(str); i++)\<close>: the recursion is on the characters not yet
  read; after a percent sign the next one is the directive (none at the end of the string,
  where \<open>str[i]\<close> is the NUL).\<close>

fun format_out ::
  "(char \<Rightarrow> 'a console_state_scheme \<Rightarrow> 'a console_state_scheme result) \<Rightarrow> string \<Rightarrow>
   va_value list \<Rightarrow> 'a console_state_scheme \<Rightarrow> 'a console_state_scheme result"
where
  "format_out emit [] args s = Inr s"
| "format_out emit [c] args s = (if c \<noteq> CHR ''%'' then emit c s else Inr s)"
| "format_out emit (c # d # str) args s =
     (if c \<noteq> CHR ''%'' then and_then (emit c s) (format_out emit (d # str) args)
      else and_then (directive emit d args s) (\<lambda>(args', s'). format_out emit str args' s'))"

definition kprintDS ::
  "string \<Rightarrow> string \<Rightarrow> va_value list \<Rightarrow> 'a console_state_scheme \<Rightarrow> 'a console_state_scheme result"
where
  "kprintDS pre str args s =
     and_then (spinLock (kprintDSLock s)) (\<lambda>l.
     and_then (print_prefix pre (s\<lparr>kprintDSLock := l\<rparr>)) (\<lambda>s.
     and_then (strlen str) (\<lambda>n.
     and_then (format_out serial_emit (take (unat n) str) args s) (\<lambda>s.
       let s' = serialWrite CHR 0x0A s in
       Inr (s'\<lparr>kprintDSLock := spinRelease (kprintDSLock s')\<rparr>)))))"

section \<open>What is printed\<close>

text \<open>The reference for the format loop, on arguments of the types the format asks for.\<close>

fun render_directive :: "char \<Rightarrow> va_value list \<Rightarrow> (string \<times> va_value list) option" where
  "render_directive c (VaLong w # args) =
     (if c = CHR ''d'' then Some (numeral_of 10 (unat w), args)
      else if c = CHR ''x'' then Some (numeral_of 16 (unat w), args)
      else if c = CHR ''a'' then
        (let h = numeral_of 16 (unat w) in
         Some (replicate (16 - length h) CHR ''0'' @ h, args))
      else if c = CHR ''s'' \<or> c = CHR ''c'' then None
      else Some ([], VaLong w # args))"
| "render_directive c (VaStr t # args) =
     (if c = CHR ''s'' then
        (if NUL \<in> set t \<and> length t < 2 ^ 64 then Some (cchars t, args) else None)
      else if c = CHR ''d'' \<or> c = CHR ''x'' \<or> c = CHR ''a'' \<or> c = CHR ''c'' then None
      else Some ([], VaStr t # args))"
| "render_directive c (VaInt w # args) =
     (if c = CHR ''c'' then Some ([char_of (unat w)], args)
      else if c = CHR ''d'' then Some (numeral_of 10 (unat w), args)
      else if c = CHR ''x'' then Some (numeral_of 16 (unat w), args)
      else if c = CHR ''s'' \<or> c = CHR ''a'' then None
      else Some ([], VaInt w # args))"
| "render_directive c [] =
     (if c \<in> {CHR ''d'', CHR ''s'', CHR ''c'', CHR ''x'', CHR ''a''} then None
      else Some ([], []))"

fun render :: "string \<Rightarrow> va_value list \<Rightarrow> string option" where
  "render [] args = Some []"
| "render [c] args = Some (if c \<noteq> CHR ''%'' then [c] else [])"
| "render (c # d # str) args =
     (if c \<noteq> CHR ''%'' then map_option ((#) c) (render (d # str) args)
      else (case render_directive d args of
              None \<Rightarrow> None
            | Some (out, args') \<Rightarrow> map_option ((@) out) (render str args')))"

lemma nat_sint_small:
  assumes "k \<le> 16"
  shows "nat (sint (ucast (of_nat k :: u64) :: u32)) = k"
proof -
  have "unat (ucast (of_nat k :: u64) :: u32) = k"
    using assms by (simp add: unsigned_ucast_eq unat_of_nat_small take_bit_nat_eq_self)
  moreover from this have "sint (ucast (of_nat k :: u64) :: u32) = uint (ucast (of_nat k :: u64) :: u32)"
    using assms by (intro sint_nonneg) simp
  ultimately show ?thesis by (simp only: nat_uint_eq)
qed

lemma pad_width: "m \<le> 16 \<Longrightarrow> nat (sint (ucast (16 - of_nat m :: u64) :: u32)) = 16 - m"
  using nat_sint_small [of "16 - m"] by (simp add: of_nat_diff)

text \<open>What a print changes: every character has its effect on the device, and the static
  buffer of \<open>itob\<close> holds something else.\<close>

definition shown ::
  "(char \<Rightarrow> 'a console_state_scheme \<Rightarrow> 'a console_state_scheme) \<Rightarrow> string \<Rightarrow>
   'a console_state_scheme \<Rightarrow> 'a console_state_scheme \<Rightarrow> bool"
where
  "shown effect out s s' \<longleftrightarrow> (\<exists>b. length b = 50 \<and> s' = (fold effect out s)\<lparr>itobBuffer := b\<rparr>)"

definition printed ::
  "string \<Rightarrow> 'a console_state_scheme \<Rightarrow> 'a console_state_scheme \<Rightarrow> bool"
where
  "printed out s s' \<longleftrightarrow>
     (\<exists>b. length b = 50 \<and> s' = s\<lparr>serial := serial s @ out, itobBuffer := b\<rparr>)"

lemma serial_itobBuffer_swap [simp]:
  "s\<lparr>itobBuffer := b, serial := t\<rparr> = s\<lparr>serial := t, itobBuffer := b\<rparr>"
  by (cases s) simp

lemma fold_serialWrite [simp]: "fold serialWrite t s = s\<lparr>serial := serial s @ t\<rparr>"
  by (induction t arbitrary: s) (simp_all add: serialWrite_def)

lemma shown_serial: "shown serialWrite = printed"
  by (intro ext) (simp add: shown_def printed_def)

lemma printed_nil [simp]: "length (itobBuffer s) = 50 \<Longrightarrow> printed [] s s"
  by (auto simp: printed_def intro!: exI [of _ "itobBuffer s"])

lemma printed_trans: "printed t s s' \<Longrightarrow> printed u s' s'' \<Longrightarrow> printed (t @ u) s s''"
  by (auto simp: printed_def)

lemma printed_length: "printed t s s' \<Longrightarrow> length (itobBuffer s') = 50"
  by (auto simp: printed_def)

lemma shown_length: "shown effect t s s' \<Longrightarrow> length (itobBuffer s') = 50"
  by (auto simp: shown_def)

text \<open>The contract of a routine that puts one character: on a device that is \<open>ready\<close> and a
  character it can show (\<open>ok\<close>) it returns, has its \<open>effect\<close> and leaves the device ready; it
  neither reads nor writes the buffer of \<open>itob\<close>.\<close>

locale char_device =
  fixes emit :: "char \<Rightarrow> 'a console_state_scheme \<Rightarrow> 'a console_state_scheme result"
    and effect :: "char \<Rightarrow> 'a console_state_scheme \<Rightarrow> 'a console_state_scheme"
    and ok :: "char \<Rightarrow> bool"
    and ready :: "'a console_state_scheme \<Rightarrow> bool"
  assumes emit: "ready s \<Longrightarrow> ok c \<Longrightarrow> emit c s = Inr (effect c s)"
    and ready_effect: "ready s \<Longrightarrow> ok c \<Longrightarrow> ready (effect c s)"
    and ready_buffer: "ready (s\<lparr>itobBuffer := b\<rparr>) = ready s"
    and effect_buffer: "ok c \<Longrightarrow> effect c (s\<lparr>itobBuffer := b\<rparr>) = (effect c s)\<lparr>itobBuffer := b\<rparr>"
begin

lemma emit_all:
  "ready s \<Longrightarrow> list_all ok cs \<Longrightarrow>
   emit_all emit cs s = Inr (fold effect cs s) \<and> ready (fold effect cs s)"
  by (induction cs arbitrary: s) (simp_all add: emit ready_effect)

lemma buffer_effect:
  assumes "ok c"
  shows "itobBuffer (effect c s) = itobBuffer s"
  using arg_cong [OF effect_buffer [OF assms, where s = s and b = "itobBuffer s"], of itobBuffer]
  by simp

lemma fold_buffer:
  "list_all ok cs \<Longrightarrow> fold effect cs (s\<lparr>itobBuffer := b\<rparr>) = (fold effect cs s)\<lparr>itobBuffer := b\<rparr>"
  by (induction cs arbitrary: s) (simp_all add: effect_buffer)

lemma shown_fold:
  assumes "length (itobBuffer s) = 50" and "list_all ok t"
  shows "shown effect t s (fold effect t s)"
  using assms fold_buffer [OF assms(2), where s = s and b = "itobBuffer s"] unfolding shown_def by auto

lemma shown_nil: "length (itobBuffer s) = 50 \<Longrightarrow> shown effect [] s s"
  using shown_fold [of _ "[]"] by simp

lemma shown_trans:
  "shown effect t s s' \<Longrightarrow> shown effect u s' s'' \<Longrightarrow> list_all ok u \<Longrightarrow> shown effect (t @ u) s s''"
  by (auto simp: shown_def fold_buffer)

lemma shown_cons: "shown effect t (effect c s) s' \<Longrightarrow> shown effect (c # t) s s'"
  by (simp add: shown_def)

lemma shown_ready: "shown effect t s s' \<Longrightarrow> ready s \<Longrightarrow> list_all ok t \<Longrightarrow> ready s'"
  by (auto simp: shown_def ready_buffer emit_all)

lemma put_string:
  assumes "ready s" and "NUL \<in> set t" and "length t \<le> 2 ^ 64" and "list_all ok (cchars t)"
  shows "put_string emit t s = Inr (fold effect (cchars t) s)"
  using assms length_cchars [OF assms(2)]
  by (simp add: put_string_def strlen_eq emit_all unat_of_nat_small take_cchars)

lemma put_cstr:
  assumes "ready s" and "no_nul t" and "length t < 2 ^ 64" and "list_all ok t"
  shows "put_string emit (cstr t) s = Inr (fold effect t s)"
  using assms by (simp add: put_string length_cstr)

lemma itob_string:
  assumes "length (itobBuffer s) = 50" and "base = 10 \<or> base = 16"
  shows "\<exists>b. itob_string num base s =
      Inr (cstr (numeral_of (unat base) (unat num)), s\<lparr>itobBuffer := b\<rparr>) \<and> length b = 50 \<and>
      no_nul (numeral_of (unat base) (unat num)) \<and> length (numeral_of (unat base) (unat num)) < 50"
proof -
  have "3 \<le> unat base" "unat base \<le> 16" using assms(2) by auto
  from itob_holds [OF this assms(1), of num] obtain p b where
    pb: "itob num base (itobBuffer s) = Inr (p, b)" "length b = 50"
      "drop p b = cstr (numeral_of (unat base) (unat num))"
    by (auto elim: holdsE)
  have "length (cstr (numeral_of (unat base) (unat num))) \<le> 50"
    using pb(2) by (simp flip: pb(3))
  then show ?thesis
    using pb \<open>3 \<le> unat base\<close> \<open>unat base \<le> 16\<close>
    by (auto simp: itob_string_def length_cstr no_nul_numeral_of)
qed

lemma directive_number:
  assumes "ready s" and "length (itobBuffer s) = 50" and "base = 10 \<or> base = 16"
    and "list_all ok (numeral_of (unat base) (unat num))"
  shows "holds (and_then (itob_string num base s) (\<lambda>(str, s).
           and_then (put_string emit str s) (\<lambda>s. Inr (args, s))))
    (\<lambda>(args', s'). args' = args \<and> shown effect (numeral_of (unat base) (unat num)) s s')"
  using itob_string [OF assms(2,3), of num] assms(1,4)
  by (auto simp: put_cstr ready_buffer shown_def fold_buffer)

lemma directive_padded:
  assumes "ready s" and "length (itobBuffer s) = 50"
    and "list_all ok (replicate (16 - length (numeral_of 16 (unat num))) CHR ''0'' @
         numeral_of 16 (unat num))"
  shows "holds (directive emit CHR ''a'' (VaLong num # args) s)
    (\<lambda>(args', s'). args' = args \<and>
       shown effect (replicate (16 - length (numeral_of 16 (unat num))) CHR ''0'' @
         numeral_of 16 (unat num)) s s')"
proof -
  let ?pad = "replicate (16 - length (numeral_of 16 (unat num))) CHR ''0''"
  have "unat num < 16 ^ 16" using unsigned_less [of num] by simp
  then have len: "length (numeral_of 16 (unat num)) \<le> 16" by (intro length_numeral_of) simp_all
  obtain b where b: "itob_string num 16 s =
      Inr (cstr (numeral_of 16 (unat num)), s\<lparr>itobBuffer := b\<rparr>)" "length b = 50"
    "no_nul (numeral_of 16 (unat num))"
    using itob_string [OF assms(2), of 16 num] by auto
  have "ready (s\<lparr>itobBuffer := b\<rparr>)" "list_all ok ?pad" "list_all ok (numeral_of 16 (unat num))"
    using assms(1,3) by (simp_all only: ready_buffer list_all_append)
  then have "directive emit CHR ''a'' (VaLong num # args) s =
      Inr (args, fold effect (?pad @ numeral_of 16 (unat num)) (s\<lparr>itobBuffer := b\<rparr>))"
    using b len emit_all [of "s\<lparr>itobBuffer := b\<rparr>" ?pad]
    by (simp add: directive_def strlen_eq pad_width put_cstr del: fold_replicate)
  then show ?thesis using b(2) assms(3) unfolding shown_def
    by (auto simp: fold_buffer simp del: fold_append)
qed

lemma directive:
  assumes "render_directive c args = Some (out, args')" and "ready s"
    and "length (itobBuffer s) = 50" and "list_all ok out"
  shows "holds (directive emit c args s) (\<lambda>(args'', s'). args'' = args' \<and> shown effect out s s')"
proof (cases args)
  case Nil
  then show ?thesis using assms shown_nil [OF assms(3)]
    by (auto simp: directive_def split: if_splits)
next
  case (Cons v rest)
  note num = directive_number [OF assms(2,3), of 10] directive_number [OF assms(2,3), of 16]
  note nil = shown_nil [OF assms(3)]
  show ?thesis
  proof (cases v)
    case (VaLong w)
    with Cons assms num nil directive_padded [OF assms(2,3)] show ?thesis
      by (cases "c = CHR ''a''") (auto simp: directive_def Let_def split: if_splits)
  next
    case (VaStr t)
    with Cons assms nil show ?thesis
      by (auto simp: directive_def put_string shown_fold split: if_splits)
  next
    case (VaInt w)
    with Cons assms nil num(1) [of "ucast w"] num(2) [of "ucast w"]
      shown_fold [OF assms(3), of "[char_of (unat w)]"] show ?thesis
      by (auto simp: directive_def emit unat_ucast_up split: if_splits)
  qed
qed

lemma format_out:
  "render str args = Some out \<Longrightarrow> ready s \<Longrightarrow> length (itobBuffer s) = 50 \<Longrightarrow> list_all ok out \<Longrightarrow>
   holds (format_out emit str args s) (shown effect out s)"
proof (induction str args arbitrary: s out rule: render.induct)
  case (1 args)
  then show ?case using shown_nil by simp
next
  case (2 c args)
  then show ?case using shown_nil [of s] shown_fold [of s "[c]"]
    by (auto simp: emit split: if_splits)
next
  case (3 c d str args)
  show ?case
  proof (cases "c = CHR ''%''")
    case True
    then obtain o1 args' o2 where r: "render_directive d args = Some (o1, args')"
      "render str args' = Some o2" "out = o1 @ o2"
      using "3.prems"(1) by (auto split: option.splits)
    then have ok: "list_all ok o1" "list_all ok o2" using "3.prems"(4) by simp_all
    have "holds (format_out emit str args' s') (shown effect out s)" if p: "shown effect o1 s s'" for s'
    proof -
      have "holds (format_out emit str args' s') (shown effect o2 s')"
        using "3.IH"(2) [OF _ r(1) refl r(2)] True p "3.prems" ok
        by (simp add: shown_ready shown_length)
      then show ?thesis unfolding r(3) by (rule holds_mono) (rule shown_trans [OF p _ ok(2)])
    qed
    then show ?thesis using True directive [OF r(1) "3.prems"(2,3) ok(1)]
      by (auto simp: wp elim!: holds_mono)
  next
    case False
    then obtain o2 where r: "render (d # str) args = Some o2" "out = c # o2"
      using "3.prems"(1) by auto
    then have ok: "ok c" "list_all ok o2" using "3.prems"(4) by simp_all
    have "holds (format_out emit (d # str) args (effect c s)) (shown effect o2 (effect c s))"
      using "3.IH"(1) [OF False r(1)] "3.prems" ok by (simp add: ready_effect buffer_effect)
    then have "holds (format_out emit (d # str) args (effect c s)) (shown effect out s)"
      unfolding r(2) by (rule holds_mono) (rule shown_cons)
    then show ?thesis using False "3.prems"(2) ok by (simp add: emit)
  qed
qed

end

interpretation serial_sink: char_device serial_emit serialWrite "\<lambda>_. True" "\<lambda>_. True"
  by unfold_locales (simp_all add: serial_emit_def serialWrite_def)

lemma serial_put:
  "no_nul t \<Longrightarrow> length t < 2 ^ 64 \<Longrightarrow>
   put_string serial_emit (cstr t) s = Inr (s\<lparr>serial := serial s @ t\<rparr>)"
  using serial_sink.put_cstr [of t s] by (simp add: list_all_iff)

lemma serial_format_out:
  "render str args = Some out \<Longrightarrow> length (itobBuffer s) = 50 \<Longrightarrow>
   holds (format_out serial_emit str args s) (printed out s)"
  using serial_sink.format_out [of str args out s] by (simp add: shown_serial list_all_iff)

text \<open>The header a message starts with.\<close>

definition header :: "string \<Rightarrow> string" where
  "header p =
     (case find (\<lambda>e. prefix e = p) prefixList of
        None \<Rightarrow> bashColours ! 0
      | Some e \<Rightarrow> bashColours ! prefixColour e @ p @ bashColours ! textColour e @ '' '')"

lemma escape_colour: "no_nul code \<Longrightarrow> no_nul (escape code) \<and> length (escape code) = length code + 3"
  by (simp add: escape_def)

lemma bashColours_nth: "k < 17 \<Longrightarrow> no_nul (bashColours ! k) \<and> length (bashColours ! k) = 5"
proof -
  assume "k < 17"
  then have "bashColours ! k \<in> set bashColours" by (intro nth_mem) (simp add: bashColours_def)
  then show ?thesis by (auto simp: bashColours_def escape_colour)
qed

lemma prefixList_entry:
  "e \<in> set prefixList \<Longrightarrow> no_nul (prefix e) \<and> prefixColour e < 17 \<and> textColour e < 17"
  by (auto simp: prefixList_def)

lemma length_prefixList [simp]: "length prefixList = 9"
  by (simp add: prefixList_def)

lemma header_hit:
  "k < 9 \<Longrightarrow> prefix (prefixList ! k) = p \<Longrightarrow> (\<forall>j < k. prefix (prefixList ! j) \<noteq> p) \<Longrightarrow>
   header p = bashColours ! prefixColour (prefixList ! k) @ p @
     bashColours ! textColour (prefixList ! k) @ '' ''"
proof -
  assume "k < 9" and "prefix (prefixList ! k) = p" and "\<forall>j < k. prefix (prefixList ! j) \<noteq> p"
  then have "find (\<lambda>e. prefix e = p) prefixList = Some (prefixList ! k)"
    by (auto simp: find_Some_iff)
  then show ?thesis by (simp add: header_def)
qed

lemma header_miss: "(\<forall>j < 9. prefix (prefixList ! j) \<noteq> p) \<Longrightarrow> header p = bashColours ! 0"
proof -
  assume "\<forall>j < 9. prefix (prefixList ! j) \<noteq> p"
  then have "find (\<lambda>e. prefix e = p) prefixList = None"
    by (auto simp: find_None_iff in_set_conv_nth)
  then show ?thesis by (simp add: header_def)
qed

lemma print_prefix_holds:
  assumes p: "no_nul p" "length p < 2 ^ 64"
  shows "print_prefix (cstr p) s = Inr (s\<lparr>serial := serial s @ header p\<rparr>)"
proof -
  let ?s0 = "s\<lparr>serial := serial s @ bashColours ! 0\<rparr>"
  let ?done = "s\<lparr>serial := serial s @ header p\<rparr>"
  note put = serial_put
  have "holds (print_prefix (cstr p) s) (\<lambda>s'. s' = ?done)"
    unfolding print_prefix_def holds_and_then
  proof (rule for_u64_holds [where
        I = "\<lambda>i s'. unat i \<le> 9 \<and> (\<forall>k < unat i. prefix (prefixList ! k) \<noteq> p) \<and>
          s' = (if unat i = 9 then ?s0 else s)"])
    fix i :: u64 and s'
    assume "i < of_nat (length prefixList)"
      and I: "unat i \<le> 9 \<and> (\<forall>k < unat i. prefix (prefixList ! k) \<noteq> p) \<and>
        s' = (if unat i = 9 then ?s0 else s)"
    then have lt: "i < 9" and i: "unat i < 9" "s' = s"
      by (auto simp: word_less_nat_alt)
    note i = i unat_plus_1 [OF lt]
    let ?e = "prefixList ! unat i"
    have e: "no_nul (prefix ?e)" "no_nul (bashColours ! prefixColour ?e)"
      "no_nul (bashColours ! textColour ?e)" "length (bashColours ! prefixColour ?e) = 5"
      "length (bashColours ! textColour ?e) = 5"
      using prefixList_entry [of ?e] i(1) bashColours_nth by auto
    obtain d where d: "strcmp (cstr (prefix ?e)) (cstr p) = Inr d" "d = 0 \<longleftrightarrow> prefix ?e = p"
      using strcmp_cstr [OF e(1) p(1), of "[]" "[]"] by auto
    have last: "i = 9 - 1 \<longleftrightarrow> unat i = 8" by (simp add: word_unat_eq_iff)
    show "holds (and_then (fetch prefixList i) (\<lambda>pa.
          and_then (strcmp (cstr (prefix pa)) (cstr p)) (\<lambda>d.
            if d = 0 then
              and_then (serialWriteString (cstr (bashColours ! prefixColour pa)) s') (\<lambda>s.
              and_then (serialWriteString (cstr p) s) (\<lambda>s.
              and_then (serialWriteString (cstr (bashColours ! textColour pa)) s) (\<lambda>s.
                Inr (Exit (serialWrite CHR '' '' s)))))
            else if i = of_nat (length prefixList) - 1 then
              and_then (serialWriteString (cstr (bashColours ! 0)) s') (\<lambda>s. Inr (Next s))
            else Inr (Next s'))))
        (\<lambda>f. case f of
            Next s' \<Rightarrow> unat (i + 1) \<le> 9 \<and> (\<forall>k < unat (i + 1). prefix (prefixList ! k) \<noteq> p) \<and>
              s' = (if unat (i + 1) = 9 then ?s0 else s)
          | Exit r \<Rightarrow> holds (case Exit r of Exit s' \<Rightarrow> Inr s' | Next s' \<Rightarrow> Inr s') (\<lambda>s'. s' = ?done))"
    proof (cases "prefix ?e = p")
      case True
      with header_hit [OF i(1)] I have "header p = bashColours ! prefixColour ?e @ p @
          bashColours ! textColour ?e @ '' ''" by blast
      then show ?thesis
        using True d e p i by (simp add: fetch_def serialWriteString_def put serialWrite_def)
    next
      case False
      then show ?thesis
        using d e p i I bashColours_nth [of 0] last
        by (auto simp: fetch_def serialWriteString_def put less_Suc_eq)
    qed
  next
    fix s'
    assume "unat (of_nat (length prefixList) :: u64) \<le> 9 \<and>
      (\<forall>k < unat (of_nat (length prefixList) :: u64). prefix (prefixList ! k) \<noteq> p) \<and>
      s' = (if unat (of_nat (length prefixList) :: u64) = 9 then ?s0 else s)"
    then show "holds (case Next s' of Exit s' \<Rightarrow> Inr s' | Next s' \<Rightarrow> Inr s') (\<lambda>s'. s' = ?done)"
      using header_miss [of p] by simp
  qed simp_all
  then show ?thesis by (simp add: holds_eq_iff)
qed

lemma kprintDS_holds:
  assumes "\<not> kprintDSLock s" and "length (itobBuffer s) = 50"
    and "no_nul p" and "length p < 2 ^ 64" and "no_nul str" and "length str < 2 ^ 64"
    and "render str args = Some out"
  shows "holds (kprintDS (cstr p) (cstr str) args s)
    (\<lambda>s'. printed (header p @ out @ [CHR 0x0A]) s s')"
proof -
  let ?s = "s\<lparr>kprintDSLock := True, serial := serial s @ header p\<rparr>"
  have "holds (format_out serial_emit str args ?s) (printed out ?s)"
    by (rule serial_format_out [OF assms(7)]) (use assms(2) in simp_all)
  moreover have "printed (header p @ out @ [CHR 0x0A]) s
      (serialWrite CHR 0x0A s'\<lparr>kprintDSLock := False\<rparr>)" if "printed out ?s s'" for s'
    using that assms(1) by (cases s) (auto simp: printed_def serialWrite_def)
  ultimately show ?thesis
    using assms
    by (auto simp: kprintDS_def wp print_prefix_holds strlen_eq unat_of_nat_small Let_def
        take_cstr elim!: holds_mono)
qed

text \<open>The console between two messages, and a message without a directive.\<close>

definition console_ready :: "'a console_state_scheme \<Rightarrow> bool" where
  "console_ready s \<longleftrightarrow> \<not> kprintDSLock s \<and> length (itobBuffer s) = 50"

lemma console_ready_printed: "printed out s s' \<Longrightarrow> console_ready s \<Longrightarrow> console_ready s'"
  by (auto simp: printed_def console_ready_def)

lemma render_plain: "CHR ''%'' \<notin> set str \<Longrightarrow> render str args = Some str"
  by (induction str args rule: render.induct) auto

definition message :: "string \<Rightarrow> string \<Rightarrow> bool" where
  "message p str \<longleftrightarrow>
     no_nul p \<and> length p < 2 ^ 64 \<and> no_nul str \<and> length str < 2 ^ 64"

lemma kprintDS_render:
  "console_ready s \<Longrightarrow> message p str \<Longrightarrow> render str args = Some out \<Longrightarrow>
   holds (kprintDS (cstr p) (cstr str) args s) (printed (header p @ out @ [CHR 0x0A]) s)"
  by (rule kprintDS_holds) (auto simp: console_ready_def message_def)

text \<open>A client that only needs the message not to disturb its state.\<close>

lemma kprintDS_keeps:
  assumes "console_ready s" and "message p str" and "render str args = Some out"
    and "\<And>t b. length b = 50 \<Longrightarrow> Q (s\<lparr>serial := t, itobBuffer := b\<rparr>)"
  shows "holds (kprintDS (cstr p) (cstr str) args s) Q"
  using kprintDS_render [OF assms(1-3)]
  by (rule holds_mono) (auto simp: printed_def assms(4))

lemma kprintDS_plain:
  "console_ready s \<Longrightarrow> message p str \<Longrightarrow> CHR ''%'' \<notin> set str \<Longrightarrow>
   holds (kprintDS (cstr p) (cstr str) args s) (printed (header p @ str @ [CHR 0x0A]) s)"
  by (rule kprintDS_render) (simp_all add: render_plain)

text \<open>What no message touches: the rest of the machine's state, also when the arguments do not
  fit the format.\<close>

lemma serial_emit_more: "serial_emit c s = Inr s' \<Longrightarrow> console_state.more s' = console_state.more s"
  by (auto simp: serial_emit_def serialWrite_def)

lemma emit_all_more:
  "emit_all serial_emit cs s = Inr s' \<Longrightarrow> console_state.more s' = console_state.more s"
  by (induction cs arbitrary: s) (auto simp: and_then_eq_Inr_iff dest!: serial_emit_more)

lemma put_string_more:
  "put_string serial_emit t s = Inr s' \<Longrightarrow> console_state.more s' = console_state.more s"
  by (auto simp: put_string_def and_then_eq_Inr_iff dest: emit_all_more)

lemma itob_string_more:
  "itob_string num base s = Inr (t, s') \<Longrightarrow> console_state.more s' = console_state.more s"
  by (auto simp: itob_string_def and_then_eq_Inr_iff)

lemma directive_more:
  "directive serial_emit c args s = Inr (args', s') \<Longrightarrow> console_state.more s' = console_state.more s"
  by (auto simp: directive_def and_then_eq_Inr_iff Let_def split: if_splits
      dest!: put_string_more itob_string_more serial_emit_more emit_all_more)

lemma format_out_more:
  fixes s :: "'a console_state_scheme"
  shows "format_out serial_emit str args s = Inr s' \<Longrightarrow> console_state.more s' = console_state.more s"
proof (induction "serial_emit :: char \<Rightarrow> 'a console_state_scheme \<Rightarrow> _" str args s rule: format_out.induct)
  case (3 c d str args s)
  then show ?case
    by (cases "c = CHR ''%''")
      (auto simp: and_then_eq_Inr_iff dest!: serial_emit_more dest: directive_more)
qed (auto split: if_splits dest: serial_emit_more)

lemma print_prefix_more:
  fixes s :: "'a console_state_scheme"
  assumes "print_prefix p s = Inr s'"
  shows "console_state.more s' = console_state.more s"
proof -
  let ?I = "\<lambda>t. console_state.more t = console_state.more s"
  obtain f where f: "for_u64 (\<lambda>i s.
          and_then (fetch prefixList i) (\<lambda>pa.
          and_then (strcmp (cstr (prefix pa)) p) (\<lambda>d.
            if d = 0 then
              and_then (serialWriteString (cstr (bashColours ! prefixColour pa)) s) (\<lambda>s.
              and_then (serialWriteString p s) (\<lambda>s.
              and_then (serialWriteString (cstr (bashColours ! textColour pa)) s) (\<lambda>s.
                Inr (Exit (serialWrite CHR '' '' s)))))
            else if i = of_nat (length prefixList) - 1 then
              and_then (serialWriteString (cstr (bashColours ! 0)) s) (\<lambda>s. Inr (Next s))
            else Inr (Next s))))
          0 (of_nat (length prefixList)) s = Inr f"
    "(case f of Exit s' \<Rightarrow> Inr s' | Next s' \<Rightarrow> Inr s') = (Inr s' :: 'a console_state_scheme result)"
    using assms unfolding print_prefix_def and_then_eq_Inr_iff by blast
  have "case f of Next t \<Rightarrow> ?I t | Exit t \<Rightarrow> ?I t"
    by (rule for_u64_invariant [OF f(1), of ?I ?I])
      (auto simp: and_then_eq_Inr_iff serialWriteString_def serialWrite_def split: if_splits
        dest!: put_string_more)
  then show ?thesis using f(2) by (cases f) simp_all
qed

lemma kprintDS_more:
  "kprintDS p str args s = Inr s' \<Longrightarrow> console_state.more s' = console_state.more s"
  by (auto simp: kprintDS_def and_then_eq_Inr_iff Let_def serialWrite_def
      dest!: print_prefix_more format_out_more)

text \<open>
  C26: a call of \<open>kprintDS\<close> with a prefix, a format and arguments of the types the format
  asks for prints the coloured prefix, the rendered format and a newline, and returns with
  its lock free. Numbers come out as the reference numerals, \<open>%a\<close> padded to 16 digits.
\<close>

theorem kprintDS_renders:
  assumes "\<not> kprintDSLock s" and "length (itobBuffer s) = 50"
    and "no_nul p" and "length p < 2 ^ 64" and "no_nul str" and "length str < 2 ^ 64"
    and "render str args = Some out"
  shows "\<exists>b. kprintDS (cstr p) (cstr str) args s =
      Inr (s\<lparr>serial := serial s @ header p @ out @ [CHR 0x0A], itobBuffer := b\<rparr>)"
  using kprintDS_holds [OF assms] by (auto simp: printed_def elim!: holdsE)

definition example_console :: console_state where
  "example_console = \<lparr>serial = [], itobBuffer = replicate 50 NUL, kprintDSLock = False\<rparr>"

theorem kprintDS_renders_witness:
  "\<exists>b. kprintDS (cstr ''[SMP]'') (cstr ''Core %d up'') [VaLong 3] example_console =
      Inr (example_console\<lparr>serial := header ''[SMP]'' @ ''Core 3 up'' @ [CHR 0x0A], itobBuffer := b\<rparr>)"
proof -
  have "render ''Core %d up'' [VaLong 3] = Some ''Core 3 up''"
    by (simp add: numeral_of.simps digit_char_def)
  from kprintDS_renders [OF _ _ _ _ _ _ this, of example_console "''[SMP]''"]
  show ?thesis by (simp add: example_console_def del: cstr_simps)
qed

end
