(* ===== verification/Physical_Pages.thy ===== *)
theory Physical_Pages
  imports Mem_Utils Run_Allocator Console
begin

text \<open>
  The physical page allocator, \<^verbatim>\<open>kernel/mm/physicalPageManager.c\<close>: a bitmap with one bit
  per 4 KiB page at a fixed physical address, the amount of memory the boot protocol
  reported, and the lock of \<open>physicalPageAlloc\<close>. The bitmap is the list of the bytes from
  the pointer to the end of the memory it may use; the pages of the abstract view are
  \<open>bits (bitmap s)\<close>, the allocator's range is \<open>npages s\<close>.
  \<open>physicalPageAlloc_first_fit\<close> is the refinement to the specification \<open>first_fit\<close>; the
  interpretation \<open>pages\<close> of \<open>run_allocator\<close> gives the properties of sequences of calls.
\<close>

definition PAGESIZE :: u64 where
  "PAGESIZE = 0x1000"

definition ROUNDUP :: "u64 \<Rightarrow> u64 \<Rightarrow> u64" where
  "ROUNDUP a b = (a + (b - 1)) div b"

definition HIGH_VMA :: u64 where
  "HIGH_VMA = 0xffff800000000000"

definition KERNEL_HIGH_VMA :: u64 where
  "KERNEL_HIGH_VMA = 0xffffffff80000000"

record bproto_t =
  mmapAddress :: u64
  mmapEntries :: u8
  b_rsdp :: u32
  b_pitch :: u16
  b_width :: u16
  b_height :: u16
  b_bpp :: u8
  b_framebuffer :: u32

record mmapEntry_t =
  e_base :: u64
  e_length :: u64
  e_type :: u32
  e_unused :: u32

record pmm_state = console_state +
  bitmap :: "u8 list"
  totalDetectedMemory :: u64
  pageAllocLock :: bool

section \<open>The functions\<close>

definition firstFreePage :: "'a pmm_state_scheme \<Rightarrow> u64 result" where
  "firstFreePage s =
     and_then
       (for_u64 (\<lambda>i (_ :: unit).
          and_then (isset (bitmap s) i) (\<lambda>u. Inr (if \<not> u then Exit i else Next ())))
          0 (totalDetectedMemory s div PAGESIZE) ())
       (\<lambda>f. case f of Exit i \<Rightarrow> Inr i | Next _ \<Rightarrow> Inr (- 1))"

definition physicalPageAlloc ::
  "u64 \<Rightarrow> 'a pmm_state_scheme \<Rightarrow> (u64 \<times> 'a pmm_state_scheme) result"
where
  "physicalPageAlloc count s0 =
     and_then (spinLock (pageAllocLock s0)) (\<lambda>l.
     let s = s0\<lparr>pageAllocLock := l\<rparr> in
     and_then (firstFreePage s) (\<lambda>first.
     and_then (firstFreePage s) (\<lambda>start.
     and_then
       (for_u64 (\<lambda>i (cnt, base).
          and_then (isset (bitmap s) i) (\<lambda>u.
            if u then Inr (Next (0, base + (cnt + 1) * PAGESIZE))
            else if cnt + 1 = count then
              and_then
                (each_u64 (\<lambda>j bm. set_loc bm (base div PAGESIZE + j)) 0 count (bitmap s))
                (\<lambda>bm. Inr (Exit (base, bm)))
            else Inr (Next (cnt + 1, base))))
          start (totalDetectedMemory s div PAGESIZE) (0 :: u64, first * PAGESIZE))
       (\<lambda>f. case f of
          Exit (base, bm) \<Rightarrow>
            Inr (base, s\<lparr>bitmap := bm, pageAllocLock := spinRelease (pageAllocLock s)\<rparr>)
        | Next _ \<Rightarrow> Inr (0, s\<lparr>pageAllocLock := spinRelease (pageAllocLock s)\<rparr>)))))"

text \<open>What the call leaves alone.\<close>

lemma physicalPageAlloc_pmm_more:
  fixes s :: "'a pmm_state_scheme"
  assumes "physicalPageAlloc n s = Inr (a, s')"
  shows "pmm_state.more s' = pmm_state.more s"
  using assms unfolding physicalPageAlloc_def Let_def and_then_eq_Inr_iff
  by (elim exE conjE) (rename_tac x first start f, case_tac f, auto split: prod.split_asm)

text \<open>\<open>physicalPageFree\<close> takes no lock.\<close>

definition physicalPageFree ::
  "u64 \<Rightarrow> u64 \<Rightarrow> 'a pmm_state_scheme \<Rightarrow> 'a pmm_state_scheme result"
where
  "physicalPageFree base count s =
     and_then
       (each_u64 (\<lambda>i bm. clear_loc bm i)
          (ROUNDUP base PAGESIZE) (ROUNDUP base PAGESIZE + count) (bitmap s))
       (\<lambda>bm. Inr (s\<lparr>bitmap := bm\<rparr>))"

definition allocateRegion ::
  "u64 \<Rightarrow> u64 \<Rightarrow> 'a pmm_state_scheme \<Rightarrow> 'a pmm_state_scheme result"
where
  "allocateRegion start len s =
     and_then
       (each_u64 (\<lambda>i bm. set_loc bm i)
          (start div PAGESIZE) (start div PAGESIZE + len div PAGESIZE) (bitmap s))
       (\<lambda>bm. Inr (s\<lparr>bitmap := bm\<rparr>))"

text \<open>\<open>mmap\<close> is the array of entries at \<open>bproto->mmapAddress\<close>. The bitmap pointer is set to
  the fixed address \<open>0xF900 + 64000 + HIGH_VMA\<close>: \<open>bitmap s\<close> is what that memory holds.\<close>

definition initPMM ::
  "bproto_t \<Rightarrow> mmapEntry_t list \<Rightarrow> 'a pmm_state_scheme \<Rightarrow> 'a pmm_state_scheme result"
where
  "initPMM bproto mmap s =
     and_then (memset (bitmap s) 0 (totalDetectedMemory s div PAGESIZE)) (\<lambda>bm.
     and_then
       (each_u64 (\<lambda>i s.
          and_then (fetch mmap i) (\<lambda>e.
            let s' = s\<lparr>totalDetectedMemory := totalDetectedMemory s + e_length e\<rparr> in
            if e_type e \<noteq> 1 then allocateRegion (e_base e) (e_length e) s' else Inr s'))
          0 (ucast (mmapEntries bproto)) (s\<lparr>bitmap := bm\<rparr>)) (\<lambda>s.
     and_then (allocateRegion 0 (0x100000 + 0x20000) s) (\<lambda>s.
     and_then (kprintDS (cstr ''[KMM]'') (cstr ''Physical Memory Manager initalized'') [] s) (\<lambda>s.
       kprintDS (cstr ''[KMM]'') (cstr ''Total Detected Memory: %d bytes'')
         [VaLong (totalDetectedMemory s)] s))))"

section \<open>The search\<close>

definition npages :: "'a pmm_state_scheme \<Rightarrow> nat" where
  "npages s = unat (totalDetectedMemory s div PAGESIZE)"

text \<open>What the allocator relies on: the bitmap covers the detected memory, and the lock is
  free between calls.\<close>

definition pmm_ok :: "'a pmm_state_scheme \<Rightarrow> bool" where
  "pmm_ok s \<longleftrightarrow> npages s \<le> 8 * length (bitmap s) \<and> \<not> pageAllocLock s"

lemma unat_PAGESIZE [simp]: "unat PAGESIZE = 4096"
  by (simp add: PAGESIZE_def)

lemma npages_less: "4096 * npages s < 2 ^ 64"
proof -
  have "unat (totalDetectedMemory s) < 2 ^ 64" using unsigned_less [of "totalDetectedMemory s"] by simp
  then show ?thesis by (simp add: npages_def unat_div)
qed

lemma firstFreePage_holds:
  assumes "npages s \<le> 8 * length (bitmap s)"
  shows "holds (firstFreePage s) (\<lambda>f.
    if {..<npages s} \<subseteq> bits (bitmap s) then f = - 1
    else unat f < npages s \<and> {..<unat f} \<subseteq> bits (bitmap s) \<and> unat f \<notin> bits (bitmap s))"
  using bm.find_unmarked [OF assms [unfolded npages_def]]
  unfolding firstFreePage_def holds_and_then
  by (rule holds_mono) (auto simp: npages_def word_less_nat_alt split: flow.splits)

text \<open>The outcome of an allocation, in terms of the specification.\<close>

definition alloc_result ::
  "u64 \<Rightarrow> 'a pmm_state_scheme \<Rightarrow> u64 \<times> 'a pmm_state_scheme \<Rightarrow> bool"
where
  "alloc_result count s r \<longleftrightarrow>
     (case first_fit (bits (bitmap s)) (npages s) (unat count) of
        None \<Rightarrow> r = (0, s)
      | Some p \<Rightarrow> \<exists>bm. r = (of_nat (4096 * p), s\<lparr>bitmap := bm\<rparr>) \<and> length bm = length (bitmap s) \<and>
          bits bm = bits (bitmap s) \<union> {p..<p + unat count})"

lemma physicalPageAlloc_holds:
  assumes "pmm_ok s"
  shows "holds (physicalPageAlloc count s) (alloc_result count s)"
proof -
  let ?n = "totalDetectedMemory s div PAGESIZE" and ?used = "bits (bitmap s)"
  have cover: "npages s \<le> 8 * length (bitmap s)" and free: "\<not> pageAllocLock s"
    using assms by (auto simp: pmm_ok_def)
  have n: "unat ?n = npages s" by (simp add: npages_def)
  obtain first where first: "firstFreePage s = Inr first"
    and post: "if {..<npages s} \<subseteq> ?used then first = - 1
      else unat first < npages s \<and> {..<unat first} \<subseteq> ?used \<and> unat first \<notin> ?used"
    using firstFreePage_holds [OF cover] by (rule holdsE)
  have lockless: "firstFreePage (s\<lparr>pageAllocLock := True\<rparr>) = firstFreePage s"
    by (simp add: firstFreePage_def)
  have same: "s\<lparr>pageAllocLock := False\<rparr> = s" "s\<lparr>bitmap := bm, pageAllocLock := False\<rparr> = s\<lparr>bitmap := bm\<rparr>" for bm
    using free by (cases s; simp)+
  show ?thesis
  proof (cases "{..<npages s} \<subseteq> ?used")
    case True
    then have none: "first_fit ?used (npages s) (unat count) = None"
      by (intro scan_end [OF scan_start])
    have "\<not> - 1 < ?n" by (simp add: not_less)
    then show ?thesis
      using True post first none free same
      by (simp add: physicalPageAlloc_def wp Let_def lockless for_u64_stop alloc_result_def)
  next
    case False
    with post have start: "first \<le> ?n" "{..<unat first} \<subseteq> ?used"
      by (auto simp: word_le_nat_alt n)
    let ?found = "\<lambda>base. and_then
        (each_u64 (\<lambda>j bm. set_loc bm (base div PAGESIZE + j)) 0 count (bitmap s))
        (\<lambda>bm. Inr (Exit (base, bm)))"
    have leaves: "?found base \<noteq> Inr (Next st)" for base and st :: "u64 \<times> u64"
      by (simp add: and_then_def split: sum.split)
    obtain st where loop:
      "for_u64 (\<lambda>i (cnt, base).
         and_then (isset (bitmap s) i) (\<lambda>u.
           if u then Inr (Next (0, base + (cnt + 1) * PAGESIZE))
           else if cnt + 1 = count then ?found base
           else Inr (Next (cnt + 1, base))))
         first ?n (0 :: u64, first * PAGESIZE) =
       (case first_fit ?used (npages s) (unat count) of
          None \<Rightarrow> Inr (Next st)
        | Some p \<Rightarrow> ?found (of_nat p * PAGESIZE))"
      using bm.scan_loop [where found = ?found and stride = PAGESIZE and count = count,
          OF _ start leaves] cover by (auto simp: n)
    have found: "holds (?found (of_nat p * PAGESIZE))
        (\<lambda>f. case f of
           Exit (base, bm) \<Rightarrow> alloc_result count s (base, s\<lparr>bitmap := bm\<rparr>)
         | Next _ \<Rightarrow> False)"
      if p: "first_fit ?used (npages s) (unat count) = Some p" for p
    proof -
      have fits: "p + unat count \<le> npages s" and "p < npages s"
        using p by (auto simp: first_fit_Some_iff run_free_def)
      then have small: "4096 * p < 2 ^ 64" "npages s < 2 ^ 64"
        using npages_less [of s] by simp_all
      then have q: "unat (of_nat p :: u64) = p" by (intro unat_of_nat_small) simp
      then have "of_nat p * PAGESIZE div PAGESIZE = of_nat p"
        using small by (intro stride_base) simp_all
      moreover have "holds (each_u64 (\<lambda>j bm. set_loc bm (of_nat p + j)) 0 count (bitmap s))
        (\<lambda>bm. 8 * length bm = 8 * length (bitmap s) \<and>
           bits bm = ?used \<union> {unat (of_nat p :: u64)..<unat (of_nat p :: u64) + unat count})"
        by (rule bm.mark_run) (use q fits cover small in simp_all)
      ultimately show ?thesis
        using p by (auto simp: wp q alloc_result_def PAGESIZE_def elim!: holds_mono)
    qed
    show ?thesis
    proof (cases "first_fit ?used (npages s) (unat count)")
      case None
      then show ?thesis
        using free first loop
        by (simp add: physicalPageAlloc_def wp Let_def lockless same alloc_result_def cong: if_cong)
    next
      case (Some p)
      then show ?thesis
        using free first loop found [OF Some]
        by (auto simp: physicalPageAlloc_def wp Let_def lockless same cong: if_cong
            elim!: holds_mono split: flow.splits)
    qed
  qed
qed

text \<open>A run of pages is freed exactly; \<open>base\<close> is the address the allocator returned.\<close>

lemma ROUNDUP_page:
  assumes "4096 dvd unat base"
  shows "unat (ROUNDUP base PAGESIZE) = unat base div 4096"
proof -
  obtain q where q: "unat base = 4096 * q" using assms by (rule dvdE)
  have p: "unat (PAGESIZE - 1) = 4095" by (simp add: PAGESIZE_def)
  have "unat base < 2 ^ 64" by (rule unat_less_u64)
  then have "q < 2 ^ 52" by (simp add: q)
  then have "unat base + unat (PAGESIZE - 1) < 2 ^ 64" unfolding p q by simp
  then have "unat (base + (PAGESIZE - 1)) = unat base + 4095"
    unfolding p [symmetric] by (rule unat_add_u64)
  then have "unat (ROUNDUP base PAGESIZE) = (4095 + 4096 * q) div 4096"
    by (simp only: ROUNDUP_def unat_div unat_PAGESIZE q add.commute)
  then show ?thesis by (simp add: q)
qed

lemma physicalPageFree_holds:
  assumes "4096 dvd unat base" and "unat base div 4096 + unat count \<le> 8 * length (bitmap s)"
    and "unat base div 4096 + unat count < 2 ^ 64"
  shows "holds (physicalPageFree base count s)
    (\<lambda>s'. \<exists>bm. s' = s\<lparr>bitmap := bm\<rparr> \<and> length bm = length (bitmap s) \<and>
       bits bm = bits (bitmap s) - {unat base div 4096..<unat base div 4096 + unat count})"
proof -
  let ?i = "ROUNDUP base PAGESIZE"
  have i: "unat ?i = unat base div 4096" using assms(1) by (rule ROUNDUP_page)
  have n: "unat (?i + count) = unat base div 4096 + unat count"
    using assms(3) by (subst unat_add_small) (simp_all add: i)
  have "holds (each_u64 (\<lambda>i bm. clear_loc bm i) ?i (?i + count) (bitmap s))
    (\<lambda>bm. 8 * length bm = 8 * length (bitmap s) \<and>
       bits bm = bits (bitmap s) - {unat ?i..<unat (?i + count)})"
    by (rule bm.unmark_range) (simp_all add: word_le_nat_alt i n assms(2))
  then show ?thesis by (auto simp: physicalPageFree_def wp i n elim!: holds_mono)
qed

text \<open>Two bitmaps of one length with the same marked bits are the same.\<close>

lemma bits_inject:
  assumes "length xs = length ys" and "bits xs = bits ys"
  shows "xs = ys"
proof (rule nth_equalityI)
  fix i
  assume i: "i < length xs"
  show "xs ! i = ys ! i"
  proof (rule bit_word_eqI)
    fix j :: nat
    assume "j < LENGTH(8)"
    then have "(8 * i + j) div 8 = i" and "(8 * i + j) mod 8 = j" by simp_all
    then show "bit (xs ! i) j \<longleftrightarrow> bit (ys ! i) j"
      using i assms in_bits_iff [of "8 * i + j" xs] in_bits_iff [of "8 * i + j" ys] by simp
  qed
qed (rule assms(1))

section \<open>Calls\<close>

text \<open>
  C3: \<open>physicalPageAlloc\<close> returns, with its lock free; it hands out the first run of
  \<open>count\<close> free pages and marks exactly these, or returns 0 and changes nothing when there
  is no such run (the specification \<open>first_fit\<close> searches all of them).
\<close>

theorem physicalPageAlloc_first_fit:
  assumes "pmm_ok s"
  shows "\<exists>a s'. physicalPageAlloc count s = Inr (a, s') \<and>
    (case first_fit (bits (bitmap s)) (npages s) (unat count) of
       None \<Rightarrow> a = 0 \<and> s' = s
     | Some p \<Rightarrow> unat a = 4096 * p \<and> s' = s\<lparr>bitmap := bitmap s'\<rparr> \<and>
         length (bitmap s') = length (bitmap s) \<and>
         bits (bitmap s') = bits (bitmap s) \<union> {p..<p + unat count})"
proof -
  have small: "unat (of_nat (4096 * p) :: u64) = 4096 * p"
    if "first_fit (bits (bitmap s)) (npages s) (unat count) = Some p" for p
  proof -
    have "p < npages s" using that by (auto simp: first_fit_Some_iff run_free_def)
    then have "4096 * p < 2 ^ 64" using npages_less [of s] by simp
    then show ?thesis by (rule unat_of_nat_u64)
  qed
  obtain r where r: "physicalPageAlloc count s = Inr r" "alloc_result count s r"
    using physicalPageAlloc_holds [OF assms] by (rule holdsE)
  show ?thesis
  proof (cases "first_fit (bits (bitmap s)) (npages s) (unat count)")
    case None
    with r show ?thesis by (simp add: alloc_result_def)
  next
    case (Some p)
    with r obtain bm where "r = (of_nat (4096 * p), s\<lparr>bitmap := bm\<rparr>)"
      "length bm = length (bitmap s)" "bits bm = bits (bitmap s) \<union> {p..<p + unat count}"
      by (auto simp: alloc_result_def)
    with r(1) Some small [OF Some] show ?thesis by simp
  qed
qed

definition example_pmm :: pmm_state where
  "example_pmm = \<lparr>serial = [], itobBuffer = replicate 50 NUL, kprintDSLock = False,
     bitmap = [1], totalDetectedMemory = 0x8000, pageAllocLock = False\<rparr>"

lemma example_pmm_ok:
  "pmm_ok example_pmm" "npages example_pmm = 8" "bits (bitmap example_pmm) = {0}"
proof -
  show "pmm_ok example_pmm" by (simp add: example_pmm_def pmm_ok_def npages_def unat_div)
  show "npages example_pmm = 8" by (simp add: example_pmm_def npages_def unat_div)
  show "bits (bitmap example_pmm) = {0}"
    by (auto simp: example_pmm_def bits_def bit_1_iff)
qed

theorem physicalPageAlloc_first_fit_witness:
  "\<exists>a s'. physicalPageAlloc 2 example_pmm = Inr (a, s') \<and> unat a = 4096 \<and>
     bits (bitmap s') = {0, 1, 2}"
proof -
  have "first_fit {0} 8 2 = Some 1" by (auto simp: first_fit_Some_iff run_free_def)
  then show ?thesis
    using physicalPageAlloc_first_fit [OF example_pmm_ok(1), of 2] example_pmm_ok(2,3) by auto
qed

text \<open>What the caller of the allocator learns, in the form the clients use.\<close>

lemma alloc_resultE:
  assumes "alloc_result count s (a, s')"
  obtains (none) "a = 0" "s' = s" "\<And>p. \<not> run_free (bits (bitmap s)) (npages s) (unat count) p"
  | (some) p bm where "unat a = 4096 * p" "s' = s\<lparr>bitmap := bm\<rparr>" "length bm = length (bitmap s)"
      "bits bm = bits (bitmap s) \<union> {p..<p + unat count}"
      "{p..<p + unat count} \<inter> bits (bitmap s) = {}" "0 < unat count" "p + unat count \<le> npages s"
proof (cases "first_fit (bits (bitmap s)) (npages s) (unat count)")
  case None
  with assms none show ?thesis by (auto simp: alloc_result_def first_fit_None_iff)
next
  case (Some p)
  then have p: "run_free (bits (bitmap s)) (npages s) (unat count) p"
    by (simp add: first_fit_Some_iff)
  then have "4096 * p < 2 ^ 64" using npages_less [of s] by (auto simp: run_free_def)
  then have u: "unat (of_nat (4096 * p) :: u64) = 4096 * p" by (rule unat_of_nat_u64)
  from Some assms obtain bm where "a = of_nat (4096 * p)" "s' = s\<lparr>bitmap := bm\<rparr>"
      "length bm = length (bitmap s)" "bits bm = bits (bitmap s) \<union> {p..<p + unat count}"
    by (auto simp: alloc_result_def)
  with p u show ?thesis by (intro some) (auto simp: run_free_def)
qed

lemma alloc_bound:
  assumes "pmm_ok s" and "p + n \<le> npages s"
  shows "p + n \<le> 8 * length (bitmap s)" and "p + n < 2 ^ 64"
  using assms npages_less [of s] by (simp_all add: pmm_ok_def)

text \<open>
  Freeing the run \<open>physicalPageAlloc\<close> just returned restores the state exactly.
\<close>

theorem physicalPageAlloc_Free:
  assumes "pmm_ok s" and "physicalPageAlloc count s = Inr (a, s')" and "a \<noteq> 0"
  shows "physicalPageFree a count s' = Inr s"
proof -
  have "alloc_result count s (a, s')"
    using physicalPageAlloc_holds [OF assms(1)] assms(2) by (rule holds_InrD)
  then show ?thesis
  proof (cases rule: alloc_resultE)
    case none
    with assms(3) show ?thesis by simp
  next
    case (some p bm)
    have "holds (physicalPageFree a count s')
      (\<lambda>s''. \<exists>bm'. s'' = s'\<lparr>bitmap := bm'\<rparr> \<and> length bm' = length (bitmap s') \<and>
         bits bm' = bits (bitmap s') - {unat a div 4096..<unat a div 4096 + unat count})"
      by (rule physicalPageFree_holds) (use some alloc_bound [OF assms(1) some(7)] in simp_all)
    then obtain bm' where free: "physicalPageFree a count s' = Inr (s'\<lparr>bitmap := bm'\<rparr>)"
      and len: "length bm' = length (bitmap s)"
      and view: "bits bm' = bits (bitmap s)"
      using some by (auto elim!: holdsE)
    have "bm' = bitmap s" using len view by (rule bits_inject)
    then show ?thesis using free some(2) by (cases s) simp
  qed
qed

theorem physicalPageAlloc_Free_witness:
  "physicalPageAlloc 2 example_pmm = Inr (0x1000, example_pmm\<lparr>bitmap := [7]\<rparr>) \<and>
   physicalPageFree 0x1000 2 (example_pmm\<lparr>bitmap := [7]\<rparr>) = Inr example_pmm"
proof -
  have a: "physicalPageAlloc 2 example_pmm = Inr (0x1000, example_pmm\<lparr>bitmap := [7]\<rparr>)" by code_simp
  show ?thesis using a physicalPageAlloc_Free [OF example_pmm_ok(1) a] by simp
qed

section \<open>The contract of the allocator\<close>

definition page_run :: "u64 \<times> u64 \<Rightarrow> nat set" where
  "page_run r = {unat (fst r) div 4096..<unat (fst r) div 4096 + unat (snd r)}"

definition page_runs_ok :: "'a pmm_state_scheme \<Rightarrow> (u64 \<times> u64) list \<Rightarrow> bool" where
  "page_runs_ok s rs \<longleftrightarrow> pmm_ok s \<and> 0 \<in> bits (bitmap s) \<and>
     (\<forall>r \<in> set rs. 4096 dvd unat (fst r) \<and> 0 < unat (fst r) \<and>
        unat (fst r) div 4096 + unat (snd r) \<le> npages s) \<and>
     runs_marked page_run (bits (bitmap s)) rs"

lemma npages_bitmap [simp]: "npages (s\<lparr>bitmap := bm\<rparr>) = npages s"
  by (simp add: npages_def)

lemma pmm_ok_bitmap [simp]:
  "length bm = length (bitmap s) \<Longrightarrow> pmm_ok (s\<lparr>bitmap := bm\<rparr>) = pmm_ok s"
  by (simp add: pmm_ok_def)

lemma extent_page_run:
  assumes "4096 dvd unat (fst r)" and "4096 dvd unat (fst r')" and "page_run r \<inter> page_run r' = {}"
  shows "extent 4096 r \<inter> extent 4096 r' = {}"
proof -
  have page: "x div 4096 \<in> page_run q" if "x \<in> extent 4096 q" "4096 dvd unat (fst q)" for x q
    using that by (auto simp: extent_def page_run_def div_le_mono less_mult_imp_div_less elim!: dvdE)
  show ?thesis using page [of _ r] page [of _ r'] assms by blast
qed

lemma physicalPageAlloc_runs_ok:
  assumes ok: "page_runs_ok s rs"
  shows "holds (physicalPageAlloc c s)
    (\<lambda>(a, s'). page_runs_ok s' (if a = 0 then rs else (a, c) # rs))"
proof -
  have "holds (physicalPageAlloc c s) (alloc_result c s)"
    by (rule physicalPageAlloc_holds) (use ok in \<open>simp add: page_runs_ok_def\<close>)
  then show ?thesis
  proof (rule holds_mono, clarify)
    fix a s'
    assume "alloc_result c s (a, s')"
    then show "page_runs_ok s' (if a = 0 then rs else (a, c) # rs)"
    proof (cases rule: alloc_resultE)
      case none
      with ok show ?thesis by simp
    next
      case (some p bm)
      have run: "page_run (a, c) = {p..<p + unat c}" using some(1) by (simp add: page_run_def)
      have "p \<noteq> 0" using some(5,6) ok by (auto simp: page_runs_ok_def)
      then have a: "0 < unat a" using some(1) by simp
      then have "a \<noteq> 0" by auto
      moreover have "runs_marked page_run (bits bm) ((a, c) # rs)"
        unfolding some(4) run [symmetric]
        by (rule runs_marked_add) (use ok some(5) run in \<open>auto simp: page_runs_ok_def\<close>)
      ultimately show ?thesis
        using ok some a by (auto simp: page_runs_ok_def)
    qed
  qed
qed

lemma physicalPageFree_runs_ok:
  assumes ok: "page_runs_ok s rs" and r: "(a, c) \<in> set rs"
  shows "holds (physicalPageFree a c s) (\<lambda>s'. page_runs_ok s' (remove1 (a, c) rs))"
proof -
  from assms have a: "4096 dvd unat a" "unat a div 4096 + unat c \<le> npages s" "0 < unat a" "pmm_ok s"
    by (auto simp: page_runs_ok_def)
  have "holds (physicalPageFree a c s)
    (\<lambda>s'. \<exists>bm. s' = s\<lparr>bitmap := bm\<rparr> \<and> length bm = length (bitmap s) \<and>
       bits bm = bits (bitmap s) - page_run (a, c))"
    unfolding page_run_def fst_conv snd_conv
    by (rule physicalPageFree_holds) (use a alloc_bound [OF a(4,2)] in simp_all)
  then show ?thesis
  proof (rule holds_mono, clarify)
    fix bm
    assume bm: "length bm = length (bitmap s)" "bits bm = bits (bitmap s) - page_run (a, c)"
    have "0 \<notin> page_run (a, c)" using a(1,3) by (auto simp: page_run_def elim!: dvdE)
    moreover have "runs_marked page_run (bits bm) (remove1 (a, c) rs)"
      unfolding bm by (rule runs_marked_remove) (use ok r in \<open>auto simp: page_runs_ok_def\<close>)
    ultimately show "page_runs_ok (s\<lparr>bitmap := bm\<rparr>) (remove1 (a, c) rs)"
      using ok bm by (auto simp: page_runs_ok_def dest: notin_set_remove1 set_mp [OF set_remove1_subset])
  qed
qed

interpretation pages: total_run_allocator physicalPageAlloc physicalPageFree page_runs_ok 4096
proof unfold_locales
  fix s s' :: "'a pmm_state_scheme" and rs c a
  assume ok: "page_runs_ok s rs"
  show "\<exists>a s'. physicalPageAlloc c s = Inr (a, s')"
    using physicalPageAlloc_runs_ok [OF ok, of c] by (auto elim: holdsE)
  show "page_runs_ok s' (if a = 0 then rs else (a, c) # rs)" if "physicalPageAlloc c s = Inr (a, s')"
    using holds_InrD [OF physicalPageAlloc_runs_ok [OF ok] that] by simp
  show "\<exists>s'. physicalPageFree a c s = Inr s'" if "(a, c) \<in> set rs"
    using physicalPageFree_runs_ok [OF ok that] by (auto elim: holdsE)
  show "page_runs_ok s' (remove1 (a, c) rs)"
    if "(a, c) \<in> set rs" and "physicalPageFree a c s = Inr s'"
    using holds_InrD [OF physicalPageFree_runs_ok [OF ok that(1)] that(2)] .
  have "disjoint_runs page_run rs" using ok by (simp add: page_runs_ok_def runs_marked_def)
  then show "disjoint_runs (extent 4096) rs"
    by (rule disjoint_runs_mono) (use ok extent_page_run in \<open>simp add: page_runs_ok_def\<close>)
qed

text \<open>
  C4: no sequence of allocations and frees faults, and the runs held at the end of it do not
  share a byte, when page 0 is reserved (as \<open>initPMM\<close> leaves it).
\<close>

theorem page_sequences_disjoint:
  assumes "pmm_ok s" and "0 \<in> bits (bitmap s)"
  shows "\<exists>s' rs. run_ops physicalPageAlloc physicalPageFree ops s [] = Inr (s', rs) \<and>
    disjoint_runs (extent 4096) rs"
proof -
  have ok: "page_runs_ok s []" by (simp add: page_runs_ok_def runs_marked_def assms)
  show ?thesis using pages.run_ops_returns [OF ok] pages.run_ops_disjoint [OF ok] by blast
qed

theorem page_sequences_disjoint_witness:
  "\<exists>s' rs. run_ops physicalPageAlloc physicalPageFree
       [Alloc 2, Alloc 3, Release 1, Alloc 1] example_pmm [] = Inr (s', rs) \<and>
     disjoint_runs (extent 4096) rs"
  by (rule page_sequences_disjoint) (simp_all add: example_pmm_ok)

section \<open>Initialisation\<close>

lemma allocateRegion_holds:
  assumes "unat start div 4096 + unat len div 4096 \<le> 8 * length (bitmap s)"
  shows "holds (allocateRegion start len s)
    (\<lambda>s'. \<exists>bm. s' = s\<lparr>bitmap := bm\<rparr> \<and> length bm = length (bitmap s) \<and>
       bits bm = bits (bitmap s) \<union> {unat start div 4096..<unat start div 4096 + unat len div 4096})"
proof -
  let ?i = "start div PAGESIZE" and ?n = "start div PAGESIZE + len div PAGESIZE"
  have "unat start < 2 ^ 64" and "unat len < 2 ^ 64" by (rule unat_less_u64)+
  then have "unat (start div PAGESIZE) + unat (len div PAGESIZE) < 2 ^ 64" by (simp add: unat_div)
  from unat_add_u64 [OF this]
  have u: "unat ?i = unat start div 4096" "unat ?n = unat start div 4096 + unat len div 4096"
    by (simp_all add: unat_div)
  have "holds (each_u64 (\<lambda>i bm. set_loc bm i) ?i ?n (bitmap s))
    (\<lambda>bm. 8 * length bm = 8 * length (bitmap s) \<and>
       bits bm = bits (bitmap s) \<union> {unat ?i..<unat ?n})"
    by (rule bm.mark_range) (simp_all add: word_le_nat_alt u assms)
  then show ?thesis by (auto simp: allocateRegion_def wp u elim!: holds_mono)
qed

lemma memory_bitmap_swap [simp]:
  "s\<lparr>totalDetectedMemory := n, bitmap := bm\<rparr> = s\<lparr>bitmap := bm, totalDetectedMemory := n\<rparr>"
  by (cases s) simp

text \<open>The pages \<open>initPMM\<close> marks for the entries of the memory map, and what it leaves.\<close>

definition reserved :: "mmapEntry_t list \<Rightarrow> nat set" where
  "reserved mmap =
     (\<Union>e \<in> {e \<in> set mmap. e_type e \<noteq> 1}.
        {unat (e_base e) div 4096..<unat (e_base e) div 4096 + unat (e_length e) div 4096})"

lemma reserved_snoc:
  "reserved (mmap @ [e]) = reserved mmap \<union> (if e_type e = 1 then {} else
     {unat (e_base e) div 4096..<unat (e_base e) div 4096 + unat (e_length e) div 4096})"
  by (auto simp: reserved_def)

definition mmap_fits :: "mmapEntry_t list \<Rightarrow> nat \<Rightarrow> bool" where
  "mmap_fits mmap n \<longleftrightarrow> (\<forall>e \<in> set mmap. e_type e \<noteq> 1 \<longrightarrow>
     unat (e_base e) div 4096 + unat (e_length e) div 4096 \<le> n)"

lemma initPMM_entries:
  assumes "mmap_fits mmap (8 * length (bitmap s))" and "unat n \<le> length mmap"
  shows "holds (each_u64 (\<lambda>i s.
          and_then (fetch mmap i) (\<lambda>e.
            let s' = s\<lparr>totalDetectedMemory := totalDetectedMemory s + e_length e\<rparr> in
            if e_type e \<noteq> 1 then allocateRegion (e_base e) (e_length e) s' else Inr s'))
          0 n s)
    (\<lambda>s'. \<exists>bm. s' = s\<lparr>bitmap := bm, totalDetectedMemory :=
         totalDetectedMemory s + sum_list (map e_length (take (unat n) mmap))\<rparr> \<and>
       length bm = length (bitmap s) \<and> bits bm = bits (bitmap s) \<union> reserved (take (unat n) mmap))"
proof (rule each_u64_holds [where I = "\<lambda>i s'. \<exists>bm. s' = s\<lparr>bitmap := bm, totalDetectedMemory :=
         totalDetectedMemory s + sum_list (map e_length (take (unat i) mmap))\<rparr> \<and>
       length bm = length (bitmap s) \<and> bits bm = bits (bitmap s) \<union> reserved (take (unat i) mmap)"])
  show "\<exists>bm. s = s\<lparr>bitmap := bm, totalDetectedMemory :=
         totalDetectedMemory s + sum_list (map e_length (take (unat (0 :: u64)) mmap))\<rparr> \<and>
       length bm = length (bitmap s) \<and> bits bm = bits (bitmap s) \<union> reserved (take (unat (0 :: u64)) mmap)"
    by (simp add: reserved_def exI [of _ "bitmap s"])
next
  fix i s'
  assume lt: "i < n" and "\<exists>bm. s' = s\<lparr>bitmap := bm, totalDetectedMemory :=
         totalDetectedMemory s + sum_list (map e_length (take (unat i) mmap))\<rparr> \<and>
       length bm = length (bitmap s) \<and> bits bm = bits (bitmap s) \<union> reserved (take (unat i) mmap)"
  then obtain bm where s': "s' = s\<lparr>bitmap := bm, totalDetectedMemory :=
         totalDetectedMemory s + sum_list (map e_length (take (unat i) mmap))\<rparr>"
    and bm: "length bm = length (bitmap s)" "bits bm = bits (bitmap s) \<union> reserved (take (unat i) mmap)"
    by blast
  have i: "unat i < length mmap" using lt assms(2) by (simp add: word_less_nat_alt)
  let ?e = "mmap ! unat i"
  have up: "take (unat (i + 1)) mmap = take (unat i) mmap @ [?e]"
    using i by (simp add: unat_plus_1 [OF lt] take_Suc_conv_app_nth)
  show "holds (and_then (fetch mmap i) (\<lambda>e.
            let s'' = s'\<lparr>totalDetectedMemory := totalDetectedMemory s' + e_length e\<rparr> in
            if e_type e \<noteq> 1 then allocateRegion (e_base e) (e_length e) s'' else Inr s''))
     (\<lambda>s'. \<exists>bm. s' = s\<lparr>bitmap := bm, totalDetectedMemory :=
         totalDetectedMemory s + sum_list (map e_length (take (unat (i + 1)) mmap))\<rparr> \<and>
       length bm = length (bitmap s) \<and>
       bits bm = bits (bitmap s) \<union> reserved (take (unat (i + 1)) mmap))"
  proof (cases "e_type ?e = 1")
    case True
    then show ?thesis
      using i bm by (auto simp: wp up s' reserved_snoc add.assoc)
  next
    case False
    let ?s = "s'\<lparr>totalDetectedMemory := totalDetectedMemory s' + e_length ?e\<rparr>"
    have fits: "unat (e_base ?e) div 4096 + unat (e_length ?e) div 4096 \<le> 8 * length (bitmap ?s)"
      using assms(1) False i bm(1) by (auto simp: mmap_fits_def s')
    have "holds (allocateRegion (e_base ?e) (e_length ?e) ?s)
      (\<lambda>s'. \<exists>bm. s' = s\<lparr>bitmap := bm, totalDetectedMemory :=
         totalDetectedMemory s + sum_list (map e_length (take (unat (i + 1)) mmap))\<rparr> \<and>
       length bm = length (bitmap s) \<and>
       bits bm = bits (bitmap s) \<union> reserved (take (unat (i + 1)) mmap))"
      using allocateRegion_holds [OF fits]
      by (rule holds_mono) (use False bm in \<open>auto simp: up s' reserved_snoc add.assoc Un_assoc\<close>)
    then show ?thesis using False i by (simp add: wp)
  qed
qed (use assms in auto)

lemma initPMM_holds:
  assumes "console_ready s" and "totalDetectedMemory s = 0"
    and "unat (mmapEntries b) \<le> length mmap"
    and "mmap_fits mmap (8 * length (bitmap s))" and "0x120 \<le> 8 * length (bitmap s)"
  shows "holds (initPMM b mmap s) (\<lambda>s'.
    length (bitmap s') = length (bitmap s) \<and>
    bits (bitmap s') = bits (bitmap s) \<union> reserved (take (unat (mmapEntries b)) mmap) \<union> {..<0x120} \<and>
    totalDetectedMemory s' = sum_list (map e_length (take (unat (mmapEntries b)) mmap)) \<and>
    pageAllocLock s' = pageAllocLock s \<and> console_ready s' \<and> pmm_state.more s' = pmm_state.more s)"
proof -
  let ?mmap = "take (unat (mmapEntries b)) mmap" and ?n = "ucast (mmapEntries b) :: u64"
  have memset: "memset (bitmap s) 0 (totalDetectedMemory s div PAGESIZE) = Inr (bitmap s)"
    by (simp add: assms(2) memset_def each_u64_stop)
  have n: "unat ?n = unat (mmapEntries b)" by (simp add: unat_ucast_up)
  let ?post = "\<lambda>s'. length (bitmap s') = length (bitmap s) \<and>
    bits (bitmap s') = bits (bitmap s) \<union> reserved ?mmap \<union> {..<0x120} \<and>
    totalDetectedMemory s' = sum_list (map e_length ?mmap) \<and> pageAllocLock s' = pageAllocLock s"
  let ?Q = "\<lambda>s'. ?post s' \<and> console_ready s' \<and> pmm_state.more s' = pmm_state.more s"
  have print: "holds (kprintDS (cstr ''[KMM]'') (cstr str) args s') ?Q"
    if "?Q s'" and "message ''[KMM]'' str" and "render str args = Some out" for s' str args out
    by (rule kprintDS_keeps [OF _ that(2,3)]) (use that(1) in \<open>auto simp: console_ready_def\<close>)
  have m: "message ''[KMM]'' ''Physical Memory Manager initalized''"
    "message ''[KMM]'' ''Total Detected Memory: %d bytes''"
    "render ''Physical Memory Manager initalized'' [] = Some ''Physical Memory Manager initalized''"
    "\<exists>out. render ''Total Detected Memory: %d bytes'' [VaLong w] = Some out" for w
    by (simp_all add: message_def)
  have low: "holds (allocateRegion 0 (0x100000 + 0x20000) s') ?Q"
    if "\<exists>bm. s' = s\<lparr>bitmap := bm, totalDetectedMemory := sum_list (map e_length ?mmap)\<rparr> \<and>
       length bm = length (bitmap s) \<and> bits bm = bits (bitmap s) \<union> reserved ?mmap" for s'
  proof -
    from that obtain bm where
      s': "s' = s\<lparr>bitmap := bm, totalDetectedMemory := sum_list (map e_length ?mmap)\<rparr>"
      "length bm = length (bitmap s)" "bits bm = bits (bitmap s) \<union> reserved ?mmap"
      by (elim exE conjE)
    have fits: "unat (0 :: u64) div 4096 + unat (0x100000 + 0x20000 :: u64) div 4096 \<le> 8 * length (bitmap s')"
      using assms(5) s'(2) by (simp add: s'(1))
    have "{unat (0 :: u64) div 4096..<unat (0 :: u64) div 4096 + unat (0x100000 + 0x20000 :: u64) div 4096} =
        {..<0x120}"
      by (simp add: atLeast0LessThan)
    with allocateRegion_holds [OF fits] show ?thesis
      by (elim holds_mono) (use s' assms(1) in \<open>auto simp: console_ready_def\<close>)
  qed
  have "holds (initPMM b mmap s) ?Q"
    unfolding initPMM_def memset and_then_simps
  proof (rule holds_bind [OF initPMM_entries], goal_cases)
    case (3 s1)
    then have "\<exists>bm. s1 = s\<lparr>bitmap := bm, totalDetectedMemory := sum_list (map e_length ?mmap)\<rparr> \<and>
       length bm = length (bitmap s) \<and> bits bm = bits (bitmap s) \<union> reserved ?mmap"
      by (simp add: n assms(2))
    then show ?case
      by (rule holds_bind [OF low])
         (rule holds_bind [OF print [OF _ m(1,3)]], assumption, insert m(4), blast intro: print [OF _ m(2)])
  qed (use assms n in simp_all)
  then show ?thesis by (rule holds_mono) simp
qed

text \<open>
  At boot (no memory detected yet) \<open>initPMM\<close> marks the pages below \<open>0x120000\<close> and the
  whole pages of every reserved entry of the memory map, counts every entry into the
  detected memory, and keeps every bit the memory under the bitmap already held: the
  \<open>memset\<close> runs with a count of 0.
\<close>

theorem initPMM_reserves:
  assumes "console_ready s" and "totalDetectedMemory s = 0"
    and "unat (mmapEntries b) \<le> length mmap"
    and "mmap_fits mmap (8 * length (bitmap s))" and "0x120 \<le> 8 * length (bitmap s)"
  shows "holds (initPMM b mmap s) (\<lambda>s'.
    length (bitmap s') = length (bitmap s) \<and>
    bits (bitmap s') = bits (bitmap s) \<union> reserved (take (unat (mmapEntries b)) mmap) \<union> {..<0x120} \<and>
    totalDetectedMemory s' = sum_list (map e_length (take (unat (mmapEntries b)) mmap)) \<and>
    pageAllocLock s' = pageAllocLock s)"
  by (rule holds_mono [OF initPMM_holds [OF assms]]) simp

theorem initPMM_reserves_witness:
  "\<exists>s'. initPMM \<lparr>mmapAddress = 0, mmapEntries = 2, b_rsdp = 0, b_pitch = 0, b_width = 0,
       b_height = 0, b_bpp = 0, b_framebuffer = 0\<rparr>
      [\<lparr>e_base = 0, e_length = 0x9fc00, e_type = 1, e_unused = 0\<rparr>,
       \<lparr>e_base = 0x130000, e_length = 0x2000, e_type = 2, e_unused = 0\<rparr>]
      (example_pmm\<lparr>bitmap := replicate 64 0, totalDetectedMemory := 0\<rparr>) = Inr s' \<and>
    bits (bitmap s') = {0x130..<0x132} \<union> {..<0x120} \<and> totalDetectedMemory s' = 0xA1C00"
proof -
  let ?b = "\<lparr>mmapAddress = 0, mmapEntries = 2, b_rsdp = 0, b_pitch = 0, b_width = 0,
       b_height = 0, b_bpp = 0, b_framebuffer = 0\<rparr> :: bproto_t"
  let ?mmap = "[\<lparr>e_base = 0, e_length = 0x9fc00, e_type = 1, e_unused = 0\<rparr>,
       \<lparr>e_base = 0x130000, e_length = 0x2000, e_type = 2, e_unused = 0\<rparr>] :: mmapEntry_t list"
  let ?s = "example_pmm\<lparr>bitmap := replicate 64 0, totalDetectedMemory := 0\<rparr>"
  have "{e \<in> set ?mmap. e_type e \<noteq> 1} = {\<lparr>e_base = 0x130000, e_length = 0x2000, e_type = 2, e_unused = 0\<rparr>}"
    by auto
  then have res: "reserved ?mmap = {0x130..<0x132}" by (simp add: reserved_def)
  have "holds (initPMM ?b ?mmap ?s) (\<lambda>s'.
    length (bitmap s') = length (bitmap ?s) \<and>
    bits (bitmap s') = bits (bitmap ?s) \<union> reserved (take (unat (mmapEntries ?b)) ?mmap) \<union> {..<0x120} \<and>
    totalDetectedMemory s' = sum_list (map e_length (take (unat (mmapEntries ?b)) ?mmap)) \<and>
    pageAllocLock s' = pageAllocLock ?s)"
  proof (rule initPMM_reserves)
   show "console_ready ?s" by (simp add: example_pmm_def console_ready_def)
   show "totalDetectedMemory ?s = 0" by simp
   show "unat (mmapEntries ?b) \<le> length ?mmap" by simp
   show "0x120 \<le> 8 * length (bitmap ?s)" by simp
   show "mmap_fits ?mmap (8 * length (bitmap ?s))" by (simp add: mmap_fits_def)
  qed
  then show ?thesis by (elim holdsE) (simp add: res)
qed

end
