(* ===== verification/Kernel_Heap.thy ===== *)
theory Kernel_Heap
  imports Physical_Pages
begin

text \<open>
  The kernel heap, \<^verbatim>\<open>kernel/mm/kHeap.c\<close>: 1 MiB in blocks of 32 bytes, a bitmap with one bit
  per block and a table with one entry per allocation. \<open>kbitmap s\<close> and \<open>allocationBitmap s\<close>
  are the objects behind the two pointers (one page; 16 pages, that is 16384 entries), \<open>mem s\<close>
  the memory the kernel moves data in, by address and quadword.
  \<open>heap_ok\<close> is the invariant (the marked blocks are exactly the blocks of the table entries,
  which do not overlap); the interpretation \<open>kheap\<close> of \<open>run_allocator\<close> gives the property of
  sequences of calls. The last section states where the code departs from its contract.
\<close>

definition BLOCKSIZE :: u64 where
  "BLOCKSIZE = 32"

record allocation_t =
  a_block :: u16
  a_size :: u16

record heap_state = pmm_state +
  mem :: "u64 \<Rightarrow> u64"
  kHeapBegin :: u64
  kbitmap :: "u8 list"
  kbitmapSize :: u64
  kbitmapAddr :: u64
  allocationBitmap :: "allocation_t list"
  allocationBitmapSize :: u64
  allocationBitmapAddr :: u64

section \<open>The functions\<close>

text \<open>The two \<open>memset\<close> calls clear whole objects; the second one is counted in bytes, four
  per entry.\<close>

definition kHeapInit :: "'a heap_state_scheme \<Rightarrow> 'a heap_state_scheme result" where
  "kHeapInit s =
     and_then (physicalPageAlloc 0x100 s) (\<lambda>(p, s).
     and_then (physicalPageAlloc 1 (s\<lparr>kHeapBegin := p\<rparr>)) (\<lambda>(p, s).
     and_then (physicalPageAlloc 16
       (s\<lparr>kbitmapSize := 0x100000 div BLOCKSIZE, kbitmapAddr := p + HIGH_VMA\<rparr>)) (\<lambda>(p, s).
     let s = s\<lparr>allocationBitmapSize := 0x100000 div 4, allocationBitmapAddr := p + HIGH_VMA\<rparr> in
     and_then (memset (kbitmap s) 0 0x1000) (\<lambda>bm.
     and_then
       (each_u64 (\<lambda>i tab. store tab i \<lparr>a_block = 0, a_size = 0\<rparr>) 0 (0x10000 div 4)
         (allocationBitmap s))
       (\<lambda>tab.
       kprintDS (cstr ''[KMM]'') (cstr ''kHeap initalized'') []
         (s\<lparr>kbitmap := bm, allocationBitmap := tab\<rparr>))))))"

definition firstFreeSlot :: "'a heap_state_scheme \<Rightarrow> u64 result" where
  "firstFreeSlot s =
     and_then
       (for_s64 (\<lambda>i (_ :: unit).
          and_then (isset (kbitmap s) i) (\<lambda>u. Inr (if \<not> u then Exit i else Next ())))
          0 (kbitmapSize s) ())
       (\<lambda>f. case f of Exit i \<Rightarrow> Inr i | Next _ \<Rightarrow> Inr (- 1))"

definition firstFreeAllocationSlot :: "'a heap_state_scheme \<Rightarrow> u64 result" where
  "firstFreeAllocationSlot s =
     and_then (search_s64 (\<lambda>e. a_size e = 0) (allocationBitmap s) (allocationBitmapSize s))
       (\<lambda>f. case f of Exit i \<Rightarrow> Inr i | Next _ \<Rightarrow> Inr (- 1))"

definition kmalloc :: "u64 \<Rightarrow> 'a heap_state_scheme \<Rightarrow> (u64 \<times> 'a heap_state_scheme) result" where
  "kmalloc sz s =
     (let blockCount = ROUNDUP sz 32 in
     and_then (firstFreeSlot s) (\<lambda>first.
     and_then (firstFreeSlot s) (\<lambda>start.
     and_then
       (for_s64 (\<lambda>i (cnt, base).
          and_then (isset (kbitmap s) i) (\<lambda>u.
            if u then Inr (Next (0, base + (cnt + 1) * BLOCKSIZE))
            else if cnt + 1 = blockCount then
              and_then (firstFreeAllocationSlot s) (\<lambda>slot.
              and_then (store (allocationBitmap s) slot
                 \<lparr>a_block = ucast (base div 32), a_size = ucast blockCount\<rparr>) (\<lambda>tab.
              and_then
                (each_s64 (\<lambda>j bm. set_loc bm (base div BLOCKSIZE + j)) 0 blockCount (kbitmap s))
                (\<lambda>bm. Inr (Exit (base, tab, bm)))))
            else Inr (Next (cnt + 1, base))))
          start (kbitmapSize s) (0 :: u64, first * BLOCKSIZE))
       (\<lambda>f. case f of
          Exit (base, tab, bm) \<Rightarrow>
            Inr (base + kHeapBegin s + HIGH_VMA, s\<lparr>kbitmap := bm, allocationBitmap := tab\<rparr>)
        | Next _ \<Rightarrow>
            and_then (kprintDS (cstr ''[KMM]'') (cstr ''Error out of pages'') [] s)
              (\<lambda>s. Inr (0, s))))))"

definition kfree :: "u64 \<Rightarrow> 'a heap_state_scheme \<Rightarrow> (u64 \<times> 'a heap_state_scheme) result" where
  "kfree addr s =
     (let bitmapBase = (addr - HIGH_VMA - kHeapBegin s) div 32 in
     and_then
       (search_s64 (\<lambda>e. ucast (a_block e) = bitmapBase) (allocationBitmap s)
         (allocationBitmapSize s))
       (\<lambda>f.
     let i = (case f of Exit i \<Rightarrow> i | Next _ \<Rightarrow> allocationBitmapSize s) in
     and_then (fetch (allocationBitmap s) i) (\<lambda>e.
     let sizeOfAllocation = ucast (a_size e) in
     and_then
       (each_u64 (\<lambda>j bm. clear_loc bm j) bitmapBase (bitmapBase + sizeOfAllocation) (kbitmap s))
       (\<lambda>bm.
     and_then (store (allocationBitmap s) i \<lparr>a_block = 0, a_size = 0\<rparr>) (\<lambda>tab.
       Inr (sizeOfAllocation, s\<lparr>kbitmap := bm, allocationBitmap := tab\<rparr>))))))"

definition krealloc ::
  "u64 \<Rightarrow> u64 \<Rightarrow> 'a heap_state_scheme \<Rightarrow> (u64 \<times> 'a heap_state_scheme) result"
where
  "krealloc addr sz s =
     and_then (kfree addr s) (\<lambda>(sizeOfAllocation, s).
     and_then (kmalloc (sizeOfAllocation + sz) s) (\<lambda>(newAddr, s).
     and_then (memcpy64 newAddr addr sizeOfAllocation (mem s)) (\<lambda>m.
       Inr (newAddr, s\<lparr>mem := m\<rparr>))))"

text \<open>What no call touches, whatever its outcome: the state of the components above the heap.\<close>

lemma heap_more_console:
  "console_state.more s' = console_state.more s \<Longrightarrow> heap_state.more s' = heap_state.more s"
  by (cases s; cases s') simp

lemma kmalloc_more:
  fixes s :: "'a heap_state_scheme"
  assumes "kmalloc sz s = Inr (a, s')"
  shows "heap_state.more s' = heap_state.more s"
proof -
  obtain f :: "(u64 \<times> u64, u64 \<times> allocation_t list \<times> u8 list) flow" where
    "(case f of
        Exit (base, tab, bm) \<Rightarrow>
          Inr (base + kHeapBegin s + HIGH_VMA, s\<lparr>kbitmap := bm, allocationBitmap := tab\<rparr>)
      | Next _ \<Rightarrow> and_then (kprintDS (cstr ''[KMM]'') (cstr ''Error out of pages'') [] s)
          (\<lambda>s. Inr (0, s))) = Inr (a, s')"
    using assms unfolding kmalloc_def Let_def and_then_eq_Inr_iff by blast
  then show ?thesis
    by (cases f) (auto simp: and_then_eq_Inr_iff simp del: cstr_simps dest!: kprintDS_more heap_more_console)
qed

lemma kfree_more: "kfree addr s = Inr (n, s') \<Longrightarrow> heap_state.more s' = heap_state.more s"
  by (auto simp: kfree_def Let_def and_then_eq_Inr_iff)

lemma krealloc_more: "krealloc addr sz s = Inr (a, s') \<Longrightarrow> heap_state.more s' = heap_state.more s"
  by (auto simp: krealloc_def and_then_eq_Inr_iff dest!: kfree_more kmalloc_more)

section \<open>The invariant\<close>

definition entry_blocks :: "allocation_t \<Rightarrow> nat set" where
  "entry_blocks e = {unat (a_block e)..<unat (a_block e) + unat (a_size e)}"

definition table_blocks :: "allocation_t list \<Rightarrow> nat set" where
  "table_blocks tab = (\<Union>e \<in> set tab. entry_blocks e)"

definition table_ok :: "allocation_t list \<Rightarrow> bool" where
  "table_ok tab \<longleftrightarrow> length tab = 16384 \<and>
     (\<forall>e \<in> set tab. unat (a_block e) + unat (a_size e) \<le> 32768 \<and> (a_size e = 0 \<longrightarrow> a_block e = 0)) \<and>
     (\<forall>i < length tab. \<forall>j < length tab. i \<noteq> j \<longrightarrow> entry_blocks (tab ! i) \<inter> entry_blocks (tab ! j) = {})"

definition heap_ok :: "'a heap_state_scheme \<Rightarrow> bool" where
  "heap_ok s \<longleftrightarrow> length (kbitmap s) = 4096 \<and> kbitmapSize s = 32768 \<and>
     allocationBitmapSize s = 262144 \<and> table_ok (allocationBitmap s) \<and>
     bits (kbitmap s) = table_blocks (allocationBitmap s)"

lemma entry_blocks_free [simp]: "a_size e = 0 \<Longrightarrow> entry_blocks e = {}"
  by (simp add: entry_blocks_def)

lemma table_blocks_nth: "table_blocks tab = (\<Union>j < length tab. entry_blocks (tab ! j))"
  by (auto simp: table_blocks_def in_set_conv_nth intro: nth_mem)

text \<open>Replacing a table entry.\<close>

lemma table_blocks_update:
  assumes "k < length tab"
    and "\<And>j. j < length tab \<Longrightarrow> j \<noteq> k \<Longrightarrow> entry_blocks (tab ! k) \<inter> entry_blocks (tab ! j) = {}"
  shows "table_blocks (tab[k := e]) = table_blocks tab - entry_blocks (tab ! k) \<union> entry_blocks e"
proof -
  have other: "x \<in> table_blocks tab \<and> x \<notin> entry_blocks (tab ! k) \<longleftrightarrow>
      (\<exists>j < length tab. j \<noteq> k \<and> x \<in> entry_blocks (tab ! j))" for x
    using assms unfolding table_blocks_nth by blast
  have "x \<in> table_blocks (tab[k := e]) \<longleftrightarrow>
      x \<in> entry_blocks e \<or> (\<exists>j < length tab. j \<noteq> k \<and> x \<in> entry_blocks (tab ! j))" for x
    using assms(1) by (auto simp: table_blocks_nth nth_list_update split: if_splits)
  then show ?thesis using other by blast
qed

lemma table_ok_update:
  assumes "table_ok tab" and "k < length tab"
    and "unat (a_block e) + unat (a_size e) \<le> 32768" and "a_size e = 0 \<longrightarrow> a_block e = 0"
    and "entry_blocks e \<inter> (table_blocks tab - entry_blocks (tab ! k)) = {}"
  shows "table_ok (tab[k := e])"
proof -
  have e: "entry_blocks e \<inter> entry_blocks (tab ! j) = {}" if "j < length tab" "j \<noteq> k" for j
  proof -
    have "entry_blocks (tab ! j) \<inter> entry_blocks (tab ! k) = {}"
      using assms(1,2) that by (simp add: table_ok_def)
    moreover have "entry_blocks (tab ! j) \<subseteq> table_blocks tab"
      using that(1) by (auto simp: table_blocks_nth)
    ultimately show ?thesis using assms(5) by blast
  qed
  have "entry_blocks (tab[k := e] ! i) \<inter> entry_blocks (tab[k := e] ! j) = {}"
    if "i < length tab" "j < length tab" "i \<noteq> j" for i j
    using that assms(1) e [of i] e [of j]
    by (cases "i = k"; cases "j = k") (simp_all add: table_ok_def Int_commute)
  then show ?thesis
    using assms by (auto simp: table_ok_def dest!: set_update_subset_insert [THEN subsetD])
qed

section \<open>kmalloc\<close>

lemma unat_BLOCKSIZE [simp]: "unat BLOCKSIZE = 32"
  by (simp add: BLOCKSIZE_def)

lemma heap_okD:
  assumes "heap_ok s"
  shows "length (kbitmap s) = 4096" and "kbitmapSize s = 32768" and "allocationBitmapSize s = 262144"
    and "table_ok (allocationBitmap s)" and "length (allocationBitmap s) = 16384"
    and "bits (kbitmap s) = table_blocks (allocationBitmap s)"
  using assms by (simp_all add: heap_ok_def table_ok_def)

lemma firstFreeSlot_holds:
  assumes "heap_ok s"
  shows "holds (firstFreeSlot s) (\<lambda>f.
    if {..<32768} \<subseteq> bits (kbitmap s) then f = - 1
    else unat f < 32768 \<and> {..<unat f} \<subseteq> bits (kbitmap s) \<and> unat f \<notin> bits (kbitmap s))"
proof -
  have "unat (32768 :: u64) \<le> 8 * length (kbitmap s)" using heap_okD [OF assms] by simp
  from bm.find_unmarked [OF this] show ?thesis
    unfolding firstFreeSlot_def holds_and_then heap_okD(2) [OF assms]
    by (subst for_s64_eq_for_u64)
       (auto simp: word_less_nat_alt elim!: holds_mono split: flow.splits)
qed

lemma firstFreeAllocationSlot_hit:
  assumes "heap_ok s" and "\<exists>e \<in> set (allocationBitmap s). a_size e = 0"
  shows "\<exists>k < 16384. a_size (allocationBitmap s ! k) = 0 \<and> firstFreeAllocationSlot s = Inr (of_nat k)"
proof -
  let ?tab = "allocationBitmap s" and ?P = "\<lambda>e. a_size e = (0 :: u16)"
  define k where "k = (LEAST k. k < length ?tab \<and> ?P (?tab ! k))"
  have k: "k < length ?tab \<and> ?P (?tab ! k)"
    unfolding k_def by (rule LeastI_ex) (use assms(2) in \<open>auto simp: in_set_conv_nth\<close>)
  have "\<not> ?P (?tab ! j)" if "j < k" for j
    using not_less_Least [of j "\<lambda>k. k < length ?tab \<and> ?P (?tab ! k)"] that k by (auto simp: k_def)
  then have "search ?P ?tab 262144 = Inr (Exit (of_nat k))"
    using k heap_okD [OF assms(1)] by (intro search_hit) auto
  then show ?thesis
    using k heap_okD [OF assms(1)]
    by (auto simp: firstFreeAllocationSlot_def search_s64_eq intro!: exI [of _ k])
qed

lemma firstFreeAllocationSlot_full:
  assumes "heap_ok s" and "\<forall>e \<in> set (allocationBitmap s). a_size e \<noteq> 0"
  shows "firstFreeAllocationSlot s = Inl OutOfBounds"
proof -
  have "search (\<lambda>e. a_size e = 0) (allocationBitmap s) 262144 = Inl OutOfBounds"
    using assms heap_okD [OF assms(1)] by (intro search_overrun) auto
  then show ?thesis
    using heap_okD [OF assms(1)] by (simp add: firstFreeAllocationSlot_def search_s64_eq)
qed

lemma ROUNDUP_32_less: "unat (ROUNDUP sz 32) < 2 ^ 59"
  using unat_less_u64 [of "sz + (32 - 1)"]
  by (simp add: ROUNDUP_def unat_div div_less_iff_less_mult del: diff_numeral_simps)

text \<open>The call, on a heap that is not full, is the search followed by the bookkeeping.\<close>

definition kmalloc_take ::
  "nat \<Rightarrow> u64 \<Rightarrow> 'a heap_state_scheme \<Rightarrow> (u64 \<times> 'a heap_state_scheme) result"
where
  "kmalloc_take p n s =
     and_then (firstFreeAllocationSlot s) (\<lambda>slot.
     and_then (store (allocationBitmap s) slot \<lparr>a_block = of_nat p, a_size = ucast n\<rparr>) (\<lambda>tab.
     and_then (each_u64 (\<lambda>j bm. set_loc bm (of_nat p + j)) 0 n (kbitmap s)) (\<lambda>bm.
       Inr (of_nat (32 * p) + kHeapBegin s + HIGH_VMA, s\<lparr>kbitmap := bm, allocationBitmap := tab\<rparr>))))"

lemma kmalloc_eq:
  assumes ok: "heap_ok s" and space: "\<not> {..<32768} \<subseteq> bits (kbitmap s)"
  shows "kmalloc sz s =
    (case first_fit (bits (kbitmap s)) 32768 (unat (ROUNDUP sz 32)) of
       None \<Rightarrow> and_then (kprintDS (cstr ''[KMM]'') (cstr ''Error out of pages'') [] s) (\<lambda>s. Inr (0, s))
     | Some p \<Rightarrow> kmalloc_take p (ROUNDUP sz 32) s)"
proof -
  let ?n = "ROUNDUP sz 32"
  let ?found = "\<lambda>base :: u64. and_then (firstFreeAllocationSlot s) (\<lambda>slot.
      and_then (store (allocationBitmap s) slot \<lparr>a_block = ucast (base div 32), a_size = ucast ?n\<rparr>) (\<lambda>tab.
      and_then (each_s64 (\<lambda>j bm. set_loc bm (base div BLOCKSIZE + j)) 0 ?n (kbitmap s))
        (\<lambda>bm. Inr (Exit (base, tab, bm)))))"
  obtain first where first: "firstFreeSlot s = Inr first"
    and f: "unat first < 32768" "{..<unat first} \<subseteq> bits (kbitmap s)"
    using firstFreeSlot_holds [OF ok] space by (auto elim!: holdsE)
  have leaves: "?found base \<noteq> Inr (Next st)" for base and st :: "u64 \<times> u64"
    by (auto simp: and_then_def split: sum.splits)
  have cap: "unat (32768 :: u64) \<le> 8 * length (kbitmap s)" using heap_okD [OF ok] by simp
  have le: "first \<le> 32768" using f(1) by (simp add: word_le_nat_alt)
  obtain st where loop: "for_u64 (\<lambda>i (cnt, base).
         and_then (isset (kbitmap s) i) (\<lambda>u.
           if u then Inr (Next (0, base + (cnt + 1) * BLOCKSIZE))
           else if cnt + 1 = ?n then ?found base
           else Inr (Next (cnt + 1, base))))
         first 32768 (0 :: u64, first * BLOCKSIZE) =
       (case first_fit (bits (kbitmap s)) 32768 (unat ?n) of
          None \<Rightarrow> Inr (Next st)
        | Some p \<Rightarrow> ?found (of_nat p * BLOCKSIZE))"
    using bm.scan_loop [where found = ?found and stride = BLOCKSIZE and count = ?n,
        OF cap le f(2) leaves] by auto
  have signed: "for_s64 body first 32768 s0 = for_u64 body first 32768 s0" for body
      and s0 :: "u64 \<times> u64"
    by (rule for_s64_eq_for_u64) (use f(1) in simp_all)
  show ?thesis
  proof (cases "first_fit (bits (kbitmap s)) 32768 (unat ?n)")
    case None
    then show ?thesis
      using loop by (simp add: kmalloc_def Let_def first heap_okD(2) [OF ok] signed)
  next
    case (Some p)
    then have p: "p < 32768" by (auto simp: first_fit_Some_iff run_free_def)
    then have u: "unat (of_nat p :: u64) = p" by (intro unat_of_nat_u64) simp
    have "of_nat p * BLOCKSIZE div BLOCKSIZE = of_nat p"
      using p by (intro stride_base) (simp_all add: u)
    then have base: "of_nat p * (32 :: u64) div 32 = of_nat p" by (simp add: BLOCKSIZE_def)
    have mark: "each_s64 body 0 ?n (kbitmap s) = each_u64 body 0 ?n (kbitmap s)" for body
      by (rule each_s64_eq_each_u64) (use ROUNDUP_32_less [of sz] in simp_all)
    have block: "ucast (of_nat p :: u64) = (of_nat p :: u16)"
      using p by (simp add: word_unat_eq_iff unsigned_ucast_eq u unat_of_nat_small take_bit_nat_eq_self)
    show ?thesis
      using loop Some
      by (simp add: kmalloc_def kmalloc_take_def Let_def first heap_okD(2) [OF ok] signed
          and_then_assoc BLOCKSIZE_def base mark block mult.commute)
  qed
qed

definition block_addr :: "'a heap_state_scheme \<Rightarrow> nat \<Rightarrow> u64" where
  "block_addr s p = of_nat (32 * p) + kHeapBegin s + HIGH_VMA"

text \<open>What a successful call does to the state.\<close>

definition took ::
  "nat \<Rightarrow> nat \<Rightarrow> 'a heap_state_scheme \<Rightarrow> u64 \<times> 'a heap_state_scheme \<Rightarrow> bool"
where
  "took p n s r \<longleftrightarrow> (\<exists>bm k e. r = (block_addr s p,
       s\<lparr>kbitmap := bm, allocationBitmap := (allocationBitmap s)[k := e]\<rparr>) \<and>
     k < 16384 \<and> a_size (allocationBitmap s ! k) = 0 \<and>
     unat (a_block e) = p \<and> unat (a_size e) = n \<and>
     bits bm = bits (kbitmap s) \<union> {p..<p + n} \<and> heap_ok (snd r))"

lemma kmalloc_take_holds:
  assumes ok: "heap_ok s" and slot: "\<exists>e \<in> set (allocationBitmap s). a_size e = 0"
    and fit: "first_fit (bits (kbitmap s)) 32768 (unat n) = Some p"
  shows "holds (kmalloc_take p n s) (took p (unat n) s)"
proof -
  have run: "0 < unat n" "p + unat n \<le> 32768" "{p..<p + unat n} \<inter> bits (kbitmap s) = {}"
    using fit by (auto simp: first_fit_Some_iff run_free_def)
  obtain k where k: "k < 16384" "a_size (allocationBitmap s ! k) = 0"
    "firstFreeAllocationSlot s = Inr (of_nat k)"
    using firstFreeAllocationSlot_hit [OF ok slot] by blast
  have uk: "unat (of_nat k :: u64) = k" and up: "unat (of_nat p :: u64) = p"
    using k(1) run by (intro unat_of_nat_u64, simp)+
  let ?e = "\<lparr>a_block = of_nat p, a_size = ucast n\<rparr> :: allocation_t"
  have e: "unat (a_block ?e) = p" "unat (a_size ?e) = unat n"
    using run by (simp_all add: unat_of_nat_small unsigned_ucast_eq take_bit_nat_eq_self)
  let ?tab = "(allocationBitmap s)[k := ?e]"
  have e_blocks: "entry_blocks ?e = {p..<p + unat n}" unfolding entry_blocks_def e ..
  have "holds (each_u64 (\<lambda>j bm. set_loc bm (of_nat p + j)) 0 n (kbitmap s))
        (\<lambda>bm. 8 * length bm = 8 * length (kbitmap s) \<and>
           bits bm = bits (kbitmap s) \<union> {unat (of_nat p :: u64)..<unat (of_nat p :: u64) + unat n})"
    by (rule bm.mark_run) (use run heap_okD [OF ok] up in simp_all)
  then obtain bm where mark: "each_u64 (\<lambda>j bm. set_loc bm (of_nat p + j)) 0 n (kbitmap s) = Inr bm"
    and bm: "length bm = 4096" "bits bm = bits (kbitmap s) \<union> {p..<p + unat n}"
    using heap_okD(1) [OF ok] up by (auto elim!: holdsE)
  have "table_ok ?tab"
    by (rule table_ok_update)
       (use heap_okD [OF ok] k e_blocks run e in \<open>auto simp: word_unat_eq_iff\<close>)
  moreover have "table_blocks ?tab = table_blocks (allocationBitmap s) \<union> {p..<p + unat n}"
    using heap_okD(5) [OF ok] k by (subst table_blocks_update) (auto simp: e_blocks)
  ultimately have "heap_ok (s\<lparr>kbitmap := bm, allocationBitmap := ?tab\<rparr>)"
    using ok bm by (simp add: heap_ok_def)
  moreover have "kmalloc_take p n s =
      Inr (block_addr s p, s\<lparr>kbitmap := bm, allocationBitmap := ?tab\<rparr>)"
    using k uk mark heap_okD(5) [OF ok] by (simp add: kmalloc_take_def store_def block_addr_def)
  ultimately show ?thesis
    using k e bm by (auto simp: took_def intro!: exI [of _ k] exI [of _ ?e])
qed

lemma heap_ok_console [simp]:
  "heap_ok (s\<lparr>serial := t\<rparr>) = heap_ok s" "heap_ok (s\<lparr>itobBuffer := b\<rparr>) = heap_ok s"
  by (simp_all add: heap_ok_def)

lemma out_of_pages:
  assumes "console_ready s"
  shows "\<exists>s'. kprintDS (cstr ''[KMM]'') (cstr ''Error out of pages'') [] s = Inr s' \<and>
    printed (header ''[KMM]'' @ ''Error out of pages'' @ [CHR 0x0A]) s s'"
proof -
  have "holds (kprintDS (cstr ''[KMM]'') (cstr ''Error out of pages'') [] s)
      (printed (header ''[KMM]'' @ ''Error out of pages'' @ [CHR 0x0A]) s)"
    by (rule kprintDS_plain) (simp_all add: assms message_def)
  then show ?thesis by (auto elim!: holdsE)
qed

text \<open>
  C5: on a heap that is not full and has a free table entry, \<open>kmalloc\<close> returns: the first run
  of as many free blocks as the rounded size asks for, at its address, marked and entered in
  the table with the invariant kept; or 0 with the heap unchanged (only the error message is
  printed) when there is no such run.
\<close>

theorem kmalloc_first_fit:
  assumes "heap_ok s" and "console_ready s"
    and "\<not> {..<32768} \<subseteq> bits (kbitmap s)" and "\<exists>e \<in> set (allocationBitmap s). a_size e = 0"
  shows "\<exists>a s'. kmalloc sz s = Inr (a, s') \<and>
    (case first_fit (bits (kbitmap s)) 32768 (unat (ROUNDUP sz 32)) of
       None \<Rightarrow> a = 0 \<and> printed (header ''[KMM]'' @ ''Error out of pages'' @ [CHR 0x0A]) s s'
     | Some p \<Rightarrow> took p (unat (ROUNDUP sz 32)) s (a, s'))"
proof (cases "first_fit (bits (kbitmap s)) 32768 (unat (ROUNDUP sz 32))")
  case None
  then show ?thesis
    using out_of_pages [OF assms(2)] by (auto simp: kmalloc_eq [OF assms(1,3)] simp del: cstr_simps)
next
  case (Some p)
  then show ?thesis
    using kmalloc_take_holds [OF assms(1,4) Some]
    by (auto simp: kmalloc_eq [OF assms(1,3)] elim!: holdsE)
qed

lemma kmalloc_full:
  assumes "heap_ok s" and "{..<32768} \<subseteq> bits (kbitmap s)"
  shows "kmalloc sz s = Inl OutOfBounds"
proof -
  have first: "firstFreeSlot s = Inr (- 1)"
    using firstFreeSlot_holds [OF assms(1)] assms(2) by (auto elim!: holdsE)
  have "isset (kbitmap s) (- 1) = Inl OutOfBounds"
    using heap_okD(1) [OF assms(1)] by (simp add: isset_def fetch_def unat_div)
  moreover have "- 1 <s (32768 :: u64)" by (simp add: word_sless_alt)
  ultimately show ?thesis
    by (simp add: kmalloc_def Let_def first heap_okD(2) [OF assms(1)] for_s64_step)
qed

text \<open>
  On a heap whose blocks are all taken, \<open>kmalloc\<close> does not return 0: both calls of
  \<open>firstFreeSlot\<close> give -1, the signed loop starts at bit -1 and reads the bitmap outside its
  page.
\<close>

theorem kmalloc_full_heap:
  assumes "heap_ok s" and "{..<32768} \<subseteq> bits (kbitmap s)"
  shows "kmalloc sz s = Inl OutOfBounds"
  using assms by (rule kmalloc_full)

text \<open>With every entry of the table in use, an allocation that finds its blocks reads past the
  16 pages of the table: \<open>allocationBitmapSize\<close> counts 262144 entries.\<close>

lemma kmalloc_table_overrun:
  assumes "heap_ok s" and "\<forall>e \<in> set (allocationBitmap s). a_size e \<noteq> 0"
    and "first_fit (bits (kbitmap s)) 32768 (unat (ROUNDUP sz 32)) = Some p"
  shows "kmalloc sz s = Inl OutOfBounds"
proof -
  have "p < 32768" "p \<notin> bits (kbitmap s)"
    using assms(3) by (auto simp: first_fit_Some_iff run_free_def)
  then have "\<not> {..<32768} \<subseteq> bits (kbitmap s)" by auto
  from kmalloc_eq [OF assms(1) this] show ?thesis
    using assms(3) firstFreeAllocationSlot_full [OF assms(1,2)] by (simp add: kmalloc_take_def)
qed

section \<open>kfree\<close>

lemma block_addr_inverse:
  assumes "p < 32768"
  shows "(block_addr s p - HIGH_VMA - kHeapBegin s) div 32 = of_nat p"
proof -
  have "unat (of_nat (32 * p) :: u64) = 32 * p" using assms by (intro unat_of_nat_u64) simp
  then have "unat (of_nat (32 * p) div 32 :: u64) = p" by (simp add: unat_div)
  moreover have "unat (of_nat p :: u64) = p" using assms by (intro unat_of_nat_u64) simp
  ultimately have "of_nat (32 * p) div 32 = (of_nat p :: u64)" by (simp only: word_unat_eq_iff)
  then show ?thesis by (simp add: block_addr_def)
qed

text \<open>\<open>kfree\<close> at an address whose block the entry \<open>k\<close> is the first to name.\<close>

definition freed ::
  "nat \<Rightarrow> 'a heap_state_scheme \<Rightarrow> u64 \<times> 'a heap_state_scheme \<Rightarrow> bool"
where
  "freed k s r \<longleftrightarrow> (\<exists>bm. r = (ucast (a_size (allocationBitmap s ! k)),
       s\<lparr>kbitmap := bm,
         allocationBitmap := (allocationBitmap s)[k := \<lparr>a_block = 0, a_size = 0\<rparr>]\<rparr>) \<and>
     bits bm = bits (kbitmap s) - entry_blocks (allocationBitmap s ! k) \<and> heap_ok (snd r))"

lemma kfree_entry:
  assumes ok: "heap_ok s" and k: "k < 16384" "unat (a_block (allocationBitmap s ! k)) = p"
    and least: "\<And>j. j < k \<Longrightarrow> unat (a_block (allocationBitmap s ! j)) \<noteq> p"
    and p: "p < 32768"
  shows "holds (kfree (block_addr s p) s) (freed k s)"
proof -
  let ?tab = "allocationBitmap s"
  let ?e = "?tab ! k" and ?zero = "\<lparr>a_block = 0, a_size = 0\<rparr>"
  have up: "unat (of_nat p :: u64) = p" and uk: "unat (of_nat k :: u64) = k"
    using p k(1) by (intro unat_of_nat_u64, simp)+
  have eq: "ucast (a_block e) = (of_nat p :: u64) \<longleftrightarrow> unat (a_block e) = p" for e
    by (simp add: word_unat_eq_iff unat_ucast_up up)
  have search: "search (\<lambda>e. ucast (a_block e) = (of_nat p :: u64)) ?tab 262144 = Inr (Exit (of_nat k))"
    by (rule search_hit) (use k least heap_okD [OF ok] in \<open>auto simp: eq\<close>)
  have e: "unat (a_block ?e) + unat (a_size ?e) \<le> 32768"
    using heap_okD(4,5) [OF ok] k(1) by (simp add: table_ok_def)
  have n: "unat (of_nat p + ucast (a_size ?e) :: u64) = p + unat (a_size ?e)"
    using e k(2) by (subst unat_add_u64) (simp_all add: unat_ucast_up up)
  have e_blocks: "entry_blocks ?e = {p..<p + unat (a_size ?e)}" unfolding entry_blocks_def k(2) ..
  have "holds (each_u64 (\<lambda>j bm. clear_loc bm j) (of_nat p) (of_nat p + ucast (a_size ?e)) (kbitmap s))
    (\<lambda>bm. 8 * length bm = 8 * length (kbitmap s) \<and>
       bits bm = bits (kbitmap s) - {unat (of_nat p :: u64)..<unat (of_nat p + ucast (a_size ?e) :: u64)})"
    by (rule bm.unmark_range) (use heap_okD(1) [OF ok] e k(2) in \<open>simp_all add: word_le_nat_alt n up\<close>)
  then obtain bm where clear: "each_u64 (\<lambda>j bm. clear_loc bm j) (of_nat p)
      (of_nat p + ucast (a_size ?e)) (kbitmap s) = Inr bm"
    and bm: "length bm = 4096" "bits bm = bits (kbitmap s) - entry_blocks ?e"
    using heap_okD(1) [OF ok] up n by (auto simp: e_blocks elim!: holdsE)
  have "table_ok (?tab[k := ?zero])"
    by (rule table_ok_update) (use heap_okD [OF ok] k in simp_all)
  moreover have "table_blocks (?tab[k := ?zero]) = table_blocks ?tab - entry_blocks ?e"
  proof (subst table_blocks_update)
    show "entry_blocks ?e \<inter> entry_blocks (?tab ! j) = {}" if "j < length ?tab" "j \<noteq> k" for j
      using heap_okD(4,5) [OF ok] that k(1) by (simp add: table_ok_def)
  qed (use heap_okD(5) [OF ok] k in simp_all)
  ultimately have "heap_ok (s\<lparr>kbitmap := bm, allocationBitmap := ?tab[k := ?zero]\<rparr>)"
    using ok bm by (simp add: heap_ok_def)
  moreover have "kfree (block_addr s p) s =
      Inr (ucast (a_size ?e), s\<lparr>kbitmap := bm, allocationBitmap := ?tab[k := ?zero]\<rparr>)"
    using search clear k(1) heap_okD [OF ok]
    by (simp add: kfree_def Let_def block_addr_inverse [OF p] search_s64_eq fetch_def store_def uk)
  ultimately show ?thesis using bm by (auto simp: freed_def)
qed

text \<open>Only one entry names a block other than 0.\<close>

lemma entry_unique:
  assumes ok: "heap_ok s" and "k < 16384" and "j < 16384"
    and "a_block (allocationBitmap s ! j) = a_block (allocationBitmap s ! k)"
    and "a_block (allocationBitmap s ! k) \<noteq> 0"
  shows "j = k"
proof (rule ccontr)
  let ?tab = "allocationBitmap s"
  assume "j \<noteq> k"
  then have "entry_blocks (?tab ! j) \<inter> entry_blocks (?tab ! k) = {}"
    using heap_okD(4,5) [OF ok] assms(2,3) by (simp add: table_ok_def)
  moreover have "a_size (?tab ! i) \<noteq> 0" if "i < 16384" "a_block (?tab ! i) \<noteq> 0" for i
    using heap_okD(4,5) [OF ok] that by (auto simp: table_ok_def)
  then have "unat (a_block (?tab ! k)) \<in> entry_blocks (?tab ! i)"
    if "i < 16384" "a_block (?tab ! i) = a_block (?tab ! k)" for i
    using that assms(5) by (simp add: entry_blocks_def unat_gt_0)
  then have "unat (a_block (?tab ! k)) \<in> entry_blocks (?tab ! j) \<inter> entry_blocks (?tab ! k)"
    using assms by blast
  ultimately show False by blast
qed

lemma kfree_live_holds:
  assumes ok: "heap_ok s" and "k < 16384" and "a_block (allocationBitmap s ! k) \<noteq> 0"
  shows "holds (kfree (block_addr s (unat (a_block (allocationBitmap s ! k)))) s) (freed k s)"
proof (rule kfree_entry [OF ok assms(2) refl])
  let ?tab = "allocationBitmap s"
  show "unat (a_block (?tab ! k)) < 32768"
  proof -
    have "a_size (?tab ! k) \<noteq> 0" "unat (a_block (?tab ! k)) + unat (a_size (?tab ! k)) \<le> 32768"
      using heap_okD(4,5) [OF ok] assms(2,3) by (auto simp: table_ok_def)
    then show ?thesis using unat_gt_0 [of "a_size (?tab ! k)"] by linarith
  qed
  show "unat (a_block (?tab ! j)) \<noteq> unat (a_block (?tab ! k))" if "j < k" for j
    using entry_unique [OF ok assms(2) _ _ assms(3), of j] that assms(2)
    by (auto simp: word_unat_eq_iff)
qed

text \<open>
  \<open>kfree\<close> of an allocation that does not start at block 0 returns the number of its
  blocks, unmarks exactly these, clears its table entry and keeps the invariant.
\<close>

theorem kfree_live:
  assumes "heap_ok s" and "k < 16384" and "a_block (allocationBitmap s ! k) \<noteq> 0"
  shows "\<exists>r. kfree (block_addr s (unat (a_block (allocationBitmap s ! k)))) s = Inr r \<and> freed k s r"
  using kfree_live_holds [OF assms] by (auto elim: holdsE)

text \<open>
  \<open>kfree\<close> of the allocation at the start of the heap frees nothing when a free entry
  precedes its own in the table: cleared entries read as block 0, the search stops at the
  first of them, 0 is returned and every block stays marked.
\<close>

theorem kfree_block_0_leaks:
  assumes "heap_ok s" and "j < k" and "k < 16384"
    and "a_size (allocationBitmap s ! j) = 0"
    and "a_block (allocationBitmap s ! k) = 0" and "a_size (allocationBitmap s ! k) \<noteq> 0"
  shows "\<exists>s'. kfree (block_addr s 0) s = Inr (0, s') \<and> bits (kbitmap s') = bits (kbitmap s) \<and>
    allocationBitmap s' ! k = allocationBitmap s ! k \<and> heap_ok s'"
proof -
  let ?tab = "allocationBitmap s"
  define i where "i = (LEAST i. a_block (?tab ! i) = 0)"
  have j0: "a_block (?tab ! j) = 0" if "j < 16384" "a_size (?tab ! j) = 0" for j
    using heap_okD(4,5) [OF assms(1)] that by (simp add: table_ok_def)
  then have jb: "a_block (?tab ! j) = 0" using assms by simp
  then have i0: "a_block (?tab ! i) = 0" unfolding i_def by (rule LeastI)
  have "i \<le> j" unfolding i_def by (rule Least_le) (rule jb)
  then have i: "i < 16384" "i \<noteq> k" using assms(2,3) by simp_all
  have "a_size (?tab ! i) = 0"
  proof (rule ccontr)
    assume "a_size (?tab ! i) \<noteq> 0"
    then have "0 \<in> entry_blocks (?tab ! i) \<inter> entry_blocks (?tab ! k)"
      using i0 assms(5,6) by (simp add: entry_blocks_def unat_gt_0)
    then show False
      using heap_okD(4,5) [OF assms(1)] i assms(3) by (auto simp: table_ok_def)
  qed
  moreover have "holds (kfree (block_addr s 0) s) (freed i s)"
  proof (rule kfree_entry [OF assms(1) i(1)])
    show "unat (a_block (?tab ! i)) = 0" by (simp add: i0)
    show "unat (a_block (?tab ! j)) \<noteq> 0" if "j < i" for j
      using not_less_Least [OF that [unfolded i_def]] by (simp add: unat_eq_zero)
  qed simp
  ultimately show ?thesis using i by (auto simp: freed_def elim!: holdsE)
qed

text \<open>
  \<open>kfree\<close> of an address whose block no entry names (no entry being free, or the block not
  being 0) reads past the table: the search runs up to \<open>allocationBitmapSize\<close>.
\<close>

theorem kfree_unknown:
  assumes "heap_ok s"
    and "\<forall>e \<in> set (allocationBitmap s). ucast (a_block e) \<noteq> (addr - HIGH_VMA - kHeapBegin s) div 32"
  shows "kfree addr s = Inl OutOfBounds"
proof -
  have "search (\<lambda>e. ucast (a_block e) = (addr - HIGH_VMA - kHeapBegin s) div 32)
      (allocationBitmap s) 262144 = Inl OutOfBounds"
    by (rule search_overrun) (use assms heap_okD [OF assms(1)] in auto)
  then show ?thesis
    using heap_okD [OF assms(1)] by (simp add: kfree_def Let_def search_s64_eq)
qed

section \<open>The contract of the heap\<close>

text \<open>The heap lies in the memory that \<open>HIGH_VMA\<close> maps.\<close>

definition heap_placed :: "'a heap_state_scheme \<Rightarrow> bool" where
  "heap_placed s \<longleftrightarrow> unat (kHeapBegin s) + 0x100000 \<le> 2 ^ 47"

definition block_run :: "u64 \<Rightarrow> u64 \<times> u64 \<Rightarrow> nat set" where
  "block_run begin r =
     (let b = unat ((fst r - HIGH_VMA - begin) div 32) in {b..<b + unat (ROUNDUP (snd r) 32)})"

text \<open>An allocation the client holds, and the table entry that records it.\<close>

definition recorded :: "'a heap_state_scheme \<Rightarrow> u64 \<times> u64 \<Rightarrow> allocation_t \<Rightarrow> bool" where
  "recorded s r e \<longleftrightarrow> fst r = block_addr s (unat (a_block e)) \<and> a_size e \<noteq> 0 \<and>
     unat (a_size e) = unat (ROUNDUP (snd r) 32) \<and> unat (snd r) \<le> 32 * unat (a_size e)"

lemma recorded_console [simp]:
  "recorded (s\<lparr>serial := t\<rparr>) r e = recorded s r e"
  "recorded (s\<lparr>itobBuffer := b\<rparr>) r e = recorded s r e"
  by (simp_all add: recorded_def block_addr_def)

definition heap_runs_ok :: "'a heap_state_scheme \<Rightarrow> (u64 \<times> u64) list \<Rightarrow> bool" where
  "heap_runs_ok s rs \<longleftrightarrow> heap_ok s \<and> console_ready s \<and> heap_placed s \<and>
     (\<forall>r \<in> set rs. \<exists>e \<in> set (allocationBitmap s). recorded s r e) \<and>
     runs_marked (block_run (kHeapBegin s)) (bits (kbitmap s)) rs"

definition kfree_run :: "u64 \<Rightarrow> u64 \<Rightarrow> 'a heap_state_scheme \<Rightarrow> 'a heap_state_scheme result" where
  "kfree_run a c s = and_then (kfree a s) (\<lambda>(n, s'). Inr s')"

lemma unat_block_addr:
  assumes "heap_placed s" and "p < 32768"
  shows "unat (block_addr s p) = 32 * p + unat (kHeapBegin s) + 0xffff800000000000"
proof -
  have p: "unat (of_nat (32 * p) :: u64) = 32 * p" using assms(2) by (intro unat_of_nat_u64) simp
  have h: "unat HIGH_VMA = 0xffff800000000000" by (simp add: HIGH_VMA_def)
  have q: "unat (of_nat (32 * p) + kHeapBegin s) = 32 * p + unat (kHeapBegin s)"
    using assms by (subst unat_add_u64) (simp_all only: p, simp add: heap_placed_def)
  show ?thesis
    unfolding block_addr_def using assms
    by (subst unat_add_u64) (simp_all only: q h, simp add: heap_placed_def)
qed

lemma entry_bound:
  assumes "heap_ok s" and "e \<in> set (allocationBitmap s)"
  shows "unat (a_block e) + unat (a_size e) \<le> 32768" and "unat (a_block e) < 32768"
    and "a_size e = 0 \<Longrightarrow> a_block e = 0"
proof -
  have e: "unat (a_block e) + unat (a_size e) \<le> 32768" "a_size e = 0 \<longrightarrow> a_block e = 0"
    using heap_okD(4) [OF assms(1)] assms(2) by (simp_all add: table_ok_def)
  show "unat (a_block e) + unat (a_size e) \<le> 32768" "a_size e = 0 \<Longrightarrow> a_block e = 0" using e by simp_all
  show "unat (a_block e) < 32768"
  proof (cases "a_size e = 0")
    case False
    then show ?thesis using e(1) unat_gt_0 [of "a_size e"] by linarith
  qed (use e(2) in simp)
qed

lemma block_run_recorded:
  assumes "heap_ok s" and "e \<in> set (allocationBitmap s)" and "recorded s r e"
  shows "block_run (kHeapBegin s) r = entry_blocks e" and "entry_blocks e \<noteq> {}"
proof -
  have p: "unat (a_block e) < 32768" by (rule entry_bound [OF assms(1,2)])
  have "unat (of_nat (unat (a_block e)) :: u64) = unat (a_block e)"
    using p by (intro unat_of_nat_u64) simp
  then show "block_run (kHeapBegin s) r = entry_blocks e"
    using assms(3) p
    by (simp add: block_run_def recorded_def block_addr_inverse entry_blocks_def Let_def)
  have "a_size e \<noteq> 0" using assms(3) by (simp add: recorded_def)
  then show "entry_blocks e \<noteq> {}" by (simp add: entry_blocks_def unat_gt_0)
qed

lemma ROUNDUP_32_covers:
  assumes "0 < unat (ROUNDUP c 32)"
  shows "unat c \<le> 32 * unat (ROUNDUP c 32)"
proof -
  have r: "unat (ROUNDUP c 32) = (unat c + 31) mod 2 ^ 64 div 32"
    by (simp add: ROUNDUP_def unat_div unat_word_ariths)
  show ?thesis
  proof (cases "unat c + 31 < 2 ^ 64")
    case True
    then show ?thesis unfolding r by simp
  next
    case False
    then have "(unat c + 31) mod 2 ^ 64 = unat c + 31 - 2 ^ 64"
      using unat_less_u64 [of c] by (subst mod_if) simp
    then have "unat (ROUNDUP c 32) = 0" unfolding r using unat_less_u64 [of c] by simp
    then show ?thesis using assms by simp
  qed
qed

lemma extent_block_run:
  assumes "heap_ok s" and "heap_placed s" and "e \<in> set (allocationBitmap s)" and "recorded s r e"
    and "x \<in> extent 1 r"
  shows "(x - (unat (kHeapBegin s) + 0xffff800000000000)) div 32 \<in> block_run (kHeapBegin s) r"
    and "unat (kHeapBegin s) + 0xffff800000000000 \<le> x"
proof -
  let ?K = "unat (kHeapBegin s) + 0xffff800000000000"
  have a: "unat (fst r) = 32 * unat (a_block e) + ?K" "unat (snd r) \<le> 32 * unat (a_size e)"
    using assms(4) unat_block_addr [OF assms(2) entry_bound(2) [OF assms(1,3)]]
    by (simp_all add: recorded_def)
  from assms(5) have x: "32 * unat (a_block e) + ?K \<le> x" "x < 32 * unat (a_block e) + ?K + unat (snd r)"
    by (simp_all add: extent_def a)
  then show "?K \<le> x" by simp
  from x a(2) have "32 * unat (a_block e) \<le> x - ?K"
    and "x - ?K < 32 * (unat (a_block e) + unat (a_size e))" by simp_all
  then show "(x - ?K) div 32 \<in> block_run (kHeapBegin s) r"
    unfolding block_run_recorded(1) [OF assms(1,3,4)]
    by (auto simp: entry_blocks_def less_mult_imp_div_less div_le_mono mult.commute
        dest: div_le_mono [of _ _ 32])
qed

lemma kmalloc_runs_ok:
  assumes ok: "heap_runs_ok s rs" and call: "kmalloc c s = Inr (a, s')"
  shows "heap_runs_ok s' (if a = 0 then rs else (a, c) # rs)"
proof -
  from ok have h: "heap_ok s" and console: "console_ready s" and placed: "heap_placed s"
    by (simp_all add: heap_runs_ok_def)
  let ?n = "ROUNDUP c 32"
  have space: "\<not> {..<32768} \<subseteq> bits (kbitmap s)" using kmalloc_full [OF h] call by auto
  show ?thesis
  proof (cases "first_fit (bits (kbitmap s)) 32768 (unat ?n)")
    case None
    then have p: "printed (header ''[KMM]'' @ ''Error out of pages'' @ [CHR 0x0A]) s s'" and "a = 0"
      using out_of_pages [OF console] call
      by (auto simp: kmalloc_eq [OF h space] simp del: cstr_simps)
    then show ?thesis
      using ok console_ready_printed [OF p console]
      by (auto simp: heap_runs_ok_def printed_def heap_placed_def)
  next
    case (Some p)
    with call have take: "kmalloc_take p ?n s = Inr (a, s')" by (simp add: kmalloc_eq [OF h space])
    have slot: "\<exists>e \<in> set (allocationBitmap s). a_size e = 0"
    proof (rule ccontr)
      assume "\<not> ?thesis"
      then have "kmalloc_take p ?n s = Inl OutOfBounds"
        using firstFreeAllocationSlot_full [OF h] by (simp add: kmalloc_take_def)
      with take show False by simp
    qed
    from holds_InrD [OF kmalloc_take_holds [OF h slot Some] take]
    obtain bm k e where s': "a = block_addr s p"
        "s' = s\<lparr>kbitmap := bm, allocationBitmap := (allocationBitmap s)[k := e]\<rparr>"
      and k: "k < 16384" "a_size (allocationBitmap s ! k) = 0"
      and e: "unat (a_block e) = p" "unat (a_size e) = unat ?n"
      and bm: "bits bm = bits (kbitmap s) \<union> {p..<p + unat ?n}" and h': "heap_ok s'"
      by (auto simp: took_def)
    have run: "0 < unat ?n" "p + unat ?n \<le> 32768" "{p..<p + unat ?n} \<inter> bits (kbitmap s) = {}"
      using Some by (auto simp: first_fit_Some_iff run_free_def)
    have addr: "block_addr s' q = block_addr s q" for q by (simp add: s' block_addr_def)
    have mem_e: "e \<in> set (allocationBitmap s')"
      using k heap_okD(5) [OF h] by (auto simp: s'(2) set_update_memI)
    have rec: "recorded s' (a, c) e"
      using e run(1) ROUNDUP_32_covers [OF run(1)] by (auto simp: recorded_def addr s'(1))
    have old: "\<exists>e \<in> set (allocationBitmap s'). recorded s' r e" if "r \<in> set rs" for r
    proof -
      obtain e' where e': "e' \<in> set (allocationBitmap s)" "recorded s r e'"
        using ok \<open>r \<in> set rs\<close> by (auto simp: heap_runs_ok_def)
      then obtain j where "j < 16384" "allocationBitmap s ! j = e'"
        using heap_okD(5) [OF h] by (auto simp: in_set_conv_nth)
      moreover from this have "j \<noteq> k" using k e'(2) by (auto simp: recorded_def)
      ultimately have "e' \<in> set (allocationBitmap s')"
        using heap_okD(5) [OF h] by (auto simp: s'(2) in_set_conv_nth intro!: exI [of _ j])
      then show ?thesis using e'(2) by (auto simp: recorded_def addr)
    qed
    have a: "a \<noteq> 0"
      using unat_block_addr [OF placed, of p] run by (auto simp: s'(1))
    have r: "block_run (kHeapBegin s) (a, c) = {p..<p + unat ?n}"
      using block_run_recorded(1) [OF h' mem_e rec] e by (simp add: s'(2) entry_blocks_def)
    have "runs_marked (block_run (kHeapBegin s)) (bits bm) ((a, c) # rs)"
      unfolding bm r [symmetric]
      by (rule runs_marked_add) (use ok run(3) r in \<open>auto simp: heap_runs_ok_def\<close>)
    then show ?thesis
      using h' console placed old mem_e rec a
      by (auto simp: heap_runs_ok_def s'(2) console_ready_def heap_placed_def)
  qed
qed

lemma freed_runs_ok:
  assumes ok: "heap_runs_ok s rs" and r: "(a, c) \<in> set rs" and k: "k < 16384"
    and f: "freed k s (n, s')"
    and hit: "entry_blocks (allocationBitmap s ! k) \<in> {{}, block_run (kHeapBegin s) (a, c)}"
  shows "heap_runs_ok s' (remove1 (a, c) rs)"
proof -
  let ?tab = "allocationBitmap s" and ?part = "block_run (kHeapBegin s)"
  from ok have h: "heap_ok s" and marked: "runs_marked ?part (bits (kbitmap s)) rs"
    by (simp_all add: heap_runs_ok_def)
  from f obtain bm where s': "s' = s\<lparr>kbitmap := bm,
      allocationBitmap := ?tab[k := \<lparr>a_block = 0, a_size = 0\<rparr>]\<rparr>"
    and bm: "bits bm = bits (kbitmap s) - entry_blocks (?tab ! k)" and h': "heap_ok s'"
    by (auto simp: freed_def)
  have keep: "\<exists>e \<in> set (allocationBitmap s'). recorded s' r e" if r': "r \<in> set (remove1 (a, c) rs)" for r
  proof -
    have "r \<in> set rs" using r' set_remove1_subset by (rule subsetD [rotated])
    then obtain e where e: "e \<in> set ?tab" "recorded s r e" using ok by (auto simp: heap_runs_ok_def)
    then obtain j where j: "j < 16384" "?tab ! j = e"
      using heap_okD(5) [OF h] by (auto simp: in_set_conv_nth)
    have "?part r \<inter> ?part (a, c) = {}"
      using marked r r' disjoint_runs_rest [of ?part rs "(a, c)" r]
      by (auto simp: runs_marked_def Int_commute)
    then have "j \<noteq> k" using hit block_run_recorded [OF h e] j(2) by auto
    then have "e \<in> set (allocationBitmap s')"
      using j heap_okD(5) [OF h] by (auto simp: s' in_set_conv_nth intro!: exI [of _ j])
    then show ?thesis using e(2) by (auto simp: s' recorded_def block_addr_def)
  qed
  have "runs_marked ?part (bits bm) (remove1 (a, c) rs)"
  proof (cases "entry_blocks (?tab ! k) = {}")
    case True
    with marked show ?thesis
      using set_remove1_subset [of "(a, c)" rs]
      by (auto simp: bm runs_marked_def disjoint_runs_remove1)
  next
    case False
    with hit have "entry_blocks (?tab ! k) = ?part (a, c)" by simp
    then show ?thesis unfolding bm using runs_marked_remove [OF marked r] by simp
  qed
  then show ?thesis
    using ok h' keep by (auto simp: heap_runs_ok_def s' console_ready_def heap_placed_def)
qed

lemma kfree_run_runs_ok:
  assumes ok: "heap_runs_ok s rs" and r: "(a, c) \<in> set rs"
  shows "holds (kfree_run a c s) (\<lambda>s'. heap_runs_ok s' (remove1 (a, c) rs))"
proof -
  let ?tab = "allocationBitmap s"
  from ok have h: "heap_ok s" by (simp add: heap_runs_ok_def)
  obtain e where e: "e \<in> set ?tab" "recorded s (a, c) e" using ok r by (auto simp: heap_runs_ok_def)
  obtain j where j: "j < 16384" "?tab ! j = e"
    using e(1) heap_okD(5) [OF h] by (auto simp: in_set_conv_nth)
  define i where "i = (LEAST i. a_block (?tab ! i) = a_block e)"
  have i: "a_block (?tab ! i) = a_block e"
    unfolding i_def by (rule LeastI [of _ j]) (simp add: j(2))
  have "i \<le> j" unfolding i_def by (rule Least_le) (simp add: j(2))
  then have i_less: "i < 16384" using j(1) by simp
  have a: "a = block_addr s (unat (a_block e))" using e(2) by (simp add: recorded_def)
  have free: "holds (kfree a s) (freed i s)"
    unfolding a
  proof (rule kfree_entry [OF h i_less])
    show "unat (a_block (?tab ! l)) \<noteq> unat (a_block e)" if "l < i" for l
      using not_less_Least [OF that [unfolded i_def]] by (simp add: word_unat_eq_iff)
    show "unat (a_block e) < 32768" by (rule entry_bound [OF h e(1)])
  qed (simp add: i)
  have "entry_blocks (?tab ! i) \<in> {{}, block_run (kHeapBegin s) (a, c)}"
  proof (cases "i = j \<or> a_size (?tab ! i) = 0")
    case True
    then show ?thesis using block_run_recorded(1) [OF h e] j(2) by auto
  next
    case False
    have "a_size e \<noteq> 0" using e(2) by (simp add: recorded_def)
    with False have "unat (a_block e) \<in> entry_blocks (?tab ! i) \<inter> entry_blocks (?tab ! j)"
      using i j(2) by (simp add: entry_blocks_def unat_gt_0)
    then show ?thesis using heap_okD(4,5) [OF h] False i_less j(1) by (auto simp: table_ok_def)
  qed
  then show ?thesis
    using freed_runs_ok [OF ok r i_less] free by (auto simp: kfree_run_def wp elim!: holds_mono)
qed

interpretation kheap: run_allocator kmalloc kfree_run heap_runs_ok 1
proof unfold_locales
  fix s s' :: "'a heap_state_scheme" and rs c a
  assume ok: "heap_runs_ok s rs"
  show "heap_runs_ok s' (if a = 0 then rs else (a, c) # rs)" if "kmalloc c s = Inr (a, s')"
    using ok that by (rule kmalloc_runs_ok)
  show "heap_runs_ok s' (remove1 (a, c) rs)" if "(a, c) \<in> set rs" and "kfree_run a c s = Inr s'"
    using kfree_run_runs_ok [OF ok that(1)] that(2) by (rule holds_InrD)
  from ok have h: "heap_ok s" "heap_placed s"
    and rec: "\<And>r. r \<in> set rs \<Longrightarrow> \<exists>e \<in> set (allocationBitmap s). recorded s r e"
    by (auto simp: heap_runs_ok_def)
  have "disjoint_runs (block_run (kHeapBegin s)) rs"
    using ok by (simp add: heap_runs_ok_def runs_marked_def)
  then show "disjoint_runs (extent 1) rs"
  proof (rule disjoint_runs_mono)
    fix r r'
    assume r: "r \<in> set rs" "r' \<in> set rs"
      and d: "block_run (kHeapBegin s) r \<inter> block_run (kHeapBegin s) r' = {}"
    show "extent 1 r \<inter> extent 1 r' = {}"
      using rec [OF r(1)] rec [OF r(2)] d extent_block_run(1) [OF h] by blast
  qed
qed

text \<open>
  C6: whatever sequence of \<open>kmalloc\<close> and \<open>kfree\<close> calls runs to its end, the bytes of the
  allocations held then do not overlap (a leak of block 0 included).
\<close>

theorem heap_sequences_disjoint:
  assumes "heap_ok s" and "console_ready s" and "heap_placed s"
    and "run_ops kmalloc kfree_run ops s [] = Inr (s', rs)"
  shows "disjoint_runs (extent 1) rs \<and> heap_ok s'"
proof -
  have "heap_runs_ok s []" using assms(1-3) by (simp add: heap_runs_ok_def runs_marked_def)
  then have ok: "heap_runs_ok s' rs" using assms(4) by (rule kheap.run_ops_ok)
  show ?thesis
  proof
    show "disjoint_runs (extent 1) rs" using ok by (rule kheap.disjoint)
    show "heap_ok s'" using ok unfolding heap_runs_ok_def by (rule conjunct1)
  qed
qed

section \<open>krealloc\<close>

lemma cell_inj:
  assumes "n \<le> 0x20000000" and "i < n" and "j < n" and "i \<noteq> j"
  shows "a + 8 * of_nat i \<noteq> a + (8 :: u64) * of_nat j"
  by (rule cell_neq [where n = n]) (use assms in simp_all)

text \<open>The new run never starts inside the old one, so the forward copy is safe.\<close>

lemma first_fit_not_inside:
  assumes fit: "first_fit (used - {b..<b + n}) m q = Some p"
    and p: "b < p" "p < b + n"
  shows False
proof -
  have run: "run_free (used - {b..<b + n}) m q p"
    and least: "\<And>x. x < p \<Longrightarrow> \<not> run_free (used - {b..<b + n}) m q x"
    using fit by (auto simp: first_fit_Some_iff)
  have "run_free (used - {b..<b + n}) m q b"
    using run p unfolding run_free_def by (fastforce simp: not_less [symmetric])
  with least p(1) show False by blast
qed

lemma memcpy64_blocks:
  assumes "p < 32768" and "b < 32768" and "n \<le> 32768" and "\<not> (b < p \<and> p < b + n)"
  shows "holds (memcpy64 (block_addr s p) (block_addr s b) (of_nat n) m)
    (\<lambda>m'. (\<forall>i < n. m' (block_addr s p + 8 * of_nat i) = m (block_addr s b + 8 * of_nat i)) \<and>
       (\<forall>a. (\<forall>i < n. a \<noteq> block_addr s p + 8 * of_nat i) \<longrightarrow> m' a = m a))"
proof -
  have un: "unat (of_nat n :: u64) = n" using assms(3) by (intro unat_of_nat_u64) simp
  have "block_addr s p \<noteq> block_addr s b + 8 * of_nat k" if k: "0 < k" "k < n" for k
  proof
    assume "block_addr s p = block_addr s b + 8 * of_nat k"
    then have "(of_nat (32 * p) :: u64) = of_nat (32 * b + 8 * k)"
      by (simp add: block_addr_def algebra_simps)
    moreover have "unat (of_nat (32 * p) :: u64) = 32 * p"
      and "unat (of_nat (32 * b + 8 * k) :: u64) = 32 * b + 8 * k"
      using assms k by (intro unat_of_nat_u64, simp)+
    ultimately have "32 * p = 32 * b + 8 * k" by metis
    then show False using assms(4) k by simp
  qed
  then have "holds (copy_cells 8 (block_addr s p) (block_addr s b) (of_nat n) m)
    (\<lambda>m'. (\<forall>k < unat (of_nat n :: u64). m' (block_addr s p + 8 * of_nat k) = m (block_addr s b + 8 * of_nat k)) \<and>
       (\<forall>a. (\<forall>k < unat (of_nat n :: u64). a \<noteq> block_addr s p + 8 * of_nat k) \<longrightarrow> m' a = m a))"
    by (intro copy_cells_holds) (use assms(3) un in simp_all)
  then show ?thesis by (simp only: memcpy64_def un)
qed

text \<open>What \<open>krealloc\<close> can change at most.\<close>

definition moved :: "nat \<Rightarrow> 'a heap_state_scheme \<Rightarrow> 'a heap_state_scheme \<Rightarrow> bool" where
  "moved k s s' \<longleftrightarrow> (\<exists>m bm j e. s' = s\<lparr>mem := m, kbitmap := bm,
     allocationBitmap := (allocationBitmap s)[k := \<lparr>a_block = 0, a_size = 0\<rparr>, j := e]\<rparr>)"

lemma krealloc_holds:
  assumes ok: "heap_ok s" and console: "console_ready s"
    and k: "k < 16384" "a_block (allocationBitmap s ! k) \<noteq> 0"
    and e: "e = allocationBitmap s ! k"
    and q: "q = unat (ROUNDUP (ucast (a_size e) + sz) 32)"
    and fit: "first_fit (bits (kbitmap s) - entry_blocks e) 32768 q = Some p"
  shows "holds (krealloc (block_addr s (unat (a_block e))) sz s) (\<lambda>(a, s').
    a = block_addr s p \<and> heap_ok s' \<and> moved k s s' \<and>
    bits (kbitmap s') = bits (kbitmap s) - entry_blocks e \<union> {p..<p + q} \<and>
    (\<forall>i < unat (a_size e). mem s' (block_addr s p + 8 * of_nat i) =
       mem s (block_addr s (unat (a_block e)) + 8 * of_nat i)) \<and>
    (\<forall>a. (\<forall>i < unat (a_size e). a \<noteq> block_addr s p + 8 * of_nat i) \<longrightarrow> mem s' a = mem s a))"
proof -
  let ?n = "unat (a_size e)" and ?b = "unat (a_block e)"
  obtain bm s1 where s1: "s1 = s\<lparr>kbitmap := bm,
        allocationBitmap := (allocationBitmap s)[k := \<lparr>a_block = 0, a_size = 0\<rparr>]\<rparr>"
    and free: "kfree (block_addr s ?b) s = Inr (ucast (a_size e), s1)"
    and bm: "bits bm = bits (kbitmap s) - entry_blocks e" and ok1: "heap_ok s1"
    using kfree_live_holds [OF ok k] by (auto simp: freed_def e elim!: holdsE)
  have addr: "block_addr s1 x = block_addr s x" for x by (simp add: s1 block_addr_def)
  have m1: "mem s1 = mem s" "bits (kbitmap s1) = bits bm" by (simp_all add: s1)
  have fit1: "first_fit (bits (kbitmap s1)) 32768 (unat (ROUNDUP (ucast (a_size e) + sz) 32)) = Some p"
    using fit bm by (simp add: q s1)
  have p: "p < 32768" "p \<notin> bits (kbitmap s1)"
    using fit1 by (auto simp: first_fit_Some_iff run_free_def)
  then have space: "\<not> {..<32768} \<subseteq> bits (kbitmap s1)" by auto
  have slot: "\<exists>e \<in> set (allocationBitmap s1). a_size e = 0"
    using k(1) heap_okD(5) [OF ok] by (auto simp: s1 intro!: bexI [of _ "\<lparr>a_block = 0, a_size = 0\<rparr>"] set_update_memI)
  have e_set: "e \<in> set (allocationBitmap s)" using k(1) heap_okD(5) [OF ok] by (simp add: e)
  have b: "?b < 32768" "?n \<le> 32768" using entry_bound [OF ok e_set] by simp_all
  have "\<not> (?b < p \<and> p < ?b + ?n)"
    using first_fit_not_inside [of "bits (kbitmap s)" ?b ?n 32768 q p] fit by (auto simp: entry_blocks_def)
  note copy = memcpy64_blocks [OF p(1) b this, of s "mem s"]
  have n: "ucast (a_size e) = (of_nat ?n :: u64)" by simp
  have "holds (kmalloc (ucast (a_size e) + sz) s1) (took p q s1)"
    using kmalloc_take_holds [OF ok1 slot fit1] fit1 by (simp add: kmalloc_eq [OF ok1 space] q)
  then obtain r where r: "kmalloc (ucast (a_size e) + sz) s1 = Inr r" "took p q s1 r" by (rule holdsE)
  from r(2) obtain bm' j e' where took: "r = (block_addr s1 p, s1\<lparr>kbitmap := bm', allocationBitmap := (allocationBitmap s1)[j := e']\<rparr>)"
    "bits bm' = bits (kbitmap s1) \<union> {p..<p + q}" "heap_ok (snd r)"
    unfolding took_def by blast
  define s2 where s2_def: "s2 = s1\<lparr>kbitmap := bm', allocationBitmap := (allocationBitmap s1)[j := e']\<rparr>"
  have malloc: "kmalloc (ucast (a_size e) + sz) s1 = Inr (block_addr s p, s2)"
    and s2: "mem s2 = mem s" "bits (kbitmap s2) = bits bm \<union> {p..<p + q}" "heap_ok s2"
    using r(1) took(2,3) m1 by (simp_all add: s2_def took(1) addr)
  have moved: "moved k s (s2\<lparr>mem := m\<rparr>)" for m
    unfolding moved_def s2_def s1 by (intro exI [of _ m] exI [of _ bm'] exI [of _ j] exI [of _ e']) simp
  have mem: "heap_ok (s2\<lparr>mem := m\<rparr>) = heap_ok s2" for m by (simp add: heap_ok_def)
  show ?thesis
    using copy [folded n] by (auto simp: krealloc_def free malloc s2 wp mem moved bm elim!: holds_mono)
qed

text \<open>
  C37: on a live allocation of \<open>n\<close> blocks that does not start at block 0, \<open>krealloc\<close> frees it,
  takes the first run of \<open>(n + size + 31) / 32\<close> blocks (the old size counted in blocks, the
  new one in bytes) and copies \<open>n\<close> quadwords, a quarter of the old bytes; nothing else in
  memory changes.
\<close>

theorem krealloc_copies:
  assumes "heap_ok s" and "console_ready s"
    and "k < 16384" and "a_block (allocationBitmap s ! k) \<noteq> 0"
    and "e = allocationBitmap s ! k" and "n = unat (a_size e)"
    and "q = unat (ROUNDUP (of_nat n + sz) 32)"
    and "first_fit (bits (kbitmap s) - entry_blocks e) 32768 q = Some p"
  shows "\<exists>s'. krealloc (block_addr s (unat (a_block e))) sz s = Inr (block_addr s p, s') \<and> heap_ok s' \<and>
    bits (kbitmap s') = bits (kbitmap s) - entry_blocks e \<union> {p..<p + q} \<and>
    (\<forall>i < n. mem s' (block_addr s p + 8 * of_nat i) = mem s (block_addr s (unat (a_block e)) + 8 * of_nat i)) \<and>
    (\<forall>a. (\<forall>i < n. a \<noteq> block_addr s p + 8 * of_nat i) \<longrightarrow> mem s' a = mem s a)"
proof -
  have "q = unat (ROUNDUP (ucast (a_size e) + sz) 32)" using assms(6,7) by simp
  from krealloc_holds [OF assms(1-5) this assms(8)] show ?thesis
    unfolding assms(6) by (auto elim!: holdsE)
qed

text \<open>
  When the old allocation has more than four times as many blocks as the new one, the copy
  runs past the new allocation: the first quadword after its last block is overwritten.
\<close>

theorem krealloc_overruns:
  assumes "heap_ok s" and "console_ready s"
    and "k < 16384" and "a_block (allocationBitmap s ! k) \<noteq> 0"
    and "e = allocationBitmap s ! k" and "n = unat (a_size e)"
    and "q = unat (ROUNDUP (of_nat n + sz) 32)"
    and "first_fit (bits (kbitmap s) - entry_blocks e) 32768 q = Some p"
    and "4 * q < n"
  shows "\<exists>s'. krealloc (block_addr s (unat (a_block e))) sz s = Inr (block_addr s p, s') \<and>
    mem s' (block_addr s (p + q)) = mem s (block_addr s (unat (a_block e)) + 8 * of_nat (4 * q))"
proof -
  have q: "q = unat (ROUNDUP (ucast (a_size e) + sz) 32)" using assms(6,7) by simp
  have cell: "block_addr s p + 8 * of_nat (4 * q) = block_addr s (p + q)"
    by (simp add: block_addr_def algebra_simps)
  show ?thesis
    using krealloc_holds [OF assms(1-5) q assms(8)] assms(6,9)
    by (auto simp: cell [symmetric] simp del: of_nat_mult elim!: holdsE)
qed

section \<open>Initialisation\<close>

lemma page_runs_ok_heap [simp]:
  "page_runs_ok (s\<lparr>kHeapBegin := p\<rparr>) rs = page_runs_ok s rs"
  "page_runs_ok (s\<lparr>kbitmapSize := n\<rparr>) rs = page_runs_ok s rs"
  "page_runs_ok (s\<lparr>kbitmapAddr := p\<rparr>) rs = page_runs_ok s rs"
  by (simp_all add: page_runs_ok_def pmm_ok_def npages_def)

lemma table_empty: "table_ok (replicate 16384 \<lparr>a_block = 0, a_size = 0\<rparr>)"
  "table_blocks (replicate 16384 \<lparr>a_block = 0, a_size = 0\<rparr>) = {}"
  by (simp_all add: table_ok_def table_blocks_def)

text \<open>What an allocation leaves alone.\<close>

definition pages_only :: "'a heap_state_scheme \<Rightarrow> 'a heap_state_scheme \<Rightarrow> bool" where
  "pages_only s s' \<longleftrightarrow> (\<exists>bm. s' = s\<lparr>bitmap := bm\<rparr>)"

lemma physicalPageAlloc_heap:
  fixes s :: "'a heap_state_scheme"
  assumes "page_runs_ok s rs"
  shows "holds (physicalPageAlloc c s) (\<lambda>(a, s').
    page_runs_ok s' (if a = 0 then rs else (a, c) # rs) \<and> pages_only s s')"
proof -
  have "pmm_ok s" using assms by (simp add: page_runs_ok_def)
  then have "holds (physicalPageAlloc c s) (\<lambda>(a, s'). pages_only s s')"
    by (rule holds_mono [OF physicalPageAlloc_holds])
       (auto simp: pages_only_def elim!: alloc_resultE intro: exI [of _ "bitmap s"])
  from holds_conj [OF physicalPageAlloc_runs_ok [OF assms] this] show ?thesis
    by (rule holds_mono) auto
qed

text \<open>The address and the pages of the first fit; a failed allocation returns address 0 and takes no page.\<close>

definition run_address :: "nat option \<Rightarrow> u64" where
  "run_address r = (case r of None \<Rightarrow> 0 | Some p \<Rightarrow> of_nat (4096 * p))"

definition run_pages :: "nat option \<Rightarrow> nat \<Rightarrow> nat set" where
  "run_pages r c = (case r of None \<Rightarrow> {} | Some p \<Rightarrow> {p..<p + c})"

lemma run_address_simps [simp]:
  "run_address None = 0" "run_address (Some p) = of_nat (4096 * p)"
  "run_pages None c = {}" "run_pages (Some p) c = {p..<p + c}"
  by (simp_all add: run_address_def run_pages_def)

lemma physicalPageAlloc_fit:
  fixes s :: "'a heap_state_scheme"
  assumes "page_runs_ok s []"
  shows "holds (physicalPageAlloc c s) (\<lambda>(a, s').
    a = run_address (first_fit (bits (bitmap s)) (npages s) (unat c)) \<and>
    (\<exists>bm. s' = s\<lparr>bitmap := bm\<rparr> \<and> page_runs_ok s' [] \<and>
       bits bm = bits (bitmap s) \<union> run_pages (first_fit (bits (bitmap s)) (npages s) (unat c)) (unat c)))"
proof -
  have "pmm_ok s" using assms by (simp add: page_runs_ok_def)
  then show ?thesis
  proof (rule holds_mono [OF physicalPageAlloc_holds], clarify)
    fix a s'
    assume r: "alloc_result c s (a, s')"
    then show "a = run_address (first_fit (bits (bitmap s)) (npages s) (unat c)) \<and>
      (\<exists>bm. s' = s\<lparr>bitmap := bm\<rparr> \<and> page_runs_ok s' [] \<and>
         bits bm = bits (bitmap s) \<union> run_pages (first_fit (bits (bitmap s)) (npages s) (unat c)) (unat c))"
      using assms
      by (auto simp: alloc_result_def page_runs_ok_def runs_marked_def split: option.splits
          intro: exI [of _ "bitmap s"])
  qed
qed

text \<open>The part of \<open>kHeapInit\<close> after the allocations.\<close>

lemma kHeapInit_finish:
  fixes s :: "'a heap_state_scheme"
  assumes "console_ready s" and "length (kbitmap s) = 4096" and "length (allocationBitmap s) = 16384"
    and "kbitmapSize s = 32768" and "allocationBitmapSize s = 262144"
  shows "holds
    (and_then (memset (kbitmap s) 0 0x1000) (\<lambda>bm.
     and_then
       (each_u64 (\<lambda>i tab. store tab i \<lparr>a_block = 0, a_size = 0\<rparr>) 0 (0x10000 div 4)
         (allocationBitmap s))
       (\<lambda>tab. kprintDS (cstr ''[KMM]'') (cstr ''kHeap initalized'') []
         (s\<lparr>kbitmap := bm, allocationBitmap := tab\<rparr>))))
    (\<lambda>s'. heap_ok s' \<and> bits (kbitmap s') = {} \<and> bitmap s' = bitmap s \<and> kHeapBegin s' = kHeapBegin s \<and>
       kbitmapAddr s' = kbitmapAddr s \<and> allocationBitmapAddr s' = allocationBitmapAddr s \<and> console_ready s')"
proof -
  let ?s = "s\<lparr>kbitmap := replicate 4096 0,
      allocationBitmap := replicate 16384 \<lparr>a_block = 0, a_size = 0\<rparr>\<rparr>"
  have "holds (kprintDS (cstr ''[KMM]'') (cstr ''kHeap initalized'') [] ?s)
    (\<lambda>s'. heap_ok s' \<and> bits (kbitmap s') = {} \<and> bitmap s' = bitmap s \<and> kHeapBegin s' = kHeapBegin s \<and>
       kbitmapAddr s' = kbitmapAddr s \<and> allocationBitmapAddr s' = allocationBitmapAddr s \<and> console_ready s')"
  proof (rule kprintDS_keeps)
    show "console_ready ?s" using assms(1) by (simp add: console_ready_def)
    show "message ''[KMM]'' ''kHeap initalized''" by (simp add: message_def)
  qed (use assms table_empty in \<open>simp_all add: render_plain heap_ok_def console_ready_def\<close>)
  then show ?thesis using assms by (simp add: memset_eq fill_holds)
qed

text \<open>One allocation of a sequence, for the callers that allocate several runs.\<close>

lemma alloc_step:
  fixes s :: "'a heap_state_scheme"
  assumes "page_runs_ok s []" and "f = first_fit (bits (bitmap s)) (npages s) (unat c)"
    and "\<And>bm. page_runs_ok (s\<lparr>bitmap := bm\<rparr>) [] \<Longrightarrow> bits bm = bits (bitmap s) \<union> run_pages f (unat c) \<Longrightarrow>
      holds (k (run_address f, s\<lparr>bitmap := bm\<rparr>)) Q"
  shows "holds (and_then (physicalPageAlloc c s) k) Q"
  by (rule holds_bind [OF physicalPageAlloc_fit [OF assms(1)]]) (use assms in auto)

lemma kHeapInit_holds:
  fixes s :: "'a heap_state_scheme"
  assumes ok: "page_runs_ok s []" and ready: "console_ready s"
    and len: "length (kbitmap s) = 4096" "length (allocationBitmap s) = 16384"
    and f1: "f1 = first_fit (bits (bitmap s)) (npages s) 0x100" "u1 = bits (bitmap s) \<union> run_pages f1 0x100"
    and f2: "f2 = first_fit u1 (npages s) 1" "u2 = u1 \<union> run_pages f2 1"
    and f3: "f3 = first_fit u2 (npages s) 16"
  shows "holds (kHeapInit s) (\<lambda>s'. heap_ok s' \<and> bits (kbitmap s') = {} \<and> console_ready s' \<and>
    kHeapBegin s' = run_address f1 \<and> kbitmapAddr s' = run_address f2 + HIGH_VMA \<and>
    allocationBitmapAddr s' = run_address f3 + HIGH_VMA \<and> bits (bitmap s') = u2 \<union> run_pages f3 16)"
  unfolding kHeapInit_def
proof (rule alloc_step [OF ok], simp add: f1(1), unfold prod.case, rule alloc_step [where f = f2], goal_cases)
  case (3 b1 b2)
  then have b2: "bits b2 = u2" "page_runs_ok (s\<lparr>bitmap := b2\<rparr>) []" by (simp_all add: f1 f2 page_runs_ok_def pmm_ok_def npages_def)
  show ?case
    unfolding prod.case
  proof (rule alloc_step [where f = f3], goal_cases)
    case (3 b3)
    then have b3: "bits b3 = u2 \<union> run_pages f3 16" by (simp add: b2)
    show ?case
      unfolding prod.case Let_def
      by (rule holds_mono [OF kHeapInit_finish])
         (use ready len b3 in \<open>auto simp: console_ready_def BLOCKSIZE_def f1(1)\<close>)
  qed (use b2 in \<open>simp_all add: f3 page_runs_ok_def pmm_ok_def npages_def\<close>)
qed (simp_all add: f1 f2 page_runs_ok_def pmm_ok_def npages_def)

text \<open>The byte ranges of page runs are disjoint when the pages are.\<close>

lemma extent_pages_disjoint:
  assumes "{p..<p + c} \<inter> {q..<q + d} = {}" and "p + c \<le> n" and "q + d \<le> n" and "4096 * n < 2 ^ 64"
    and "0 < c" and "0 < d" and "c < 2 ^ 64" and "d < 2 ^ 64"
  shows "extent 4096 (of_nat (4096 * p), of_nat c) \<inter> extent 4096 (of_nat (4096 * q), of_nat d) = {}"
proof -
  have u: "unat (of_nat (4096 * p) :: u64) = 4096 * p" "unat (of_nat (4096 * q) :: u64) = 4096 * q"
    "unat (of_nat c :: u64) = c" "unat (of_nat d :: u64) = d"
    using assms by (simp_all del: of_nat_mult add: unat_of_nat_u64)
  show ?thesis
    by (rule extent_page_run) (use assms(1) u in \<open>simp_all del: of_nat_mult add: page_run_def\<close>)
qed

lemma free_page_address:
  assumes "0 \<in> bits (bitmap s)" and "p \<notin> bits (bitmap s)" and "p < npages s"
  shows "of_nat (4096 * p) \<noteq> (0 :: u64)"
proof -
  have "p \<noteq> 0" using assms(1,2) by (cases "p = 0") simp_all
  moreover have "unat (of_nat (4096 * p) :: u64) = 4096 * p"
    using assms(3) npages_less [of s] by (intro unat_of_nat_u64) simp
  ultimately show ?thesis by (metis mult_eq_0_iff unat_0 zero_neq_numeral)
qed

text \<open>What the three allocations of \<open>kHeapInit\<close> are when they succeed.\<close>

lemma heap_pages:
  fixes s :: "'a pmm_state_scheme"
  assumes "0 \<in> bits (bitmap s)"
    and "first_fit (bits (bitmap s)) (npages s) 0x100 = Some h"
    and "first_fit (bits (bitmap s) \<union> {h..<h + 0x100}) (npages s) 1 = Some b"
    and "first_fit (bits (bitmap s) \<union> {h..<h + 0x100} \<union> {b}) (npages s) 16 = Some t"
  shows "bits (bitmap s) \<inter> ({h..<h + 0x100} \<union> {b} \<union> {t..<t + 16}) = {}"
    and "disjoint_runs (extent 4096) [(of_nat (4096 * t), 16), (of_nat (4096 * b), 1), (of_nat (4096 * h), 0x100)]"
    and "of_nat (4096 * h) \<noteq> (0 :: u64)" "of_nat (4096 * b) \<noteq> (0 :: u64)" "of_nat (4096 * t) \<noteq> (0 :: u64)"
proof -
  have b1: "{b..<b + 1} = {b}" by auto
  note fit = assms(2-4)[unfolded first_fit_Some_iff, THEN conjunct1, unfolded run_free_disjoint]
  have n: "4096 * npages s < 2 ^ 64" by (rule npages_less)
  have ends: "h + 0x100 \<le> npages s" "b + 1 \<le> npages s" "t + 16 \<le> npages s" using fit by auto
  have apart: "{h..<h + 0x100} \<inter> {b} = {}" "{h..<h + 0x100} \<inter> {t..<t + 16} = {}" "b \<notin> {t..<t + 16}"
    and free: "bits (bitmap s) \<inter> ({h..<h + 0x100} \<union> {b} \<union> {t..<t + 16}) = {}"
    using fit[unfolded b1] by (simp_all add: Int_Un_distrib Int_Un_distrib2 Int_commute)
  show "bits (bitmap s) \<inter> ({h..<h + 0x100} \<union> {b} \<union> {t..<t + 16}) = {}" by (rule free)
  have "disjoint_runs (extent 4096)
      [(of_nat (4096 * t), of_nat 16), (of_nat (4096 * b), of_nat 1), (of_nat (4096 * h), of_nat 0x100)]"
    using extent_pages_disjoint [of t 16 b 1, OF _ ends(3,2) n] extent_pages_disjoint [of t 16 h "0x100", OF _ ends(3,1) n]
      extent_pages_disjoint [of b 1 h "0x100", OF _ ends(2,1) n] apart
    unfolding b1 by (simp del: of_nat_mult of_nat_numeral of_nat_1 add: Int_commute Int_insert_right)
  then show "disjoint_runs (extent 4096) [(of_nat (4096 * t), 16), (of_nat (4096 * b), 1), (of_nat (4096 * h), 0x100)]"
    by (simp only: of_nat_numeral of_nat_1)
  have "h \<notin> bits (bitmap s)" "b \<notin> bits (bitmap s)" "t \<notin> bits (bitmap s)"
    using free by (auto simp: set_eq_iff)
  with ends show "of_nat (4096 * h) \<noteq> (0 :: u64)" "of_nat (4096 * b) \<noteq> (0 :: u64)" "of_nat (4096 * t) \<noteq> (0 :: u64)"
    by (simp_all del: of_nat_mult add: free_page_address [OF assms(1)])
qed

text \<open>
  C38: when the three page allocations of \<open>kHeapInit\<close> succeed (a run of 0x100 free pages from page \<open>h\<close> on, then a
  free page \<open>b\<close>, then a run of 16 from page \<open>t\<close> on, each the first), the heap starts at page \<open>h\<close>, empty and satisfying the
  invariant, with its bitmap in page \<open>b\<close> and its table in the pages from \<open>t\<close>: pages that were free, that are marked
  now, that do not overlap, and none of which is page 0. The results are not checked by the code: after a failed
  allocation the address is 0, and the two \<open>memset\<close>s clear physical memory from 0 on, which this theorem does not cover.
\<close>

theorem kHeapInit_ok:
  fixes s :: "'a heap_state_scheme"
  assumes "pmm_ok s" and "0 \<in> bits (bitmap s)" and "console_ready s"
    and "length (kbitmap s) = 4096" and "length (allocationBitmap s) = 16384"
    and "first_fit (bits (bitmap s)) (npages s) 0x100 = Some h"
    and "first_fit (bits (bitmap s) \<union> {h..<h + 0x100}) (npages s) 1 = Some b"
    and "first_fit (bits (bitmap s) \<union> {h..<h + 0x100} \<union> {b}) (npages s) 16 = Some t"
  shows "holds (kHeapInit s) (\<lambda>s'. heap_ok s' \<and> bits (kbitmap s') = {} \<and>
    kHeapBegin s' = of_nat (4096 * h) \<and> kbitmapAddr s' = of_nat (4096 * b) + HIGH_VMA \<and>
    allocationBitmapAddr s' = of_nat (4096 * t) + HIGH_VMA \<and>
    bits (bitmap s') = bits (bitmap s) \<union> ({h..<h + 0x100} \<union> {b} \<union> {t..<t + 16}) \<and>
    bits (bitmap s) \<inter> ({h..<h + 0x100} \<union> {b} \<union> {t..<t + 16}) = {} \<and>
    disjoint_runs (extent 4096) [(allocationBitmapAddr s' - HIGH_VMA, 16), (kbitmapAddr s' - HIGH_VMA, 1), (kHeapBegin s', 0x100)] \<and>
    kHeapBegin s' \<noteq> 0 \<and> kbitmapAddr s' \<noteq> HIGH_VMA \<and> allocationBitmapAddr s' \<noteq> HIGH_VMA)"
proof -
  have ok: "page_runs_ok s []" using assms(1,2) by (simp add: page_runs_ok_def runs_marked_def)
  have b1: "{b..<b + 1} = {b}" by auto
  note pages = heap_pages [OF assms(2,6,7,8)]
  have "holds (kHeapInit s) (\<lambda>s'. heap_ok s' \<and> bits (kbitmap s') = {} \<and> console_ready s' \<and>
    kHeapBegin s' = run_address (Some h) \<and> kbitmapAddr s' = run_address (Some b) + HIGH_VMA \<and>
    allocationBitmapAddr s' = run_address (Some t) + HIGH_VMA \<and>
    bits (bitmap s') = bits (bitmap s) \<union> {h..<h + 0x100} \<union> {b} \<union> run_pages (Some t) 16)"
    by (rule kHeapInit_holds [OF ok assms(3-5)]) (simp_all only: assms(6-8) run_address_simps b1)
  then show ?thesis
  proof (rule holds_mono, elim conjE, goal_cases)
    case (1 s')
    then have at: "kHeapBegin s' = of_nat (4096 * h)" "kbitmapAddr s' = of_nat (4096 * b) + HIGH_VMA"
      "allocationBitmapAddr s' = of_nat (4096 * t) + HIGH_VMA"
      "bits (bitmap s') = bits (bitmap s) \<union> ({h..<h + 0x100} \<union> {b} \<union> {t..<t + 16})"
      by (simp_all only: run_address_simps Un_assoc)
    have "kbitmapAddr s' \<noteq> HIGH_VMA \<and> allocationBitmapAddr s' \<noteq> HIGH_VMA"
      unfolding at using pages(4,5) by (simp del: of_nat_mult)
    then show ?case
      using 1(2,3) pages(1-3) by (simp only: at add_diff_cancel_right' simp_thms)
  qed
qed

text \<open>What clients of the heap that only need it to work use.\<close>

lemma kmalloc_keeps:
  assumes "heap_ok s" and "console_ready s"
    and "\<not> {..<32768} \<subseteq> bits (kbitmap s)" and "\<exists>e \<in> set (allocationBitmap s). a_size e = 0"
  shows "holds (kmalloc sz s) (\<lambda>(a, s'). heap_ok s' \<and> console_ready s' \<and> mem s' = mem s)"
proof (cases "first_fit (bits (kbitmap s)) 32768 (unat (ROUNDUP sz 32))")
  case None
  then show ?thesis
    using out_of_pages [OF assms(2)] assms(1,2)
    by (auto simp: kmalloc_eq [OF assms(1,3)] printed_def console_ready_def simp del: cstr_simps)
next
  case (Some p)
  then show ?thesis
    using kmalloc_take_holds [OF assms(1,4) Some] assms(2)
    by (auto simp: kmalloc_eq [OF assms(1,3)] took_def console_ready_def elim!: holds_mono)
qed

text \<open>What a call can change at most, for clients with more state.\<close>

definition heap_changed :: "'a heap_state_scheme \<Rightarrow> 'a heap_state_scheme \<Rightarrow> bool" where
  "heap_changed s s' \<longleftrightarrow> (\<exists>out b bm tab.
     s' = s\<lparr>serial := out, itobBuffer := b, kbitmap := bm, allocationBitmap := tab\<rparr>)"

lemma kmalloc_changes:
  assumes "heap_ok s" and "console_ready s"
    and "\<not> {..<32768} \<subseteq> bits (kbitmap s)" and "\<exists>e \<in> set (allocationBitmap s). a_size e = 0"
  shows "holds (kmalloc sz s) (\<lambda>(a, s'). heap_ok s' \<and> console_ready s' \<and> heap_changed s s')"
proof (cases "first_fit (bits (kbitmap s)) 32768 (unat (ROUNDUP sz 32))")
  case None
  have "heap_changed s (s\<lparr>serial := out, itobBuffer := b\<rparr>)" for out b
    unfolding heap_changed_def
    by (intro exI [of _ out] exI [of _ b] exI [of _ "kbitmap s"] exI [of _ "allocationBitmap s"]) simp
  with None show ?thesis
    using out_of_pages [OF assms(2)] assms(1,2)
    by (auto simp: kmalloc_eq [OF assms(1,3)] printed_def console_ready_def simp del: cstr_simps)
next
  case (Some p)
  have "heap_changed s (s\<lparr>kbitmap := bm, allocationBitmap := tab\<rparr>)" for bm tab
    unfolding heap_changed_def
    by (intro exI [of _ "serial s"] exI [of _ "itobBuffer s"] exI [of _ bm] exI [of _ tab]) simp
  with Some show ?thesis
    using kmalloc_take_holds [OF assms(1,4) Some] assms(2)
    by (auto simp: kmalloc_eq [OF assms(1,3)] took_def console_ready_def elim!: holds_mono)
qed

text \<open>The objects behind the pointers of the clients. Fresh heap memory holds anything: \<open>fresh\<close>
  is its contents, by element. \<open>krealloc(p, extra)\<close> of an object of \<open>n\<close> elements of \<open>sz\<close> bytes,
  in \<open>b\<close> blocks, returns one of \<open>b + extra\<close> bytes and moves \<open>b\<close> quadwords into it.\<close>

definition fresh_object :: "nat \<Rightarrow> (nat \<Rightarrow> 'x) \<Rightarrow> 'x list" where
  "fresh_object n fresh = map fresh [0..<n]"

definition resized_object :: "nat \<Rightarrow> u64 \<Rightarrow> (nat \<Rightarrow> 'x) \<Rightarrow> 'x list \<Rightarrow> 'x list" where
  "resized_object sz extra fresh xs =
     (let b = (sz * length xs + 31) div 32; n = (b + unat extra) div sz;
          kept = min (min n (length xs)) (8 * b div sz) in
      take kept xs @ map fresh [kept..<n])"

lemma length_fresh_object [simp]: "length (fresh_object n fresh) = n"
  by (simp add: fresh_object_def)

lemma length_resized_object:
  "length (resized_object sz extra fresh xs) = ((sz * length xs + 31) div 32 + unat extra) div sz"
  by (simp add: resized_object_def Let_def)

section \<open>Witnesses\<close>

definition example_heap :: heap_state where
  "example_heap = \<lparr>serial = [], itobBuffer = replicate 50 NUL, kprintDSLock = False,
     bitmap = replicate 64 1, totalDetectedMemory = 0x200000, pageAllocLock = False,
     mem = (\<lambda>a. a), kHeapBegin = 0x1000, kbitmap = replicate 4096 0, kbitmapSize = 32768,
     kbitmapAddr = 0x102000 + HIGH_VMA,
     allocationBitmap = replicate 16384 \<lparr>a_block = 0, a_size = 0\<rparr>,
     allocationBitmapSize = 262144, allocationBitmapAddr = 0x103000 + HIGH_VMA\<rparr>"

lemma example_heap_ok:
  "heap_ok example_heap" "console_ready example_heap" "heap_placed example_heap"
  "bits (kbitmap example_heap) = {}" 
  "\<exists>e \<in> set (allocationBitmap example_heap). a_size e = 0"
  by (simp_all add: example_heap_def heap_ok_def table_empty console_ready_def heap_placed_def)

lemma first_fit_empty: "0 < count \<Longrightarrow> count \<le> n \<Longrightarrow> first_fit {} n count = Some 0"
  by (simp add: first_fit_Some_iff run_free_def)

lemma bits_replicate_ones: "bits (replicate n 255) = {..<8 * n}"
proof -
  have "bit (255 :: u8) (l mod 8)" for l
  proof -
    have "l mod 8 \<in> {0, 1, 2, 3, 4, 5, 6, 7}" by auto
    then show ?thesis by auto
  qed
  then show ?thesis by (auto simp: in_bits_iff div_less_iff_less_mult mult.commute)
qed

definition example_full_heap :: heap_state where
  "example_full_heap = example_heap\<lparr>kbitmap := replicate 4096 255,
     allocationBitmap := (replicate 16384 \<lparr>a_block = 0, a_size = 0\<rparr>)[0 := \<lparr>a_block = 0, a_size = 32768\<rparr>]\<rparr>"

lemma example_full_heap_ok:
  "heap_ok example_full_heap" "bits (kbitmap example_full_heap) = {..<32768}"
proof -
  let ?tab = "replicate 16384 \<lparr>a_block = 0, a_size = 0\<rparr> :: allocation_t list"
  let ?e = "\<lparr>a_block = 0, a_size = 32768\<rparr> :: allocation_t"
  have "entry_blocks ?e = {..<32768}" by (auto simp: entry_blocks_def)
  moreover have "table_ok (?tab[0 := ?e])"
    by (rule table_ok_update) (simp_all add: table_empty)
  moreover have "table_blocks (?tab[0 := ?e]) = entry_blocks ?e"
    by (subst table_blocks_update) (simp_all add: table_empty)
  ultimately show "heap_ok example_full_heap" "bits (kbitmap example_full_heap) = {..<32768}"
    by (simp_all add: example_full_heap_def example_heap_def heap_ok_def bits_replicate_ones)
qed

lemma bits_append: "bits (xs @ ys) = bits xs \<union> (\<lambda>k. 8 * length xs + k) ` bits ys"
proof (rule set_eqI)
  fix l
  show "l \<in> bits (xs @ ys) \<longleftrightarrow> l \<in> bits xs \<union> (\<lambda>k. 8 * length xs + k) ` bits ys"
  proof (cases "l < 8 * length xs")
    case True
    then have "l div 8 < length xs" by (simp add: byte_index_less)
    with True show ?thesis by (auto simp: in_bits_iff nth_append)
  next
    case False
    then obtain k where l: "l = 8 * length xs + k" by (metis le_iff_add not_less)
    then have "l div 8 = length xs + k div 8" and "l mod 8 = k mod 8" by simp_all
    with l show ?thesis by (auto simp: in_bits_iff nth_append)
  qed
qed

text \<open>A heap with one allocation of eight blocks, at block \<open>8 * b\<close>, in the second entry.\<close>

definition example_live :: "nat \<Rightarrow> heap_state" where
  "example_live b = example_heap\<lparr>
     kbitmap := replicate b 0 @ replicate 1 255 @ replicate (4095 - b) 0,
     allocationBitmap := (replicate 16384 \<lparr>a_block = 0, a_size = 0\<rparr>)
       [1 := \<lparr>a_block = of_nat (8 * b), a_size = 8\<rparr>]\<rparr>"

lemma example_live_ok:
  assumes "b \<le> 1"
  shows "heap_ok (example_live b)" "bits (kbitmap (example_live b)) = {8 * b..<8 * b + 8}"
    "allocationBitmap (example_live b) ! Suc 0 = \<lparr>a_block = of_nat (8 * b), a_size = 8\<rparr>"
    "console_ready (example_live b)"
proof -
  let ?tab = "replicate 16384 \<lparr>a_block = 0, a_size = 0\<rparr> :: allocation_t list"
  let ?e = "\<lparr>a_block = of_nat (8 * b), a_size = 8\<rparr> :: allocation_t"
  have b: "unat (of_nat (8 * b) :: u16) = 8 * b" using assms by (intro unat_of_nat_small) simp
  have e: "entry_blocks ?e = {8 * b..<8 * b + 8}" unfolding entry_blocks_def by (simp only: b allocation_t.simps) simp
  have t: "table_ok (?tab[1 := ?e])"
    by (rule table_ok_update) (use b assms in \<open>simp_all add: table_empty\<close>)
  have u: "table_blocks (?tab[1 := ?e]) = entry_blocks ?e"
    by (subst table_blocks_update) (simp_all add: table_empty)
  have v: "bits (replicate b 0 @ replicate 1 255 @ replicate (4095 - b) 0) = {8 * b..<8 * b + 8}"
    unfolding bits_append bits_replicate_ones
    by (simp add: lessThan_atLeast0 image_add_atLeastLessThan add.commute)
  then show "heap_ok (example_live b)" "bits (kbitmap (example_live b)) = {8 * b..<8 * b + 8}"
    using t u e assms by (simp_all add: example_live_def heap_ok_def example_heap_def)
  show "allocationBitmap (example_live b) ! Suc 0 = ?e" by (simp add: example_live_def)
  show "console_ready (example_live b)" by (simp add: example_live_def example_heap_def console_ready_def)
qed

theorem kmalloc_first_fit_witness:
  "\<exists>a s'. kmalloc 100 example_heap = Inr (a, s') \<and> took 0 4 example_heap (a, s')"
proof -
  have n: "unat (ROUNDUP 100 32) = 4" by (simp add: ROUNDUP_def)
  have "\<not> {..<32768 :: nat} \<subseteq> bits (kbitmap example_heap)" by (simp add: example_heap_ok lessThan_empty_iff)
  from kmalloc_first_fit [OF example_heap_ok(1,2) this example_heap_ok(5), of 100]
  show ?thesis by (simp add: example_heap_ok(4) n first_fit_empty)
qed

theorem kmalloc_full_heap_witness: "kmalloc 32 example_full_heap = Inl OutOfBounds"
  by (rule kmalloc_full_heap) (simp_all add: example_full_heap_ok)

theorem kfree_live_witness:
  "\<exists>s'. kfree (block_addr (example_live 1) 8) (example_live 1) = Inr (8, s') \<and> bits (kbitmap s') = {}"
proof -
  have "\<exists>r. kfree (block_addr (example_live 1)
      (unat (a_block (allocationBitmap (example_live 1) ! 1)))) (example_live 1) = Inr r \<and>
    freed 1 (example_live 1) r"
    by (rule kfree_live) (simp_all add: example_live_ok)
  then show ?thesis by (auto simp: freed_def example_live_ok entry_blocks_def)
qed

theorem kfree_block_0_leaks_witness:
  "\<exists>s'. kfree (block_addr (example_live 0) 0) (example_live 0) = Inr (0, s') \<and>
     bits (kbitmap s') = {0..<8}"
proof -
  have "\<exists>s'. kfree (block_addr (example_live 0) 0) (example_live 0) = Inr (0, s') \<and>
    bits (kbitmap s') = bits (kbitmap (example_live 0)) \<and>
    allocationBitmap s' ! 1 = allocationBitmap (example_live 0) ! 1 \<and> heap_ok s'"
    by (rule kfree_block_0_leaks [where j = 0]) (simp_all add: example_live_ok, simp add: example_live_def)
  then show ?thesis by (auto simp: example_live_ok)
qed

theorem kfree_unknown_witness:
  "kfree (block_addr (example_live 1) 9) (example_live 1) = Inl OutOfBounds"
proof (rule kfree_unknown)
  have "(block_addr (example_live 1) 9 - HIGH_VMA - kHeapBegin (example_live 1)) div 32 = 9"
    using block_addr_inverse [of 9 "example_live 1"] by simp
  then show "\<forall>e \<in> set (allocationBitmap (example_live 1)). ucast (a_block e) \<noteq>
      (block_addr (example_live 1) 9 - HIGH_VMA - kHeapBegin (example_live 1)) div 32"
    by (auto simp: example_live_def dest!: set_update_subset_insert [THEN subsetD])
qed (simp add: example_live_ok)

theorem heap_sequences_disjoint_witness:
  "\<exists>s' rs. run_ops kmalloc kfree_run [Alloc 100] example_heap [] = Inr (s', rs) \<and>
     disjoint_runs (extent 1) rs \<and> heap_ok s'"
proof -
  have n: "unat (ROUNDUP 100 32) = 4" by (simp add: ROUNDUP_def)
  have space: "\<not> {..<32768 :: nat} \<subseteq> bits (kbitmap example_heap)"
    by (simp add: example_heap_ok lessThan_empty_iff)
  have fit: "first_fit (bits (kbitmap example_heap)) 32768 (unat (ROUNDUP 100 32)) = Some 0"
    by (simp add: example_heap_ok n first_fit_empty)
  obtain a s' where "kmalloc 100 example_heap = Inr (a, s')"
    using kmalloc_take_holds [OF example_heap_ok(1,5) fit] fit kmalloc_eq [OF example_heap_ok(1) space]
    by (auto elim!: holdsE)
  then obtain rs where run: "run_ops kmalloc kfree_run [Alloc 100] example_heap [] = Inr (s', rs)"
    by simp
  show ?thesis
    using run heap_sequences_disjoint [OF example_heap_ok(1-3) run] by blast
qed

lemma krealloc_example:
  "unat (ROUNDUP (of_nat 8 + 20) 32) = 1"
  "first_fit (bits (kbitmap (example_live 1)) -
     entry_blocks (allocationBitmap (example_live 1) ! 1)) 32768 1 = Some 0"
  by (simp_all add: ROUNDUP_def example_live_ok entry_blocks_def first_fit_empty)

theorem krealloc_copies_witness:
  "\<exists>s'. krealloc (block_addr (example_live 1) 8) 20 (example_live 1) =
      Inr (block_addr (example_live 1) 0, s') \<and> bits (kbitmap s') = {0}"
proof -
  have "\<exists>s'. krealloc (block_addr (example_live 1)
        (unat (a_block (allocationBitmap (example_live 1) ! 1)))) 20 (example_live 1) =
      Inr (block_addr (example_live 1) 0, s') \<and> heap_ok s' \<and>
    bits (kbitmap s') = bits (kbitmap (example_live 1)) -
      entry_blocks (allocationBitmap (example_live 1) ! 1) \<union> {0..<0 + 1} \<and>
    (\<forall>i < 8. mem s' (block_addr (example_live 1) 0 + 8 * of_nat i) =
       mem (example_live 1) (block_addr (example_live 1)
        (unat (a_block (allocationBitmap (example_live 1) ! 1))) + 8 * of_nat i)) \<and>
    (\<forall>a. (\<forall>i < 8. a \<noteq> block_addr (example_live 1) 0 + 8 * of_nat i) \<longrightarrow> mem s' a = mem (example_live 1) a)"
    by (rule krealloc_copies [where k = 1]) (use krealloc_example in \<open>simp_all add: example_live_ok\<close>)
  then show ?thesis by (auto simp: example_live_ok entry_blocks_def)
qed

theorem krealloc_overruns_witness:
  "\<exists>s'. krealloc (block_addr (example_live 1) 8) 20 (example_live 1) =
      Inr (block_addr (example_live 1) 0, s') \<and>
    mem s' (block_addr (example_live 1) 1) = block_addr (example_live 1) 8 + 32"
proof -
  have "\<exists>s'. krealloc (block_addr (example_live 1)
        (unat (a_block (allocationBitmap (example_live 1) ! 1)))) 20 (example_live 1) =
      Inr (block_addr (example_live 1) 0, s') \<and>
    mem s' (block_addr (example_live 1) (0 + 1)) = mem (example_live 1) (block_addr (example_live 1)
        (unat (a_block (allocationBitmap (example_live 1) ! 1))) + 8 * of_nat (4 * 1))"
    by (rule krealloc_overruns [where k = 1 and n = 8]) (use krealloc_example in \<open>simp_all add: example_live_ok\<close>)
  then show ?thesis by (auto simp: example_live_ok) (simp add: example_live_def example_heap_def)
qed

text \<open>A machine of 512 pages of which the first is marked.\<close>

definition example_machine_heap :: heap_state where
  "example_machine_heap = example_heap\<lparr>bitmap := 1 # replicate 63 0, totalDetectedMemory := 0x200000\<rparr>"

theorem kHeapInit_ok_witness:
  "holds (kHeapInit example_machine_heap) (\<lambda>s'. heap_ok s' \<and> bits (kbitmap s') = {} \<and>
     kHeapBegin s' = 0x1000 \<and> kbitmapAddr s' = 0x101000 + HIGH_VMA \<and> allocationBitmapAddr s' = 0x102000 + HIGH_VMA)"
proof -
  have bits: "bits (bitmap example_machine_heap) = {..<1}"
    by (auto simp: example_machine_heap_def in_bits_iff nth_Cons bit_1_iff split: nat.splits)
  have n: "npages example_machine_heap = 0x200" by (simp add: example_machine_heap_def npages_def unat_div)
  have fit: "first_fit (bits (bitmap example_machine_heap)) 0x200 0x100 = Some 1"
    "first_fit (bits (bitmap example_machine_heap) \<union> {1..<1 + 0x100}) 0x200 1 = Some 0x101"
    "first_fit (bits (bitmap example_machine_heap) \<union> {1..<1 + 0x100} \<union> {0x101}) 0x200 16 = Some 0x102"
    unfolding bits by (rule first_fit_least; auto simp: run_free_def)+
  have "pmm_ok example_machine_heap" "0 \<in> bits (bitmap example_machine_heap)" "console_ready example_machine_heap"
    "length (kbitmap example_machine_heap) = 4096" "length (allocationBitmap example_machine_heap) = 16384"
    using bits n by (simp_all add: pmm_ok_def console_ready_def example_machine_heap_def example_heap_def)
  from kHeapInit_ok [OF this fit [folded n]] show ?thesis by (rule holds_mono) simp
qed

end
