(* ===== verification/Virtual_Pages.thy ===== *)
theory Virtual_Pages
  imports Kernel_Heap
begin

text \<open>
  The virtual memory manager, \<^verbatim>\<open>kernel/mm/virtualPageManager.c\<close>: the kernel's own page tables
  (\<open>initVMM\<close>), the table of address spaces and their page tables (\<open>createNewAddressSpace\<close>,
  \<open>freeAddressSpace\<close>) and the register \<open>cr3\<close>.
  Page tables live in \<open>mem s\<close>; a physical address \<open>p\<close> is accessed at \<open>p + HIGH_VMA\<close>, and the
  identity map of the first 4 GiB shows the same memory (\<open>kva\<close>). The specification is the
  walk of the memory management unit (\<open>walk\<close>): the tables the code builds translate the
  addresses they are meant to.
\<close>

record pageDirectoryEntry_t =
  d_pml4 :: u64
  d_pml3 :: u64
  d_pml2 :: u64
  d_pml1 :: u64
  d_flags :: u64

record vmm_state = heap_state +
  pageDirectoryTables :: "pageDirectoryEntry_t list"
  pageDirectoryAddr :: u64
  pageDirectoryCount :: u64
  cr3 :: u64

definition kpml4Addr :: u64 where "kpml4Addr = 0x200000"
definition kpml3Addr :: u64 where "kpml3Addr = 0x200000 + 0x1000"
definition kpml2Addr_1G :: u64 where "kpml2Addr_1G = 0x200000 + 0x2000"
definition kpml2Addr_2G :: u64 where "kpml2Addr_2G = 0x200000 + 0x3000"
definition kpml2Addr_3G :: u64 where "kpml2Addr_3G = 0x200000 + 0x4000"
definition kpml2Addr_4G :: u64 where "kpml2Addr_4G = 0x200000 + 0x5000"
definition kpml2AddrHH :: u64 where "kpml2AddrHH = 0x200000 + 0x6000"
definition kpml3AddrHH :: u64 where "kpml3AddrHH = 0x200000 + 0x7000"

lemmas kpml_defs = kpml4Addr_def kpml3Addr_def kpml2Addr_1G_def kpml2Addr_2G_def
  kpml2Addr_3G_def kpml2Addr_4G_def kpml2AddrHH_def kpml3AddrHH_def

text \<open>The macro is the text \<open>(1 << 2) | 0x3\<close>; it is only used as the operand of an OR.\<close>

definition KPAGE_FLAGS :: u64 where
  "KPAGE_FLAGS = push_bit 2 1 OR 0x3"

definition kva :: "u64 \<Rightarrow> u64" where
  "kva a = (if a < 0x100000000 then a + HIGH_VMA else a)"

definition zero_directory :: pageDirectoryEntry_t where
  "zero_directory = \<lparr>d_pml4 = 0, d_pml3 = 0, d_pml2 = 0, d_pml1 = 0, d_flags = 0\<rparr>"

section \<open>The functions\<close>

text \<open>\<open>table[i] = v\<close> for a table of quadwords.\<close>

definition put_entry ::
  "u64 \<Rightarrow> u64 \<Rightarrow> u64 \<Rightarrow> 'a vmm_state_scheme \<Rightarrow> 'a vmm_state_scheme"
where
  "put_entry tab i v s = s\<lparr>mem := (mem s)(kva tab + 8 * i := v)\<rparr>"

text \<open>\<open>pageDirectoryTables[index].field = ...\<close>\<close>

definition update_directory ::
  "u64 \<Rightarrow> (pageDirectoryEntry_t \<Rightarrow> pageDirectoryEntry_t) \<Rightarrow> 'a vmm_state_scheme \<Rightarrow>
   'a vmm_state_scheme result"
where
  "update_directory index f s =
     and_then (fetch (pageDirectoryTables s) index) (\<lambda>d.
     and_then (store (pageDirectoryTables s) index (f d)) (\<lambda>ds.
       Inr (s\<lparr>pageDirectoryTables := ds\<rparr>)))"

definition findFirstFreeSlot :: "'a vmm_state_scheme \<Rightarrow> u64 result" where
  "findFirstFreeSlot s =
     and_then (search (\<lambda>d. d_pml4 d = 0) (pageDirectoryTables s) (pageDirectoryCount s))
       (\<lambda>f. case f of Exit i \<Rightarrow> Inr i | Next _ \<Rightarrow> Inr (- 1))"

text \<open>The loops that map the pages: \<open>table[i] = physical | flags; physical += step;\<close>\<close>

definition map_pages ::
  "u64 \<Rightarrow> u64 \<Rightarrow> u64 \<Rightarrow> u64 \<Rightarrow> u64 \<Rightarrow> 'a vmm_state_scheme \<Rightarrow> 'a vmm_state_scheme result"
where
  "map_pages tab sz flags step physical s =
     and_then
       (each_u64 (\<lambda>i (physical, s).
          Inr (physical + step, put_entry tab i (physical OR flags) s)) 0 sz (physical, s))
       (\<lambda>(physical, s). Inr s)"

definition createNewAddressSpace ::
  "u64 \<Rightarrow> u64 \<Rightarrow> 'a vmm_state_scheme \<Rightarrow> (u64 \<times> 'a vmm_state_scheme) result"
where
  "createNewAddressSpace sz flags s =
     and_then (findFirstFreeSlot s) (\<lambda>index.
     and_then (physicalPageAlloc 1 s) (\<lambda>(p4, s).
     and_then (update_directory index (\<lambda>d. d\<lparr>d_pml4 := p4\<rparr>) s) (\<lambda>s.
     and_then (physicalPageAlloc 1 s) (\<lambda>(p3, s).
     and_then (update_directory index (\<lambda>d. d\<lparr>d_pml3 := p3\<rparr>) s) (\<lambda>s.
     and_then (physicalPageAlloc 1 s) (\<lambda>(p2, s).
     and_then (update_directory index (\<lambda>d. d\<lparr>d_pml2 := p2, d_flags := flags\<rparr>) s) (\<lambda>s.
     let pml4Virtual = p4 + HIGH_VMA; pml3Virtual = p3 + HIGH_VMA; pml2Virtual = p2 + HIGH_VMA;
         s = put_entry pml4Virtual 256 (kpml3Addr OR KPAGE_FLAGS) s;
         s = put_entry pml4Virtual 511 (kpml3AddrHH OR KPAGE_FLAGS) s;
         s = put_entry pml4Virtual 0 ((pml3Virtual - HIGH_VMA) OR KPAGE_FLAGS) s;
         s = put_entry pml3Virtual 0 ((pml2Virtual - HIGH_VMA) OR KPAGE_FLAGS) s in
     if flags AND push_bit 7 1 = 0 then
       and_then (physicalPageAlloc 1 s) (\<lambda>(p1, s).
       and_then (update_directory index (\<lambda>d. d\<lparr>d_pml1 := p1\<rparr>) s) (\<lambda>s.
       let pml1Virtual = p1 + HIGH_VMA;
           s = put_entry pml2Virtual 0 ((pml1Virtual - HIGH_VMA) OR flags) s in
       and_then (physicalPageAlloc sz s) (\<lambda>(physical, s).
       and_then (map_pages pml1Virtual sz flags 0x1000 physical s) (\<lambda>s. Inr (index, s)))))
     else
       and_then (physicalPageAlloc (sz * 0x200) s) (\<lambda>(physical, s).
       and_then (map_pages pml2Virtual sz flags 0x200000 physical s) (\<lambda>s. Inr (index, s))))))))))"

lemma map_pages_more:
  fixes s :: "'a vmm_state_scheme"
  assumes "map_pages tab n flags step physical s = Inr s'"
  shows "vmm_state.more s' = vmm_state.more s"
proof -
  obtain p where "each_u64 (\<lambda>i (physical, s). Inr (physical + step, put_entry tab i (physical OR flags) s))
      0 n (physical, s) = Inr (p, s')"
    using assms by (auto simp: map_pages_def and_then_eq_Inr_iff)
  then have "vmm_state.more (snd (p, s')) = vmm_state.more s"
    by (rule each_u64_invariant [where I = "\<lambda>x. vmm_state.more (snd x) = vmm_state.more s"])
      (auto simp: put_entry_def)
  then show ?thesis by simp
qed

lemma heap_more_vmm:
  fixes s :: "'a vmm_state_scheme"
  shows "pmm_state.more s' = pmm_state.more s \<Longrightarrow> vmm_state.more s' = vmm_state.more s"
    "heap_state.more s' = heap_state.more s \<Longrightarrow> vmm_state.more s' = vmm_state.more s"
  by (cases s; cases s'; simp)+

lemma update_directory_more: "update_directory i f s = Inr s' \<Longrightarrow> vmm_state.more s' = vmm_state.more s"
  by (auto simp: update_directory_def and_then_eq_Inr_iff)

lemma createNewAddressSpace_more:
  fixes s :: "'a vmm_state_scheme"
  shows "createNewAddressSpace sz flags s = Inr (i, s') \<Longrightarrow> vmm_state.more s' = vmm_state.more s"
  by (auto simp: createNewAddressSpace_def Let_def and_then_eq_Inr_iff put_entry_def split: if_splits
      dest!: physicalPageAlloc_pmm_more heap_more_vmm(1) update_directory_more map_pages_more)

definition freeAddressSpace :: "u64 \<Rightarrow> 'a vmm_state_scheme \<Rightarrow> 'a vmm_state_scheme result" where
  "freeAddressSpace index s =
     and_then (fetch (pageDirectoryTables s) index) (\<lambda>d.
     and_then (physicalPageFree (d_pml4 d) 1 s) (\<lambda>s.
     and_then (physicalPageFree (d_pml3 d) 1 s) (\<lambda>s.
     and_then (physicalPageFree (d_pml2 d) 1 s) (\<lambda>s.
     and_then (physicalPageFree (d_pml1 d) 1 s) (\<lambda>s.
       update_directory index (\<lambda>_. zero_directory) s)))))"

definition initAddressSpace :: "u64 \<Rightarrow> 'a vmm_state_scheme \<Rightarrow> 'a vmm_state_scheme result" where
  "initAddressSpace index s =
     (let failed = kprintDS (cstr ''[KMM]'')
        (cstr ''Error: VMM trying to enter an invaild address space'') [] s in
     if index > pageDirectoryCount s then failed
     else and_then (fetch (pageDirectoryTables s) index) (\<lambda>d.
       if d_pml4 d = 0 then failed else Inr (s\<lparr>cr3 := d_pml4 d\<rparr>)))"

definition grabPML4 :: "'a vmm_state_scheme \<Rightarrow> u64" where
  "grabPML4 s = cr3 s"

text \<open>The loop over the 512 entries of the five level-2 tables.\<close>

definition initVMM_tables :: "'a vmm_state_scheme \<Rightarrow> 'a vmm_state_scheme result" where
  "initVMM_tables s =
     and_then
       (each_u64 (\<lambda>i (physical, s).
          let large = push_bit 7 1;
              s = put_entry kpml2Addr_1G i (physical OR large OR KPAGE_FLAGS) s;
              s = put_entry kpml2Addr_2G i ((physical + 0x40000000) OR large OR KPAGE_FLAGS) s;
              s = put_entry kpml2Addr_3G i ((physical + 0x40000000 * 2) OR large OR KPAGE_FLAGS) s;
              s = put_entry kpml2Addr_4G i ((physical + 0x40000000 * 3) OR large OR KPAGE_FLAGS) s;
              s = put_entry kpml2AddrHH i (physical OR large OR KPAGE_FLAGS) s in
          Inr (physical + 0x200000, s)) 0 512 (0 :: u64, s))
       (\<lambda>(physical, s). Inr s)"

text \<open>\<open>sizeof(pageDirectoryEntry_t)\<close> is 40. The object behind \<open>pageDirectoryTables\<close> has the
  100 entries that are allocated, whatever \<open>pageDirectoryCount\<close> says.\<close>

definition initVMM :: "'a vmm_state_scheme \<Rightarrow> 'a vmm_state_scheme result" where
  "initVMM s =
     and_then (kmalloc (40 * 100) s) (\<lambda>(a, s).
     let s = s\<lparr>pageDirectoryAddr := a, pageDirectoryCount := 1000,
               pageDirectoryTables := replicate 100 zero_directory\<rparr> in
     and_then (memset64 (kva kpml4Addr) 0 (0x8000 div 8) (mem s)) (\<lambda>m.
     let s = s\<lparr>mem := m\<rparr>;
         s = put_entry kpml4Addr 256 (kpml3Addr OR KPAGE_FLAGS) s;
         s = put_entry kpml4Addr 0 (kpml3Addr OR KPAGE_FLAGS) s;
         s = put_entry kpml3Addr 0 (kpml2Addr_1G OR KPAGE_FLAGS) s;
         s = put_entry kpml3Addr 1 (kpml2Addr_2G OR KPAGE_FLAGS) s;
         s = put_entry kpml3Addr 2 (kpml2Addr_3G OR KPAGE_FLAGS) s;
         s = put_entry kpml3Addr 3 (kpml2Addr_4G OR KPAGE_FLAGS) s;
         s = put_entry kpml4Addr 511 (kpml3AddrHH OR KPAGE_FLAGS) s;
         s = put_entry kpml3AddrHH 510 (kpml2AddrHH OR KPAGE_FLAGS) s in
     and_then (initVMM_tables s) (\<lambda>s.
       kprintDS (cstr ''[KMM]'') (cstr ''Virtual Memory Manager Initalized'') []
         (s\<lparr>cr3 := kpml4Addr\<rparr>))))"

section \<open>The walk of the memory management unit\<close>

definition frame :: "u64 \<Rightarrow> u64" where
  "frame e = e AND 0x000ffffffffff000"

definition slot :: "nat \<Rightarrow> u64 \<Rightarrow> u64" where
  "slot level va = drop_bit (12 + 9 * level) va AND 511"

definition entry_at :: "(u64 \<Rightarrow> u64) \<Rightarrow> u64 \<Rightarrow> u64 \<Rightarrow> u64" where
  "entry_at m tab i = m (frame tab + HIGH_VMA + 8 * i)"

definition present :: "u64 \<Rightarrow> bool" where
  "present e \<longleftrightarrow> e AND 1 \<noteq> 0"

definition large :: "u64 \<Rightarrow> bool" where
  "large e \<longleftrightarrow> e AND push_bit 7 1 \<noteq> 0"

text \<open>The rights (present, writable, user: what every level grants) and the address an address
  is mapped to; no mapping is a page fault. A large page of level 3 does not occur.\<close>

definition walk :: "(u64 \<Rightarrow> u64) \<Rightarrow> u64 \<Rightarrow> u64 \<Rightarrow> (u64 \<times> u64) option" where
  "walk m root va =
     (let e4 = entry_at m root (slot 3 va) in
      if \<not> present e4 then None else
      let e3 = entry_at m e4 (slot 2 va) in
      if \<not> present e3 \<or> large e3 then None else
      let e2 = entry_at m e3 (slot 1 va) in
      if \<not> present e2 then None else
      if large e2 then
        Some (e4 AND e3 AND e2 AND 7, (frame e2 AND NOT 0x1fffff) + (va AND 0x1fffff)) else
      let e1 = entry_at m e2 (slot 0 va) in
      if \<not> present e1 then None
      else Some (e4 AND e3 AND e2 AND e1 AND 7, frame e1 + (va AND 0xfff)))"

section \<open>Page table entries\<close>

lemma frame_mask: "(0x000ffffffffff000 :: u64) = push_bit 12 (mask 40)"
  by (simp add: mask_eq_exp_minus_1 push_bit_eq_mult)

lemma bit_frame: "bit (frame e) n \<longleftrightarrow> 12 \<le> n \<and> n < 52 \<and> bit e n"
  by (auto simp: frame_def frame_mask bit_simps dest: bit_imp_le_length)

lemma bit_unat: "bit (unat p) n \<longleftrightarrow> bit p n" for p :: "'a::len word"
  by (simp add: bit_unsigned_iff)

lemma aligned_bits: "2 ^ k dvd unat p \<Longrightarrow> n < k \<Longrightarrow> \<not> bit p n" for p :: "'a::len word"
proof -
  assume "2 ^ k dvd unat p" and n: "n < k"
  then obtain q where "unat p = 2 ^ k * q" by (rule_tac dvdE)
  then have "unat p = push_bit k q" by (simp add: push_bit_eq_mult mult.commute)
  then have "\<not> bit (unat p) n" using n by (simp add: bit_push_bit_iff_nat)
  then show "\<not> bit p n" by (simp add: bit_unat)
qed

lemma small_bits: "unat p < 2 ^ k \<Longrightarrow> bit p n \<Longrightarrow> n < k" for p :: "'a::len word"
proof -
  assume "unat p < 2 ^ k" and b: "bit p n"
  then have "take_bit k (unat p) = unat p" by (simp add: take_bit_nat_eq_self)
  moreover have "bit (unat p) n" using b by (simp add: bit_unat)
  ultimately have "bit (take_bit k (unat p)) n" by simp
  then show "n < k" by (simp add: bit_take_bit_iff)
qed

lemma frame_or:
  assumes "4096 dvd unat p" and "unat p < 2 ^ 52" and "unat f < 4096"
  shows "frame (p OR f) = p"
proof (rule bit_word_eqI)
  fix n
  have "12 \<le> n" if "bit p n" 
    by (rule ccontr) (use aligned_bits [of 12 p n] assms(1) that in auto)
  moreover have "n < 52" if "bit p n" using small_bits [of p 52 n] assms(2) that by simp
  moreover have "n < 12" if "bit f n" using small_bits [of f 12 n] assms(3) that by simp
  ultimately show "bit (frame (p OR f)) n \<longleftrightarrow> bit p n"
    by (auto simp: bit_frame bit_or_iff)
qed

lemma low_bit_or:
  assumes "4096 dvd unat p" and "n < 12"
  shows "bit (p OR f) n \<longleftrightarrow> bit f n"
  using aligned_bits [of 12 p n] assms by (simp add: bit_or_iff)

lemma present_iff: "present e \<longleftrightarrow> bit e 0"
  by (simp add: present_def and_1_neq_0)

lemma large_iff: "large e \<longleftrightarrow> bit e 7"
proof -
  have "(push_bit 7 1 :: u64) = 2 ^ 7" by simp
  then show ?thesis by (simp only: large_def and_exp_eq_0_iff_not_bit not_not)
qed

text \<open>The page that holds a table, and two tables.\<close>

lemma kva_high: "unat p < 2 ^ 47 \<Longrightarrow> kva (p + HIGH_VMA) = p + HIGH_VMA"
proof -
  assume "unat p < 2 ^ 47"
  then have "unat (p + HIGH_VMA) = unat p + 0xffff800000000000"
    by (subst unat_add_u64) (simp_all add: HIGH_VMA_def)
  then show ?thesis by (simp add: kva_def word_less_nat_alt)
qed

lemma page_cell_neq:
  assumes "4096 dvd unat p" and "4096 dvd unat q" and "p \<noteq> q" and "i < 512" and "j < 512"
  shows "p + HIGH_VMA + 8 * of_nat i \<noteq> q + HIGH_VMA + 8 * of_nat j"
proof
  assume "p + HIGH_VMA + 8 * of_nat i = q + HIGH_VMA + 8 * of_nat j"
  then have eq: "p + of_nat (8 * i) = q + of_nat (8 * j)" by (simp add: algebra_simps)
  have cell: "unat (r + of_nat (8 * k)) = unat r + 8 * k" if r: "4096 dvd unat r" and "k < 512" for r :: u64 and k
  proof -
    have k: "unat (of_nat (8 * k) :: u64) = 8 * k" using that(2) by (intro unat_of_nat_u64) simp
    obtain d where d: "unat r = 4096 * d" using r by (rule dvdE)
    then have "d < 2 ^ 52" using unat_less_u64 [of r] by simp
    then have "unat r + 8 * k < 2 ^ 64" using that(2) by (simp add: d)
    then show ?thesis by (subst unat_add_u64) (simp_all only: k)
  qed
  from eq have "unat p + 8 * i = unat q + 8 * j"
    using cell [OF assms(1,4)] cell [OF assms(2,5)] by metis
  moreover obtain c d where "unat p = 4096 * c" "unat q = 4096 * d" using assms(1,2) by (auto elim!: dvdE)
  moreover have "(4096 * c + 8 * i) div 4096 = c" "(4096 * d + 8 * j) div 4096 = d" for c d :: nat
    using assms(4,5) by (simp_all add: div_add1_eq)
  ultimately have "unat p = unat q" by metis
  then show False using assms(3) by (simp add: word_unat_eq_iff)
qed

lemma page_cell_inj:
  assumes "i < 512" and "j < 512" and "i \<noteq> j"
  shows "p + HIGH_VMA + 8 * of_nat i \<noteq> p + HIGH_VMA + (8 :: u64) * of_nat j"
  by (rule cell_neq [where n = 512]) (use assms in simp_all)

lemma map_pages_holds:
  assumes "unat sz \<le> 512"
  shows "holds (map_pages tab sz flags stride physical s) (\<lambda>s'. \<exists>m. s' = s\<lparr>mem := m\<rparr> \<and>
    (\<forall>i < unat sz. m (kva tab + 8 * of_nat i) = (physical + stride * of_nat i) OR flags) \<and>
    (\<forall>a. (\<forall>i < unat sz. a \<noteq> kva tab + 8 * of_nat i) \<longrightarrow> m a = mem s a))"
  unfolding map_pages_def holds_and_then
proof (rule each_u64_holds [where I = "\<lambda>i (p, s'). p = physical + stride * i \<and> unat i \<le> unat sz \<and>
    (\<exists>m. s' = s\<lparr>mem := m\<rparr> \<and>
      (\<forall>j < unat i. m (kva tab + 8 * of_nat j) = (physical + stride * of_nat j) OR flags) \<and>
      (\<forall>a. (\<forall>j < unat i. a \<noteq> kva tab + 8 * of_nat j) \<longrightarrow> m a = mem s a))"], goal_cases)
  case (3 i ps)
  obtain p s' where ps: "ps = (p, s')" by (cases ps)
  from 3(2) obtain m where p: "p = physical + stride * i" and s': "s' = s\<lparr>mem := m\<rparr>"
    and m: "\<forall>j < unat i. m (kva tab + 8 * of_nat j) = (physical + stride * of_nat j) OR flags"
      "\<forall>a. (\<forall>j < unat i. a \<noteq> kva tab + 8 * of_nat j) \<longrightarrow> m a = mem s a"
    by (auto simp: ps)
  have lt: "unat i < unat sz" using 3(1) by (simp add: word_less_nat_alt)
  have "kva tab + 8 * of_nat j \<noteq> kva tab + 8 * of_nat (unat i)" if "j < unat i" for j
    using that lt assms by (intro cell_neq [where n = 512]) simp_all
  then have neq: "kva tab + 8 * of_nat j \<noteq> kva tab + 8 * i" if "j < unat i" for j
    using that by simp
  have "\<exists>m'. put_entry tab i (p OR flags) s' = s\<lparr>mem := m'\<rparr> \<and>
      (\<forall>j < Suc (unat i). m' (kva tab + 8 * of_nat j) = (physical + stride * of_nat j) OR flags) \<and>
      (\<forall>a. (\<forall>j < Suc (unat i). a \<noteq> kva tab + 8 * of_nat j) \<longrightarrow> m' a = mem s a)"
    using m neq by (intro exI [of _ "m(kva tab + 8 * i := p OR flags)"])
      (auto simp: put_entry_def s' p less_Suc_eq)
  moreover have "p + stride = physical + stride * (i + 1)" by (simp add: p distrib_left add.assoc)
  ultimately show ?case using lt by (simp add: ps unat_plus_1 [OF 3(1)])
qed (auto intro: exI [of _ "mem s"])


lemma unat_drop: "unat (drop_bit k va) = unat va div 2 ^ k" for va :: u64
proof -
  have "take_bit LENGTH(64) (unat va) = unat va"
    by (rule take_bit_nat_eq_self) (use unat_less_u64 [of va] in simp)
  then have "unat (drop_bit k va) = drop_bit k (unat va)" by (simp only: unsigned_drop_bit_eq)
  then show ?thesis by (simp only: drop_bit_eq_div)
qed

lemma and_511: "x AND 511 = take_bit 9 x" for x :: u64
  by (simp add: take_bit_eq_mask mask_eq_exp_minus_1)

lemma and_fff: "x AND 0xfff = take_bit 12 x" for x :: u64
  by (simp add: take_bit_eq_mask mask_eq_exp_minus_1)

lemma slot_low:
  assumes "unat va < 2 ^ 21"
  shows "slot 3 va = 0" and "slot 2 va = 0" and "slot 1 va = 0"
    and "slot 0 va = of_nat (unat va div 4096)" and "unat va div 4096 < 512"
proof -
  have "unat (drop_bit k va) = 0" if "21 \<le> k" for k
  proof -
    have "unat va < 2 ^ k" using assms power_increasing [OF that, of "2 :: nat"] by simp
    then show ?thesis by (simp add: unat_drop)
  qed
  then have zero: "drop_bit k va = 0" if "21 \<le> k" for k using that by (simp add: unat_eq_zero)
  show "slot 3 va = 0" "slot 2 va = 0" "slot 1 va = 0"
    unfolding slot_def by (simp_all add: zero)
  show less: "unat va div 4096 < 512" using assms by (simp add: div_less_iff_less_mult)
  have d: "unat (drop_bit 12 va) = unat va div 4096" by (simp add: unat_drop)
  then have "take_bit 9 (drop_bit 12 va) = drop_bit 12 va"
    using less by (simp only: word_unat_eq_iff unsigned_take_bit_eq) (simp add: take_bit_nat_eq_self)
  moreover have "drop_bit 12 va = of_nat (unat va div 4096)" by (simp flip: d)
  ultimately show "slot 0 va = of_nat (unat va div 4096)"
    by (simp only: slot_def and_511 mult_0_right add_0_right)
qed

lemma page_split: "0x1000 * of_nat (unat va div 4096) + (va AND 0xfff) = va" for va :: u64
proof -
  have "of_nat (unat va div 4096) = drop_bit 12 va" by (simp flip: unat_drop [of 12, simplified])
  then have "0x1000 * of_nat (unat va div 4096) = push_bit 12 (drop_bit 12 va)"
    by (simp add: push_bit_eq_mult mult.commute)
  then show ?thesis by (simp only: and_fff bits_ident)
qed

text \<open>A page of a table: its address is aligned and in the memory \<open>HIGH_VMA\<close> maps.\<close>

definition page_ok :: "u64 \<Rightarrow> bool" where
  "page_ok p \<longleftrightarrow> 4096 dvd unat p \<and> unat p < 2 ^ 47"

lemma frame_entry: "page_ok p \<Longrightarrow> unat f < 4096 \<Longrightarrow> frame (p OR f) = p"
  by (rule frame_or) (auto simp: page_ok_def)

lemma frame_page: "page_ok p \<Longrightarrow> frame p = p"
  using frame_entry [of p 0] by simp

lemma KPAGE_FLAGS_bits: "KPAGE_FLAGS = 7"
  by (simp add: KPAGE_FLAGS_def)

lemma bit_7_iff: "bit (7 :: u64) n \<longleftrightarrow> n < 3"
proof -
  have seven: "(7 :: u64) = mask 3" by (simp add: mask_eq_exp_minus_1)
  show ?thesis unfolding seven by (auto simp: bit_mask_iff)
qed

lemma entry_flags:
  assumes "page_ok p"
  shows "present (p OR f) \<longleftrightarrow> bit f 0" and "large (p OR f) \<longleftrightarrow> bit f 7"
    and "bit (p OR f) 2 \<longleftrightarrow> bit f 2"
  using assms low_bit_or [of p] by (simp_all add: present_iff large_iff page_ok_def)

lemma rights:
  assumes "page_ok p3" "page_ok p2" "page_ok p1" "page_ok p"
  shows "((p3 OR 7) AND (p2 OR 7) AND (p1 OR f) AND (p OR f)) AND 7 = f AND 7"
proof (rule bit_word_eqI)
  fix n
  have low: "\<not> bit q n" if "page_ok q" "n < 3" for q
    using aligned_bits [of 12 q n] that by (simp add: page_ok_def)
  have seven: "bit (7 :: u64) n \<longleftrightarrow> n < 3" by (rule bit_7_iff)
  show "bit (((p3 OR 7) AND (p2 OR 7) AND (p1 OR f) AND (p OR f)) AND 7) n \<longleftrightarrow> bit (f AND 7) n"
    unfolding bit_and_iff bit_or_iff seven using low assms by blast
qed

lemma walk_small_pages:
  assumes pages: "page_ok p4" "page_ok p3" "page_ok p2" "page_ok p1"
    and tables: "m (p4 + HIGH_VMA) = p3 OR KPAGE_FLAGS" "m (p3 + HIGH_VMA) = p2 OR KPAGE_FLAGS"
      "m (p2 + HIGH_VMA) = p1 OR f"
    and maps: "\<And>i. i < n \<Longrightarrow> m (p1 + HIGH_VMA + 8 * of_nat i) = (physical + 0x1000 * of_nat i) OR f"
    and f: "bit f 0" "\<not> bit f 7" "unat f < 4096" and n: "n \<le> 512"
    and physical: "4096 dvd unat physical" "unat physical + 4096 * n \<le> 2 ^ 47"
    and va: "unat va < 4096 * n"
  shows "walk m p4 va = Some (f AND 7, physical + va)"
proof -
  let ?i = "unat va div 4096"
  have low: "unat va < 2 ^ 21" using va n by simp
  have i: "?i < n" using va by (simp add: div_less_iff_less_mult mult.commute)
  have "unat (0x1000 * of_nat ?i :: u64) = 4096 * ?i"
    using unat_cell [of "0x1000" 512 ?i] i n by simp
  then have frame_addr: "unat (physical + 0x1000 * of_nat ?i) = unat physical + 4096 * ?i"
    using physical(2) i by (subst unat_add_u64) simp_all
  then have page: "page_ok (physical + 0x1000 * of_nat ?i)"
    using physical i by (auto simp: page_ok_def)
  have e4: "entry_at m p4 (slot 3 va) = p3 OR KPAGE_FLAGS"
    using tables(1) by (simp add: entry_at_def slot_low [OF low] frame_page [OF pages(1)])
  have e3: "entry_at m (p3 OR KPAGE_FLAGS) (slot 2 va) = p2 OR KPAGE_FLAGS"
    using tables(2) frame_entry [OF pages(2), of 7]
    by (simp add: entry_at_def slot_low [OF low] KPAGE_FLAGS_bits)
  have e2: "entry_at m (p2 OR KPAGE_FLAGS) (slot 1 va) = p1 OR f"
    using tables(3) frame_entry [OF pages(3), of 7]
    by (simp add: entry_at_def slot_low(3) [OF low, simplified] KPAGE_FLAGS_bits)
  have e1: "entry_at m (p1 OR f) (slot 0 va) = (physical + 0x1000 * of_nat ?i) OR f"
    using maps [OF i] frame_entry [OF pages(4) f(3)]
    by (simp only: entry_at_def slot_low(4) [OF low])
  have sum: "physical + 0x1000 * of_nat ?i + (va AND 0xfff) = physical + va"
    using page_split [of va] by (simp only: add.assoc)
  show ?thesis
    unfolding walk_def Let_def e4 e3 e2 e1
    using rights [OF pages(2-4) page, of f]
    by (simp add: entry_flags pages page f frame_entry KPAGE_FLAGS_bits bit_7_iff sum and.assoc del: of_nat_div)
qed

section \<open>createNewAddressSpace\<close>

lemma page_runs_ok_vmm [simp]:
  "page_runs_ok (s\<lparr>mem := m\<rparr>) rs = page_runs_ok s rs"
  "page_runs_ok (put_entry t i v s) rs = page_runs_ok s rs"
  "page_runs_ok (s\<lparr>pageDirectoryTables := ds\<rparr>) rs = page_runs_ok s rs"
  by (simp_all add: page_runs_ok_def pmm_ok_def npages_def put_entry_def)

lemma update_directory_holds:
  "unat index < length (pageDirectoryTables s) \<Longrightarrow>
   update_directory index f s = Inr (s\<lparr>pageDirectoryTables :=
     (pageDirectoryTables s)[unat index := f (pageDirectoryTables s ! unat index)]\<rparr>)"
  by (simp add: update_directory_def fetch_def store_def)

text \<open>Whether a run of \<open>k\<close> free pages is left.\<close>

definition pages_left :: "'a pmm_state_scheme \<Rightarrow> nat \<Rightarrow> bool" where
  "pages_left s k \<longleftrightarrow> room (bits (bitmap s)) (npages s) k"

lemma pages_left_vmm [simp]:
  "pages_left (s\<lparr>mem := m\<rparr>) k = pages_left s k"
  "pages_left (put_entry t i v s) k = pages_left s k"
  "pages_left (s\<lparr>pageDirectoryTables := ds\<rparr>) k = pages_left s k"
  by (simp_all add: pages_left_def npages_def put_entry_def)

lemma pages_left_less:
  "pages_left s (k + n) \<Longrightarrow> 0 < k \<Longrightarrow> pages_left s k"
  by (force simp: pages_left_def room_iff run_free_def)

definition grow :: "u64 \<Rightarrow> u64 \<Rightarrow> (u64 \<times> u64) list \<Rightarrow> (u64 \<times> u64) list" where
  "grow a c rs = (if a = 0 then rs else (a, c) # rs)"

lemma alloc_grow:
  fixes s :: "'a heap_state_scheme"
  assumes "page_runs_ok s rs"
  shows "holds (physicalPageAlloc c s)
    (\<lambda>(a, s'). (\<exists>bm. s' = s\<lparr>bitmap := bm\<rparr> \<and> page_runs_ok s' (grow a c rs)) \<and>
       (pages_left s (unat c) \<longrightarrow> a \<noteq> 0) \<and>
       (\<forall>k. c = 1 \<and> 0 < k \<and> pages_left s (Suc k) \<longrightarrow> pages_left s' k))"
proof -
  have "page_runs_ok s []" using assms by (simp add: page_runs_ok_def runs_marked_def)
  from holds_conj [OF physicalPageAlloc_heap [OF assms] physicalPageAlloc_fit [OF this]] show ?thesis
  proof (rule holds_mono, clarify)
    fix a :: u64 and bm bm'
    let ?f = "first_fit (bits (bitmap s)) (npages s) (unat c)"
    assume ok: "page_runs_ok (s\<lparr>bitmap := bm\<rparr>) (if run_address ?f = 0 then rs else (run_address ?f, c) # rs)"
      and used: "bits bm = bits (bitmap s) \<union> run_pages ?f (unat c)"
    have "run_address ?f \<noteq> 0" if "pages_left s (unat c)"
    proof -
      from that obtain q where q: "?f = Some q" by (auto simp: pages_left_def room_def)
      then have free: "q < npages s" "q \<notin> bits (bitmap s)" by (auto simp: first_fit_Some_iff run_free_def)
      with assms show ?thesis
        unfolding q run_address_simps by (intro free_page_address) (simp_all add: page_runs_ok_def)
    qed
    moreover have left: "pages_left (s\<lparr>bitmap := bm\<rparr>) k" if c: "c = 1" and k: "0 < k" and more: "pages_left s (Suc k)" for k
    proof -
      obtain q where q: "first_fit (bits (bitmap s)) (npages s) 1 = Some q" "room (bits (bitmap s) \<union> {q..<q + 1}) (npages s) k"
        using room_unit [OF more[unfolded pages_left_def] k refl] by blast
      have one: "unat c = 1" using c by simp
      show ?thesis using q(2) used unfolding pages_left_def npages_bitmap one q(1) run_address_simps by simp
    qed
    moreover have "\<exists>bm'. s\<lparr>bitmap := bm\<rparr> = s\<lparr>bitmap := bm'\<rparr> \<and> page_runs_ok (s\<lparr>bitmap := bm\<rparr>) (grow (run_address ?f) c rs)"
      using ok unfolding grow_def by (intro exI [of _ bm] conjI refl)
    ultimately show "(\<exists>bm'. s\<lparr>bitmap := bm\<rparr> = s\<lparr>bitmap := bm'\<rparr> \<and> page_runs_ok (s\<lparr>bitmap := bm\<rparr>) (grow (run_address ?f) c rs)) \<and>
       (pages_left s (unat c) \<longrightarrow> run_address ?f \<noteq> 0) \<and>
       (\<forall>k. c = 1 \<and> 0 < k \<and> pages_left s (Suc k) \<longrightarrow> pages_left (s\<lparr>bitmap := bm\<rparr>) k)"
      by blast
  qed
qed

lemma page_runs_bound:
  assumes "page_runs_ok s rs" and "(p, c) \<in> set rs" and "unat (totalDetectedMemory s) \<le> 2 ^ 47"
  shows "4096 dvd unat p" and "unat p + 4096 * unat c \<le> 2 ^ 47"
proof -
  show p: "4096 dvd unat p" using assms(1,2) by (auto simp: page_runs_ok_def)
  have "unat p div 4096 + unat c \<le> npages s" using assms(1,2) by (auto simp: page_runs_ok_def)
  then have "4096 * (unat p div 4096 + unat c) \<le> 4096 * npages s" by simp
  also have "\<dots> \<le> unat (totalDetectedMemory s)" by (simp add: npages_def unat_div)
  finally show "unat p + 4096 * unat c \<le> 2 ^ 47" using p assms(3) by (simp add: distrib_left)
qed

lemma page_runs_page_ok:
  assumes "page_runs_ok s rs" and "(p, 1) \<in> set rs" and "unat (totalDetectedMemory s) \<le> 2 ^ 47"
  shows "page_ok p"
  using page_runs_bound [OF assms] by (simp add: page_ok_def)

lemma flags_large: "flags AND push_bit 7 1 = 0 \<longleftrightarrow> \<not> bit flags 7" for flags :: u64
  using large_iff [of flags] unfolding large_def by blast

lemma walk_built:
  assumes pages: "page_ok p4" "page_ok p3" "page_ok p2" "page_ok p1"
    and neq: "p1 \<noteq> p2" "p1 \<noteq> p3" "p1 \<noteq> p4" "p2 \<noteq> p3" "p2 \<noteq> p4" "p3 \<noteq> p4"
    and m: "m = m0(p4 + HIGH_VMA + 8 * of_nat 256 := a, p4 + HIGH_VMA + 8 * of_nat 511 := b,
        p4 + HIGH_VMA + 8 * of_nat 0 := p3 OR KPAGE_FLAGS,
        p3 + HIGH_VMA + 8 * of_nat 0 := p2 OR KPAGE_FLAGS,
        p2 + HIGH_VMA + 8 * of_nat 0 := p1 OR f)"
    and maps: "\<And>i. i < n \<Longrightarrow> m' (p1 + HIGH_VMA + 8 * of_nat i) = (physical + 0x1000 * of_nat i) OR f"
    and rest: "\<And>a. (\<And>i. i < n \<Longrightarrow> a \<noteq> p1 + HIGH_VMA + 8 * of_nat i) \<Longrightarrow> m' a = m a"
    and f: "bit f 0" "\<not> bit f 7" "unat f < 4096" and n: "n \<le> 512"
    and physical: "4096 dvd unat physical" "unat physical + 4096 * n \<le> 2 ^ 47"
    and va: "unat va < 4096 * n"
  shows "walk m' p4 va = Some (f AND 7, physical + va)"
proof (rule walk_small_pages [OF pages _ _ _ maps f n physical va])
  have al: "4096 dvd unat p1" "4096 dvd unat p2" "4096 dvd unat p3" "4096 dvd unat p4"
    using pages by (simp_all add: page_ok_def)
  have keep: "m' (q + HIGH_VMA + 8 * of_nat 0) = m (q + HIGH_VMA + 8 * of_nat 0)"
    if "4096 dvd unat q" "p1 \<noteq> q" for q
    using page_cell_neq [OF al(1) that(1,2) _, of _ 0] n by (intro rest) (metis less_le_trans zero_less_numeral)
  have "m (p4 + HIGH_VMA + 8 * of_nat 0) = p3 OR KPAGE_FLAGS"
    using page_cell_neq [OF al(4,3), of 0 0] page_cell_neq [OF al(4,2), of 0 0] neq by (simp add: m)
  then show "m' (p4 + HIGH_VMA) = p3 OR KPAGE_FLAGS" using keep [OF al(4)] neq by simp
  have "m (p3 + HIGH_VMA + 8 * of_nat 0) = p2 OR KPAGE_FLAGS"
    using page_cell_neq [OF al(3,2), of 0 0] neq by (simp add: m)
  then show "m' (p3 + HIGH_VMA) = p2 OR KPAGE_FLAGS" using keep [OF al(3)] neq by simp
  show "m' (p2 + HIGH_VMA) = p1 OR f" using keep [OF al(2)] neq by (simp add: m)
qed assumption

lemma kva_page: "page_ok p \<Longrightarrow> kva (p + HIGH_VMA) = p + HIGH_VMA"
  by (rule kva_high) (simp add: page_ok_def)

lemma put_entry_sel [simp]:
  "mem (put_entry t i v s) = (mem s)(kva t + 8 * i := v)"
  "pageDirectoryTables (put_entry t i v s) = pageDirectoryTables s"
  "totalDetectedMemory (put_entry t i v s) = totalDetectedMemory s"
  by (simp_all add: put_entry_def)

text \<open>One page for the table entry \<open>index\<close>: the step \<open>createNewAddressSpace\<close> repeats.\<close>

lemma alloc_into_directory:
  fixes s :: "'a vmm_state_scheme"
  assumes "page_runs_ok s rs" and "unat index < length (pageDirectoryTables s)"
    and "\<And>p s'. page_runs_ok s' (grow p 1 rs) \<Longrightarrow> mem s' = mem s \<Longrightarrow>
      (\<forall>k. 0 < k \<and> pages_left s (Suc k) \<longrightarrow> p \<noteq> 0 \<and> pages_left s' k) \<Longrightarrow>
      totalDetectedMemory s' = totalDetectedMemory s \<Longrightarrow>
      length (pageDirectoryTables s') = length (pageDirectoryTables s) \<Longrightarrow>
      pageDirectoryTables s' ! unat index = f p (pageDirectoryTables s ! unat index) \<Longrightarrow>
      holds (k p s') Q"
  shows "holds (and_then (physicalPageAlloc 1 s)
    (\<lambda>(p, s). and_then (update_directory index (f p) s) (k p))) Q"
proof (rule holds_bind [OF alloc_grow [OF assms(1)]], clarify)
  fix p bm
  assume r: "page_runs_ok (s\<lparr>bitmap := bm\<rparr>) (grow p 1 rs)" and one: "pages_left s (unat 1) \<longrightarrow> p \<noteq> 0"
    and left: "\<forall>k. (1 :: u64) = 1 \<and> 0 < k \<and> pages_left s (Suc k) \<longrightarrow> pages_left (s\<lparr>bitmap := bm\<rparr>) k"
  have left': "\<forall>k. 0 < k \<and> pages_left s (Suc k) \<longrightarrow> p \<noteq> 0 \<and> pages_left (s\<lparr>bitmap := bm\<rparr>) k"
    using one left pages_left_less [of s 1] by auto
  have i: "unat index < length (pageDirectoryTables (s\<lparr>bitmap := bm\<rparr>))" using assms(2) by simp
  show "holds (and_then (update_directory index (f p) (s\<lparr>bitmap := bm\<rparr>)) (k p)) Q"
    unfolding update_directory_holds [OF i] and_then_simps
    by (rule assms(3)) (use r left' assms(2) in simp_all)
qed

text \<open>What the address space of directory entry \<open>d\<close> is; \<open>fit\<close> says that all its pages could be allocated.\<close>

definition space_built ::
  "bool \<Rightarrow> u64 \<Rightarrow> u64 \<Rightarrow> (u64 \<times> u64) list \<Rightarrow> pageDirectoryEntry_t \<Rightarrow> 'a vmm_state_scheme \<Rightarrow> bool"
where
  "space_built fit sz flags rs d s' \<longleftrightarrow> (\<exists>physical.
     (fit \<longrightarrow> d_pml4 d \<noteq> 0 \<and> d_pml3 d \<noteq> 0 \<and> d_pml2 d \<noteq> 0 \<and> d_pml1 d \<noteq> 0 \<and> physical \<noteq> 0) \<and>
     (d_pml4 d \<noteq> 0 \<and> d_pml3 d \<noteq> 0 \<and> d_pml2 d \<noteq> 0 \<and> d_pml1 d \<noteq> 0 \<longrightarrow>
        page_runs_ok s' ((if physical = 0 then [] else [(physical, sz)]) @
          [(d_pml1 d, 1), (d_pml2 d, 1), (d_pml3 d, 1), (d_pml4 d, 1)] @ rs) \<and>
        (\<forall>va. unat va < 4096 * unat sz \<longrightarrow> walk (mem s') (d_pml4 d) va = Some (flags AND 7, physical + va))))"

text \<open>The end of the construction, from the state in which all pages are allocated.\<close>

lemma createNewAddressSpace_finish:
  fixes s :: "'a vmm_state_scheme"
  assumes fit: "fit \<Longrightarrow> p4 \<noteq> 0 \<and> p3 \<noteq> 0 \<and> p2 \<noteq> 0 \<and> p1 \<noteq> 0 \<and> physical \<noteq> 0"
    and ok: "page_runs_ok s (grow physical sz (grow p1 1 (grow p2 1 (grow p3 1 (grow p4 1 rs)))))"
    and small: "unat (totalDetectedMemory s) \<le> 2 ^ 47"
    and sz: "unat sz \<le> 512" and f: "bit flags 0" "\<not> bit flags 7" "unat flags < 4096"
    and mem: "mem s = m0(kva (p4 + HIGH_VMA) + 8 * 256 := a, kva (p4 + HIGH_VMA) + 8 * 511 := b,
        kva (p4 + HIGH_VMA) + 8 * 0 := (p3 + HIGH_VMA - HIGH_VMA) OR KPAGE_FLAGS,
        kva (p3 + HIGH_VMA) + 8 * 0 := (p2 + HIGH_VMA - HIGH_VMA) OR KPAGE_FLAGS,
        kva (p2 + HIGH_VMA) + 8 * 0 := (p1 + HIGH_VMA - HIGH_VMA) OR flags)"
    and d: "d_pml4 d = p4" "d_pml3 d = p3" "d_pml2 d = p2" "d_pml1 d = p1"
      "pageDirectoryTables s ! unat index = d"
  shows "holds (and_then (map_pages (p1 + HIGH_VMA) sz flags 0x1000 physical s) (\<lambda>s. Inr (index, s)))
    (\<lambda>(i, s'). i = index \<and>
     space_built fit sz flags rs (pageDirectoryTables s' ! unat index) s')"
proof (rule holds_bind [OF map_pages_holds [OF sz]], unfold holds_simps prod.case, elim exE conjE,
    intro conjI refl)
  fix s' m
  assume s': "s' = s\<lparr>mem := m\<rparr>"
    and maps: "\<forall>i < unat sz. m (kva (p1 + HIGH_VMA) + 8 * of_nat i) =
      physical + 0x1000 * of_nat i OR flags"
    and rest: "\<forall>a. (\<forall>i < unat sz. a \<noteq> kva (p1 + HIGH_VMA) + 8 * of_nat i) \<longrightarrow> m a = mem s a"
  let ?d = "pageDirectoryTables s' ! unat index"
  have d': "d_pml4 ?d = p4" "d_pml3 ?d = p3" "d_pml2 ?d = p2" "d_pml1 ?d = p1" by (simp_all add: s' d)
  have built: "page_runs_ok s' ((if physical = 0 then [] else [(physical, sz)]) @ [(p1, 1), (p2, 1), (p3, 1), (p4, 1)] @ rs) \<and>
      (\<forall>va. unat va < 4096 * unat sz \<longrightarrow> walk (mem s') p4 va = Some (flags AND 7, physical + va))"
    if nz: "p4 \<noteq> 0" "p3 \<noteq> 0" "p2 \<noteq> 0" "p1 \<noteq> 0"
  proof -
  let ?rs = "[(p1, 1), (p2, 1), (p3, 1), (p4, 1)] @ rs"
  have ok': "page_runs_ok s ((if physical = 0 then [] else [(physical, sz)]) @ ?rs)"
    using ok nz by (simp add: grow_def split: if_splits)
  have pages: "page_ok p1" "page_ok p2" "page_ok p3" "page_ok p4"
    by (rule page_runs_page_ok [OF ok' _ small], simp)+
  have dis: "disjoint_runs (extent 4096) ?rs"
    using pages.disjoint [OF ok'] by (simp split: if_splits)
  have neq: "p1 \<noteq> p2" "p1 \<noteq> p3" "p1 \<noteq> p4" "p2 \<noteq> p3" "p2 \<noteq> p4" "p3 \<noteq> p4"
  proof -
    have apart: "p \<noteq> q" if "extent 4096 (p, 1) \<inter> extent 4096 (q, 1) = {}" for p q
    proof -
      have "unat p \<in> extent 4096 (p, 1)" by (simp add: extent_def)
      with that show ?thesis by auto
    qed
    show "p1 \<noteq> p2" "p1 \<noteq> p3" "p1 \<noteq> p4" "p2 \<noteq> p3" "p2 \<noteq> p4" "p3 \<noteq> p4"
      by (rule apart, use dis in simp)+
  qed
  have physical: "4096 dvd unat physical \<and> unat physical + 4096 * unat sz \<le> 2 ^ 47"
  proof (cases "physical = 0")
    case True
    then show ?thesis using sz by simp
  next
    case False
    then show ?thesis using page_runs_bound [OF ok' _ small, of physical sz] by simp
  qed
  show ?thesis
  proof (intro conjI allI impI)
    show "page_runs_ok s' ((if physical = 0 then [] else [(physical, sz)]) @ ?rs)"
      using ok' by (simp add: s')
    show "walk (mem s') p4 va = Some (flags AND 7, physical + va)"
      if "unat va < 4096 * unat sz" for va
    proof (rule walk_built [OF pages(4,3,2,1) neq _ _ _ f sz _ _ that])
      show "mem s = m0(p4 + HIGH_VMA + 8 * of_nat 256 := a, p4 + HIGH_VMA + 8 * of_nat 511 := b,
        p4 + HIGH_VMA + 8 * of_nat 0 := p3 OR KPAGE_FLAGS,
        p3 + HIGH_VMA + 8 * of_nat 0 := p2 OR KPAGE_FLAGS,
        p2 + HIGH_VMA + 8 * of_nat 0 := p1 OR flags)"
        by (simp add: mem kva_page pages)
    qed (use maps rest physical pages in \<open>simp_all add: kva_page s'\<close>)
  qed
  qed
  then show "space_built fit sz flags rs ?d s'"
    unfolding space_built_def d' using fit by blast
qed

lemma createNewAddressSpace_holds:
  fixes s :: "'a vmm_state_scheme"
  assumes ok: "page_runs_ok s rs" and small: "unat (totalDetectedMemory s) \<le> 2 ^ 47"
    and slot: "findFirstFreeSlot s = Inr index" "unat index < length (pageDirectoryTables s)"
    and sz: "unat sz \<le> 512" and f: "bit flags 0" "\<not> bit flags 7" "unat flags < 4096"
    and fit: "fit \<longleftrightarrow> 0 < unat sz \<and> pages_left s (4 + unat sz)"
  shows "holds (createNewAddressSpace sz flags s) (\<lambda>(i, s'). i = index \<and>
     space_built fit sz flags rs (pageDirectoryTables s' ! unat index) s')"
  unfolding createNewAddressSpace_def slot and_then_simps
proof (rule alloc_into_directory [OF ok slot(2)], goal_cases)
  case (1 p4 s4)
  have fit4: "p4 \<noteq> 0 \<and> pages_left s4 (3 + unat sz)" if fit
    using 1(3)[rule_format, of "3 + unat sz"] fit that by (simp add: numeral_eq_Suc)
  show ?case
  proof (rule alloc_into_directory [OF 1(1)], use 1 slot(2) in simp, goal_cases)
    case 2: (1 p3 s3)
    have fit3: "p3 \<noteq> 0 \<and> pages_left s3 (2 + unat sz)" if fit
      using 2(3)[rule_format, of "2 + unat sz"] fit4 that by (simp add: numeral_eq_Suc)
    show ?case
    proof (rule alloc_into_directory [OF 2(1)], use 1 2 slot(2) in simp, goal_cases)
      case 3: (1 p2 s2)
      have fit2: "p2 \<noteq> 0 \<and> pages_left s2 (1 + unat sz)" if fit
        using 3(3)[rule_format, of "1 + unat sz"] fit3 that by (simp add: numeral_eq_Suc)
      show ?case
        unfolding Let_def flags_large
          if_P [OF f(2)]
      proof (rule alloc_into_directory [where rs = "grow p2 1 (grow p3 1 (grow p4 1 rs))"], goal_cases)
        case 4: (3 p1 s1)
        have fit1: "p1 \<noteq> 0 \<and> pages_left s1 (unat sz)" if fit
          using 4(3)[rule_format, of "unat sz"] fit2 fit that by (simp add: numeral_eq_Suc)
        show ?case
        proof (rule holds_bind [OF alloc_grow], use 4 in simp, clarify, goal_cases)
          case 5: (1 physical _ b)
          have all: "p4 \<noteq> 0 \<and> p3 \<noteq> 0 \<and> p2 \<noteq> 0 \<and> p1 \<noteq> 0 \<and> physical \<noteq> 0" if fit
            using 5 fit4 fit3 fit2 fit1 that by simp
          show ?case
            by (rule createNewAddressSpace_finish [OF all 5(3) _ sz f, where ?m0.0 = "mem s"
                and a = "kpml3Addr OR KPAGE_FLAGS" and b = "kpml3AddrHH OR KPAGE_FLAGS"])
              (use 1 2 3 4 small in simp_all)
        qed
      qed (use 1 2 3 slot(2) in simp_all)
    qed
  qed
qed

text \<open>What it changes at most, for callers with more state.\<close>

definition vmm_changed :: "'a vmm_state_scheme \<Rightarrow> 'a vmm_state_scheme \<Rightarrow> bool" where
  "vmm_changed s s' \<longleftrightarrow> s' = s\<lparr>bitmap := bitmap s', mem := mem s', pageDirectoryTables := pageDirectoryTables s'\<rparr>"

lemma vmm_changed_trans:
  "vmm_changed s s' \<Longrightarrow> vmm_changed s' s'' \<Longrightarrow> vmm_changed s s''"
  by (cases s; cases s'; cases s'') (simp add: vmm_changed_def)

lemma vmm_changed_update [simp]:
  "vmm_changed s (s'\<lparr>bitmap := bm\<rparr>) = vmm_changed s s'" "vmm_changed s (s'\<lparr>mem := m\<rparr>) = vmm_changed s s'"
  "vmm_changed s (put_entry t i v s') = vmm_changed s s'"
  "vmm_changed s (s'\<lparr>pageDirectoryTables := ds\<rparr>) = vmm_changed s s'" "vmm_changed s s"
  by (cases s; cases s'; simp add: vmm_changed_def put_entry_def)+

lemma alloc_into_directory_changes:
  fixes s :: "'a vmm_state_scheme"
  assumes "page_runs_ok s []" and "unat index < length (pageDirectoryTables s)"
    and "\<And>p s'. page_runs_ok s' [] \<Longrightarrow> vmm_changed s s' \<Longrightarrow>
      length (pageDirectoryTables s') = length (pageDirectoryTables s) \<Longrightarrow> holds (k p s') Q"
  shows "holds (and_then (physicalPageAlloc 1 s)
    (\<lambda>(p, s). and_then (update_directory index (f p) s) (k p))) Q"
proof (rule alloc_step [OF assms(1) refl], unfold prod.case)
  fix bm
  assume "page_runs_ok (s\<lparr>bitmap := bm\<rparr>) []"
  moreover have i: "unat index < length (pageDirectoryTables (s\<lparr>bitmap := bm\<rparr>))" using assms(2) by simp
  ultimately show "holds (and_then (update_directory index (f (run_address
      (first_fit (bits (bitmap s)) (npages s) (unat 1)))) (s\<lparr>bitmap := bm\<rparr>))
    (k (run_address (first_fit (bits (bitmap s)) (npages s) (unat 1))))) Q"
    unfolding update_directory_holds [OF i] and_then_simps
    by (intro assms(3)) simp_all
qed

lemma createNewAddressSpace_changes:
  fixes s :: "'a vmm_state_scheme"
  assumes ok: "page_runs_ok s []" and slot: "findFirstFreeSlot s = Inr index" "unat index < length (pageDirectoryTables s)"
    and sz: "unat sz \<le> 512" and f: "\<not> bit flags 7"
  shows "holds (createNewAddressSpace sz flags s) (\<lambda>(i, s'). vmm_changed s s' \<and> page_runs_ok s' [])"
  unfolding createNewAddressSpace_def slot and_then_simps
proof (rule alloc_into_directory_changes [OF ok slot(2)], goal_cases)
  case (1 p4 s4)
  show ?case
  proof (rule alloc_into_directory_changes [OF 1(1)], use 1 slot(2) in simp, goal_cases)
    case 2: (1 p3 s3)
    show ?case
    proof (rule alloc_into_directory_changes [OF 2(1)], use 1 2 slot(2) in simp, goal_cases)
      case 3: (1 p2 s2)
      have s2: "vmm_changed s s2" using 1(2) 2(2) 3(2) by (blast intro: vmm_changed_trans)
      show ?case
        unfolding Let_def flags_large if_P [OF f]
      proof (rule alloc_into_directory_changes, goal_cases)
        case 4: (3 p1 s1)
        have s1: "vmm_changed s s1"
          by (rule vmm_changed_trans [OF _ 4(2)]) (simp add: s2)
        let ?t = "put_entry (p2 + HIGH_VMA) 0 (p1 + HIGH_VMA - HIGH_VMA OR flags) s1"
        have t: "page_runs_ok ?t []" using 4(1) by simp
        show ?case
        proof (rule alloc_step [OF t refl], unfold prod.case, rule holds_bind [OF map_pages_holds [OF sz]], clarify, goal_cases)
          case (1 b m)
          then show ?case using s1 by simp
        qed
      qed (use 1 2 3 slot(2) in simp_all)
    qed
  qed
qed

text \<open>
  C9: an address space of small pages, at the index of the first free entry. When its four tables could be allocated,
  the walk of its tables translates every address of the \<open>size\<close> pages to the run of pages from \<open>physical\<close> on, with the
  rights of \<open>flags\<close>; the tables are held like every run of the allocator, and so is the run, unless \<open>physical\<close> is 0: the
  result of \<open>physicalPageAlloc(size)\<close> is not checked, and after a failure the pages from 0 on are mapped although
  nobody holds them. With \<open>size + 4\<close> free pages in a row nothing fails: every table and \<open>physical\<close> are nonzero. Nothing is
  said about other addresses: the tables are not cleared.
\<close>

theorem createNewAddressSpace_maps:
  fixes s :: "'a vmm_state_scheme"
  assumes "page_runs_ok s rs" and "unat (totalDetectedMemory s) \<le> 2 ^ 47"
    and "findFirstFreeSlot s = Inr index" and "unat index < length (pageDirectoryTables s)"
    and "unat sz \<le> 512" and "bit flags 0" and "\<not> bit flags 7" and "unat flags < 4096"
  shows "holds (createNewAddressSpace sz flags s) (\<lambda>(i, s'). i = index \<and>
    (let d = pageDirectoryTables s' ! unat index in
     \<exists>physical.
       (0 < unat sz \<and> (\<exists>p. run_free (bits (bitmap s)) (npages s) (4 + unat sz) p) \<longrightarrow>
          d_pml4 d \<noteq> 0 \<and> d_pml3 d \<noteq> 0 \<and> d_pml2 d \<noteq> 0 \<and> d_pml1 d \<noteq> 0 \<and> physical \<noteq> 0) \<and>
       (d_pml4 d \<noteq> 0 \<and> d_pml3 d \<noteq> 0 \<and> d_pml2 d \<noteq> 0 \<and> d_pml1 d \<noteq> 0 \<longrightarrow>
          page_runs_ok s' ((if physical = 0 then [] else [(physical, sz)]) @
            [(d_pml1 d, 1), (d_pml2 d, 1), (d_pml3 d, 1), (d_pml4 d, 1)] @ rs) \<and>
          (\<forall>va. unat va < 4096 * unat sz \<longrightarrow>
             walk (mem s') (d_pml4 d) va = Some (flags AND 7, physical + va)))))"
  using createNewAddressSpace_holds [OF assms, unfolded space_built_def pages_left_def room_iff, OF refl]
  unfolding Let_def .

section \<open>freeAddressSpace and initAddressSpace\<close>

lemma free_one_page:
  assumes "4096 dvd unat p" and "unat p div 4096 < 8 * length (bitmap s)"
  shows "holds (physicalPageFree p 1 s) (\<lambda>s'. \<exists>bm. s' = s\<lparr>bitmap := bm\<rparr> \<and>
    length bm = length (bitmap s) \<and> bits bm = bits (bitmap s) - {unat p div 4096})"
proof -
  have "unat p div 4096 + unat (1 :: u64) < 2 ^ 64"
    using unat_less_u64 [of p] by (simp add: div_less_iff_less_mult)
  then show ?thesis
    by (rule_tac holds_mono [OF physicalPageFree_holds]) (use assms in auto)
qed

definition directory_pages :: "pageDirectoryEntry_t \<Rightarrow> u64 list" where
  "directory_pages d = [d_pml4 d, d_pml3 d, d_pml2 d, d_pml1 d]"

lemma freeAddressSpace_holds:
  assumes i: "unat index < length (pageDirectoryTables s)"
    and pages: "\<And>p. p \<in> set (directory_pages (pageDirectoryTables s ! unat index)) \<Longrightarrow>
      4096 dvd unat p \<and> unat p div 4096 < 8 * length (bitmap s)"
  shows "holds (freeAddressSpace index s) (\<lambda>s'.
    bits (bitmap s') = bits (bitmap s) -
      (\<lambda>p. unat p div 4096) ` set (directory_pages (pageDirectoryTables s ! unat index)) \<and>
    pageDirectoryTables s' = (pageDirectoryTables s)[unat index := zero_directory])"
proof -
  let ?d = "pageDirectoryTables s ! unat index"
  have p: "4096 dvd unat (f ?d)" "unat (f ?d) div 4096 < 8 * length bm"
    if "f \<in> {d_pml4, d_pml3, d_pml2, d_pml1}" "length bm = length (bitmap s)" for f and bm :: "u8 list"
    using pages [of "f ?d"] that by (auto simp: directory_pages_def)
  have fetch: "fetch (pageDirectoryTables s) index = Inr ?d" using i by (simp add: fetch_def)
  show ?thesis
    unfolding freeAddressSpace_def fetch and_then_simps
    by (rule holds_bind, rule free_one_page, simp_all add: p, clarify)+
       (use i in \<open>auto simp: update_directory_holds directory_pages_def\<close>)
qed

text \<open>
  \<open>freeAddressSpace\<close> clears the entry of the address space and frees the pages of its four
  tables and no others: the pages the address space maps stay allocated, and a level that was
  never allocated (level 1 of an address space of large pages) frees page 0.
\<close>

theorem freeAddressSpace_frees:
  assumes "unat index < length (pageDirectoryTables s)"
    and "d = pageDirectoryTables s ! unat index"
    and "\<forall>p \<in> {d_pml4 d, d_pml3 d, d_pml2 d, d_pml1 d}.
      4096 dvd unat p \<and> unat p div 4096 < 8 * length (bitmap s)"
  shows "\<exists>s'. freeAddressSpace index s = Inr s' \<and>
    bits (bitmap s') = bits (bitmap s) - {unat (d_pml4 d) div 4096, unat (d_pml3 d) div 4096,
      unat (d_pml2 d) div 4096, unat (d_pml1 d) div 4096} \<and>
    pageDirectoryTables s' ! unat index = zero_directory \<and>
    (d_pml1 d = 0 \<longrightarrow> 0 \<notin> bits (bitmap s'))"
proof -
  have "holds (freeAddressSpace index s) (\<lambda>s'.
    bits (bitmap s') = bits (bitmap s) -
      (\<lambda>p. unat p div 4096) ` set (directory_pages (pageDirectoryTables s ! unat index)) \<and>
    pageDirectoryTables s' = (pageDirectoryTables s)[unat index := zero_directory])"
    by (rule freeAddressSpace_holds) (use assms in \<open>auto simp: directory_pages_def\<close>)
  then show ?thesis using assms(1,2) by (auto simp: directory_pages_def elim!: holdsE)
qed

text \<open>
  \<open>initAddressSpace\<close> loads \<open>cr3\<close> for an address space that exists and prints an error for
  one that does not and for an index above \<open>pageDirectoryCount\<close>; but an index between the
  number of entries of the table and \<open>pageDirectoryCount\<close> (100 and 1000 after \<open>initVMM\<close>) is
  not rejected: the table is read out of bounds.
\<close>

theorem initAddressSpace_cases:
  assumes "console_ready s"
  shows "if index > pageDirectoryCount s then
      (\<exists>out s'. initAddressSpace index s = Inr s' \<and> printed out s s')
    else if length (pageDirectoryTables s) \<le> unat index then
      initAddressSpace index s = Inl OutOfBounds
    else if d_pml4 (pageDirectoryTables s ! unat index) = 0 then
      (\<exists>out s'. initAddressSpace index s = Inr s' \<and> printed out s s')
    else initAddressSpace index s = Inr (s\<lparr>cr3 := d_pml4 (pageDirectoryTables s ! unat index)\<rparr>)"
proof -
  have "holds (kprintDS (cstr ''[KMM]'')
        (cstr ''Error: VMM trying to enter an invaild address space'') [] s)
      (printed (header ''[KMM]'' @ ''Error: VMM trying to enter an invaild address space'' @ [CHR 0x0A]) s)"
    by (rule kprintDS_plain) (simp_all add: assms message_def)
  then obtain s' where "kprintDS (cstr ''[KMM]'')
        (cstr ''Error: VMM trying to enter an invaild address space'') [] s = Inr s'"
      "printed (header ''[KMM]'' @ ''Error: VMM trying to enter an invaild address space'' @ [CHR 0x0A]) s s'"
    by (rule holdsE)
  then show ?thesis
    by (auto simp: initAddressSpace_def Let_def fetch_def not_less simp del: cstr_simps)
qed

section \<open>initVMM\<close>

text \<open>The five tables the loop fills, and the address the first page of each maps.\<close>

definition large_tables :: "(u64 \<times> u64) list" where
  "large_tables = [(kpml2Addr_1G, 0), (kpml2Addr_2G, 0x40000000), (kpml2Addr_3G, 0x40000000 * 2),
     (kpml2Addr_4G, 0x40000000 * 3), (kpml2AddrHH, 0)]"

definition large_entry :: "u64 \<Rightarrow> u64" where
  "large_entry p = p OR push_bit 7 1 OR KPAGE_FLAGS"

definition put_all ::
  "(u64 \<times> u64) list \<Rightarrow> u64 \<Rightarrow> u64 \<Rightarrow> 'a vmm_state_scheme \<Rightarrow> 'a vmm_state_scheme"
where
  "put_all ts i p s = fold (\<lambda>(t, off) s. put_entry t i (large_entry (p + off)) s) ts s"

lemma large_table_page:
  "\<forall>x \<in> set large_tables. 4096 dvd unat (fst x) \<and> kva (fst x) = fst x + HIGH_VMA"
  by (auto simp: large_tables_def kpml_defs kva_def)

lemma put_all_mem:
  assumes "distinct (map fst ts)"
    and "\<forall>x \<in> set ts. 4096 dvd unat (fst x) \<and> kva (fst x) = fst x + HIGH_VMA"
    and i: "unat i < 512"
  shows "\<exists>m. put_all ts i p s = s\<lparr>mem := m\<rparr> \<and>
    (\<forall>(t, off) \<in> set ts. m (t + HIGH_VMA + 8 * i) = large_entry (p + off)) \<and>
    (\<forall>a. (\<forall>(t, off) \<in> set ts. a \<noteq> t + HIGH_VMA + 8 * i) \<longrightarrow> m a = mem s a)"
  using assms(1,2)
proof (induction ts arbitrary: s)
  case Nil
  then show ?case by (auto simp: put_all_def intro: exI [of _ "mem s"])
next
  case (Cons x ts)
  obtain t off where x: "x = (t, off)" by (cases x)
  let ?s = "put_entry t i (large_entry (p + off)) s"
  from Cons.IH [of ?s] Cons.prems obtain m where m: "put_all ts i p ?s = ?s\<lparr>mem := m\<rparr>"
    "\<forall>(t, off) \<in> set ts. m (t + HIGH_VMA + 8 * i) = large_entry (p + off)"
    "\<And>a. (\<forall>(t, off) \<in> set ts. a \<noteq> t + HIGH_VMA + 8 * i) \<Longrightarrow> m a = mem ?s a"
    by auto
  have t: "4096 dvd unat t" "kva t = t + HIGH_VMA" using Cons.prems(2) by (simp_all add: x)
  have "t + HIGH_VMA + 8 * of_nat (unat i) \<noteq> t' + HIGH_VMA + 8 * of_nat (unat i)" if "(t', o') \<in> set ts" for t' o'
    by (rule page_cell_neq) (use t i Cons.prems that in \<open>force simp: x\<close>)+
  then have "m (t + HIGH_VMA + 8 * i) = large_entry (p + off)"
    by (subst m(3)) (auto simp: t)
  moreover have "m a = mem s a" if "\<forall>(t, off) \<in> set (x # ts). a \<noteq> t + HIGH_VMA + 8 * i" for a
    using that by (subst m(3)) (auto simp: x t)
  ultimately show ?case
    using m(1,2) by (intro exI [of _ m]) (auto simp: put_all_def x put_entry_def)
qed


definition filled :: "u64 \<Rightarrow> (u64 \<Rightarrow> u64) \<Rightarrow> (u64 \<Rightarrow> u64) \<Rightarrow> bool" where
  "filled i m0 m \<longleftrightarrow>
     (\<forall>(t, off) \<in> set large_tables. \<forall>j < unat i.
        m (t + HIGH_VMA + 8 * of_nat j) = large_entry (0x200000 * of_nat j + off)) \<and>
     (\<forall>a. (\<forall>(t, off) \<in> set large_tables. \<forall>j < unat i. a \<noteq> t + HIGH_VMA + 8 * of_nat j) \<longrightarrow> m a = m0 a)"

lemma distinct_large_tables: "distinct (map fst large_tables)"
  by (simp add: large_tables_def kpml_defs)

lemma filled_step:
  assumes "filled i (mem s) m" and "i < 512"
  shows "\<exists>m'. put_all large_tables i (0x200000 * i) (s\<lparr>mem := m\<rparr>) = s\<lparr>mem := m'\<rparr> \<and>
    filled (i + 1) (mem s) m'"
proof -
  have i: "unat i < 512" "unat (i + 1) = Suc (unat i)"
    using assms(2) unat_plus_1 [OF assms(2)] by (simp_all add: word_less_nat_alt)
  obtain m' where m': "put_all large_tables i (0x200000 * i) (s\<lparr>mem := m\<rparr>) = s\<lparr>mem := m'\<rparr>"
    and new: "\<And>t off. (t, off) \<in> set large_tables \<Longrightarrow>
      m' (t + HIGH_VMA + 8 * i) = large_entry (0x200000 * i + off)"
    and old: "\<And>a. (\<forall>(t, off) \<in> set large_tables. a \<noteq> t + HIGH_VMA + 8 * i) \<Longrightarrow> m' a = m a"
    using put_all_mem [OF distinct_large_tables large_table_page i(1),
        where s = "s\<lparr>mem := m\<rparr>" and p = "0x200000 * i"]
    by auto
  have neq: "t + HIGH_VMA + 8 * of_nat j \<noteq> t' + HIGH_VMA + 8 * i"
    if "(t, off) \<in> set large_tables" "(t', off') \<in> set large_tables" "j < unat i" for t off t' off' j
  proof (cases "t = t'")
    case True
    have "t' + HIGH_VMA + 8 * of_nat j \<noteq> t' + HIGH_VMA + 8 * of_nat (unat i)"
      by (rule page_cell_inj) (use that i(1) in auto)
    with True show ?thesis by simp
  next
    case False
    have "t + HIGH_VMA + 8 * of_nat j \<noteq> t' + HIGH_VMA + 8 * of_nat (unat i)"
      by (rule page_cell_neq) (use False that i(1) large_table_page in auto)
    then show ?thesis by simp
  qed
  have "m' (t + HIGH_VMA + 8 * of_nat j) = large_entry (0x200000 * of_nat j + off)"
    if t: "(t, off) \<in> set large_tables" and j: "j < Suc (unat i)" for t off j
  proof (cases "j = unat i")
    case True
    then show ?thesis using new [OF t] by simp
  next
    case False
    then have "j < unat i" using j by simp
    moreover from this have "m' (t + HIGH_VMA + 8 * of_nat j) = m (t + HIGH_VMA + 8 * of_nat j)"
      using neq [OF t] by (intro old) auto
    ultimately show ?thesis using assms(1) t by (auto simp: filled_def)
  qed
  moreover have "m' a = mem s a"
    if a: "\<forall>(t, off) \<in> set large_tables. \<forall>j < Suc (unat i). a \<noteq> t + HIGH_VMA + 8 * of_nat j" for a
  proof -
    have "a \<noteq> t + HIGH_VMA + 8 * i" if "(t, off) \<in> set large_tables" for t off
      using a that by (auto dest!: spec [of _ "unat i"])
    then have "m' a = m a" by (intro old) auto
    also have "\<forall>(t, off) \<in> set large_tables. \<forall>j < unat i. a \<noteq> t + HIGH_VMA + 8 * of_nat j"
      using a by (auto simp: less_Suc_eq)
    then have "m a = mem s a" using assms(1) unfolding filled_def by blast
    finally show ?thesis .
  qed
  ultimately have "filled (i + 1) (mem s) m'" by (auto simp: filled_def i(2))
  then show ?thesis using m' by blast
qed

lemma initVMM_tables_holds:
  "holds (initVMM_tables s) (\<lambda>s'. \<exists>m. s' = s\<lparr>mem := m\<rparr> \<and> filled 512 (mem s) m)"
proof -
  have body: "initVMM_tables s = and_then
      (each_u64 (\<lambda>i (physical, s).
        Inr (physical + 0x200000, put_all large_tables i physical s)) 0 512 (0 :: u64, s))
      (\<lambda>(physical, s). Inr s)"
    by (simp add: initVMM_tables_def put_all_def large_tables_def large_entry_def Let_def)
  show ?thesis
    unfolding body holds_and_then
  proof (rule each_u64_holds [where I = "\<lambda>i (p, s'). p = 0x200000 * i \<and>
      (\<exists>m. s' = s\<lparr>mem := m\<rparr> \<and> filled i (mem s) m)"], goal_cases)
    case 1
    show ?case by (auto simp: filled_def intro: exI [of _ "mem s"])
  next
    case (3 i ps)
    then show ?case
      using filled_step [of i s] by (fastforce simp: distrib_left)
  qed auto
qed

lemma memset64_returns: "holds (memset64 a d n m) (\<lambda>_. True)"
  unfolding memset64_def fill_cells_def holds_and_then
  by (rule each_u64_holds [where I = "\<lambda>_ _. True"]) auto

lemma unat_take: "unat (take_bit n x) = unat x mod 2 ^ n" for x :: u64
proof -
  have "unat (take_bit n x) = take_bit n (unat x)" by (rule unsigned_take_bit_eq)
  then show ?thesis by (simp only: take_bit_eq_mod)
qed

lemma slot_nat: "slot k va = of_nat (unat va div 2 ^ (12 + 9 * k) mod 512)"
proof -
  have "unat (slot k va) = unat va div 2 ^ (12 + 9 * k) mod 512"
    unfolding slot_def and_511 unat_take unat_drop by simp
  moreover have "slot k va = of_nat (unat (slot k va))" by simp
  ultimately show ?thesis by (simp only:)
qed

lemma and_1fffff: "unat (va AND 0x1fffff) = unat va mod 0x200000" for va :: u64
proof -
  have "va AND 0x1fffff = take_bit 21 va" by (simp add: take_bit_eq_mask mask_eq_exp_minus_1)
  then show ?thesis by (simp only: unat_take) simp
qed

lemma large_base:
  assumes "0x200000 dvd unat p" and "unat p < 2 ^ 47"
  shows "page_ok p" and "p AND NOT 0x1fffff = p"
proof -
  show "page_ok p" using assms by (auto simp: page_ok_def elim: dvd_trans [rotated])
  have mask: "(0x1fffff :: u64) = mask 21" by (simp add: mask_eq_exp_minus_1)
  show "p AND NOT 0x1fffff = p"
  proof (rule bit_word_eqI)
    fix n assume "n < LENGTH(64)"
    moreover have "\<not> bit p n" if "n < 21" using aligned_bits [of 21 p n] assms(1) that by simp
    ultimately show "bit (p AND NOT 0x1fffff) n \<longleftrightarrow> bit p n"
      unfolding mask by (auto simp: bit_simps)
  qed
qed

lemma walk_large_pages:
  assumes pages: "page_ok t4" "page_ok t3" "page_ok t2" and p: "0x200000 dvd unat p" "unat p < 2 ^ 47"
    and tables: "m (t4 + HIGH_VMA + 8 * slot 3 va) = t3 OR KPAGE_FLAGS"
      "m (t3 + HIGH_VMA + 8 * slot 2 va) = t2 OR KPAGE_FLAGS"
      "m (t2 + HIGH_VMA + 8 * slot 1 va) = large_entry p"
  shows "walk m t4 va = Some (7, p + (va AND 0x1fffff))"
proof -
  note page = large_base [OF p]
  let ?f = "push_bit 7 1 OR KPAGE_FLAGS :: u64"
  have f: "?f = 0x87" by (simp add: KPAGE_FLAGS_def)
  have entry: "large_entry p = p OR ?f" by (simp only: large_entry_def or.assoc)
  have e4: "entry_at m t4 (slot 3 va) = t3 OR KPAGE_FLAGS"
    using tables(1) by (simp only: entry_at_def frame_page [OF pages(1)])
  have e3: "entry_at m (t3 OR KPAGE_FLAGS) (slot 2 va) = t2 OR KPAGE_FLAGS"
    using tables(2) frame_entry [OF pages(2), of 7] by (simp add: entry_at_def KPAGE_FLAGS_bits)
  have e2: "entry_at m (t2 OR KPAGE_FLAGS) (slot 1 va) = p OR ?f"
    using tables(3) frame_entry [OF pages(3), of 7]
    by (simp add: entry_at_def KPAGE_FLAGS_bits entry)
  have r: "((t3 OR 7) AND (t2 OR 7) AND (p OR 0x87)) AND 7 = 7"
    using rights [OF pages(2,3) page(1) page(1), of "0x87"] by (simp add: and.assoc)
  have fr: "frame (p OR 0x87) = p" by (rule frame_entry) (use page in simp_all)
  show ?thesis
    unfolding walk_def Let_def e4 e3 e2 f
    using r page(2) [simplified] by (simp add: entry_flags pages page KPAGE_FLAGS_bits bit_7_iff fr and.assoc)
qed

lemma kernel_walk:
  assumes F: "filled 512 m0 m"
    and tables: "m (kpml4Addr + HIGH_VMA + 8 * slot 3 va) = up OR KPAGE_FLAGS"
      "m (up + HIGH_VMA + 8 * slot 2 va) = t OR KPAGE_FLAGS"
    and up: "page_ok up" and t: "(t, off) \<in> set large_tables"
    and j: "slot 1 va = of_nat j" "j < 512"
    and p: "unat off + 0x200000 * j + unat va mod 0x200000 = unat p"
  shows "walk m kpml4Addr va = Some (7, p)"
proof -
  let ?b = "0x200000 * of_nat j + off"
  have off: "unat off \<le> 0xC0000000" "0x200000 dvd unat off" "page_ok t"
    using t by (auto simp: large_tables_def kpml_defs page_ok_def)
  have "unat (0x200000 * of_nat j :: u64) = 0x200000 * j"
    using unat_cell [of "0x200000" 512 j] j(2) by simp
  then have ub: "unat ?b = 0x200000 * j + unat off"
    using off(1) j(2) by (subst unat_add_u64) simp_all
  then have b: "0x200000 dvd unat ?b" "unat ?b < 2 ^ 47" using off(1,2) j(2) by simp_all
  have "m (t + HIGH_VMA + 8 * of_nat j) = large_entry ?b"
    using F t j(2) unfolding filled_def by auto
  then have "m (t + HIGH_VMA + 8 * slot 1 va) = large_entry ?b" by (simp only: j(1))
  moreover have "page_ok kpml4Addr" by (simp add: page_ok_def kpml_defs)
  ultimately have w: "walk m kpml4Addr va = Some (7, ?b + (va AND 0x1fffff))"
    using tables up off(3) b by (intro walk_large_pages)
  have "unat (?b + (va AND 0x1fffff)) = unat ?b + unat (va AND 0x1fffff)"
    using b(2) by (intro unat_add_u64) (simp add: and_1fffff)
  then have "unat (?b + (va AND 0x1fffff)) = unat p"
    using p by (simp add: ub and_1fffff)
  then have "?b + (va AND 0x1fffff) = p" by (simp only: word_unat_eq_iff)
  then show ?thesis using w by simp
qed

text \<open>The addresses the kernel uses for a physical address.\<close>

lemma slots_of:
  assumes "unat va = k * 2 ^ 39 + l * 2 ^ 30 + x" and "x < 2 ^ 30" and "l < 512"
  shows "slot 3 va = of_nat (k mod 512)" and "slot 2 va = of_nat l"
    and "slot 1 va = of_nat (x div 0x200000)" and "x div 0x200000 < 512"
    and "unat va mod 0x200000 = x mod 0x200000"
proof -
  have "unat va = 2 ^ 39 * k + (l * 2 ^ 30 + x)" using assms(1) by simp
  moreover have "l * 2 ^ 30 + x < 2 ^ 39" using assms(2,3) by simp
  ultimately have "unat va div 2 ^ 39 = k" by simp
  then show "slot 3 va = of_nat (k mod 512)" by (simp add: slot_nat del: of_nat_mod)
  have "unat va = 2 ^ 30 * (512 * k + l) + x" using assms(1) by simp
  then have "unat va div 2 ^ 30 = 512 * k + l" using assms(2) by simp
  then show "slot 2 va = of_nat l" using assms(3) by (simp add: slot_nat)
  have d: "unat va = 2 ^ 21 * (512 * (512 * k + l)) + x" using assms(1) by simp
  have v: "unat va div 2 ^ 21 = 512 * (512 * k + l) + x div 2 ^ 21" unfolding d by simp
  show less: "x div 0x200000 < 512" using assms(2) by (simp add: div_less_iff_less_mult)
  have "(512 * (512 * k + l) + x div 2 ^ 21) mod 512 = x div 2 ^ 21 mod 512" by (rule mod_mult_self4)
  then have "unat va div 2 ^ 21 mod 512 = x div 0x200000" unfolding v using less by simp
  then show "slot 1 va = of_nat (x div 0x200000)" by (simp add: slot_nat)
  have "unat va mod 2 ^ 21 = x mod 2 ^ 21" unfolding d by (rule mod_mult_self4)
  then show "unat va mod 0x200000 = x mod 0x200000" by simp
qed


definition kernel_tables :: "(u64 \<Rightarrow> u64) \<Rightarrow> bool" where
  "kernel_tables m \<longleftrightarrow>
     m (kpml4Addr + HIGH_VMA + 8 * 0) = kpml3Addr OR KPAGE_FLAGS \<and>
     m (kpml4Addr + HIGH_VMA + 8 * 256) = kpml3Addr OR KPAGE_FLAGS \<and>
     m (kpml4Addr + HIGH_VMA + 8 * 511) = kpml3AddrHH OR KPAGE_FLAGS \<and>
     m (kpml3Addr + HIGH_VMA + 8 * 0) = kpml2Addr_1G OR KPAGE_FLAGS \<and>
     m (kpml3Addr + HIGH_VMA + 8 * 1) = kpml2Addr_2G OR KPAGE_FLAGS \<and>
     m (kpml3Addr + HIGH_VMA + 8 * 2) = kpml2Addr_3G OR KPAGE_FLAGS \<and>
     m (kpml3Addr + HIGH_VMA + 8 * 3) = kpml2Addr_4G OR KPAGE_FLAGS \<and>
     m (kpml3AddrHH + HIGH_VMA + 8 * 510) = kpml2AddrHH OR KPAGE_FLAGS"

lemma kernel_tables_walk:
  assumes F: "filled 512 m0 m" and T: "kernel_tables m" and p: "unat p < 2 ^ 32"
    and va: "unat va = k * 2 ^ 39 + unat p" and k: "k mod 512 = 0 \<or> k mod 512 = 256"
  shows "walk m kpml4Addr va = Some (7, p)"
proof -
  let ?g = "unat p div 2 ^ 30" and ?x = "unat p mod 2 ^ 30"
  have g: "?g < 4" using p by (simp add: div_less_iff_less_mult)
  have split: "unat p = ?g * 2 ^ 30 + ?x" by simp
  have v: "unat va = k * 2 ^ 39 + ?g * 2 ^ 30 + ?x" unfolding va by simp
  have x: "?x < 2 ^ 30" and l: "?g < 512" using g by simp_all
  note s = slots_of [OF v x l]
  have "\<exists>t off. (t, off) \<in> set large_tables \<and> unat off = ?g * 2 ^ 30 \<and>
    m (kpml3Addr + HIGH_VMA + 8 * of_nat ?g) = t OR KPAGE_FLAGS"
  proof -
    from g have "?g = 0 \<or> ?g = 1 \<or> ?g = 2 \<or> ?g = 3" by linarith
    then show ?thesis
    proof (elim disjE)
      assume g: "?g = 0"
      show ?thesis by (intro exI [where x = kpml2Addr_1G] exI [where x = 0], unfold g) (use T in \<open>simp_all add: kernel_tables_def large_tables_def\<close>)
    next
      assume g: "?g = 1"
      show ?thesis by (intro exI [where x = kpml2Addr_2G] exI [where x = "0x40000000"], unfold g) (use T in \<open>simp_all add: kernel_tables_def large_tables_def\<close>)
    next
      assume g: "?g = 2"
      show ?thesis by (intro exI [where x = kpml2Addr_3G] exI [where x = "0x80000000"], unfold g) (use T in \<open>simp_all add: kernel_tables_def large_tables_def\<close>)
    next
      assume g: "?g = 3"
      show ?thesis by (intro exI [where x = kpml2Addr_4G] exI [where x = "0xC0000000"], unfold g) (use T in \<open>simp_all add: kernel_tables_def large_tables_def\<close>)
    qed
  qed
  then obtain t off where t: "(t, off) \<in> set large_tables" "unat off = ?g * 2 ^ 30"
    "m (kpml3Addr + HIGH_VMA + 8 * of_nat ?g) = t OR KPAGE_FLAGS"
    by blast
  show ?thesis
  proof (rule kernel_walk [OF F _ _ _ t(1), where up = kpml3Addr and va = va])
    show "m (kpml4Addr + HIGH_VMA + 8 * slot 3 va) = kpml3Addr OR KPAGE_FLAGS"
      using T k s(1) by (auto simp: kernel_tables_def simp del: of_nat_mod)
    show "m (kpml3Addr + HIGH_VMA + 8 * slot 2 va) = t OR KPAGE_FLAGS" using t(3) s(2) by simp
    show "page_ok kpml3Addr" by (simp add: page_ok_def kpml_defs)
    show "slot 1 va = of_nat (?x div 0x200000)" "?x div 0x200000 < 512" using s(3,4) by simp_all
    show "unat off + 0x200000 * (?x div 0x200000) + unat va mod 0x200000 = unat p"
      using s(5) t(2) split mult_div_mod_eq [of "0x200000" ?x] by linarith
  qed
qed

lemma kernel_image_walk:
  assumes F: "filled 512 m0 m" and T: "kernel_tables m" and p: "unat p < 2 ^ 30"
    and va: "unat va = 0x1FFFFFF * 2 ^ 39 + 510 * 2 ^ 30 + unat p"
  shows "walk m kpml4Addr va = Some (7, p)"
proof -
  note s = slots_of [OF va p]
  show ?thesis
  proof (rule kernel_walk [OF F, where up = kpml3AddrHH and va = va and t = kpml2AddrHH and off = 0])
    show "m (kpml4Addr + HIGH_VMA + 8 * slot 3 va) = kpml3AddrHH OR KPAGE_FLAGS"
      using T s(1) by (simp add: kernel_tables_def)
    show "m (kpml3AddrHH + HIGH_VMA + 8 * slot 2 va) = kpml2AddrHH OR KPAGE_FLAGS"
      using T s(2) by (simp add: kernel_tables_def)
    show "page_ok kpml3AddrHH" by (simp add: page_ok_def kpml_defs)
    show "(kpml2AddrHH, 0) \<in> set large_tables" by (simp add: large_tables_def)
    show "slot 1 va = of_nat (unat p div 0x200000)" "unat p div 0x200000 < 512" using s(3,4) by simp_all
    show "unat (0 :: u64) + 0x200000 * (unat p div 0x200000) + unat va mod 0x200000 = unat p"
      using s(5) by simp
  qed
qed

lemma kernel_cells_apart:
  assumes "filled 512 m0 m" and "kernel_tables m0"
  shows "kernel_tables m"
proof -
  have keep: "m (q + HIGH_VMA + 8 * of_nat i) = m0 (q + HIGH_VMA + 8 * of_nat i)"
    if q: "q \<in> {kpml4Addr, kpml3Addr, kpml3AddrHH}" and i: "i < 512" for q i
  proof -
    have "q + HIGH_VMA + 8 * of_nat i \<noteq> t + HIGH_VMA + 8 * of_nat j"
      if "(t, off) \<in> set large_tables" "j < 512" for t off j
    proof (rule page_cell_neq)
      show "4096 dvd unat q" using q by (auto simp: kpml_defs)
      show "4096 dvd unat t" using large_table_page that(1) by force
      show "q \<noteq> t" using q that(1) by (auto simp: large_tables_def kpml_defs)
    qed (rule i, rule that(2))
    then have "\<forall>(t, off) \<in> set large_tables. \<forall>j < unat (512 :: u64).
        q + HIGH_VMA + 8 * of_nat i \<noteq> t + HIGH_VMA + 8 * of_nat j" by auto
    with assms(1) show ?thesis unfolding filled_def by blast
  qed
  show ?thesis
    using assms(2) keep [of kpml4Addr 0] keep [of kpml4Addr 256] keep [of kpml4Addr 511]
      keep [of kpml3Addr 0] keep [of kpml3Addr 1] keep [of kpml3Addr 2] keep [of kpml3Addr 3]
      keep [of kpml3AddrHH 510]
    by (simp add: kernel_tables_def)
qed

definition kernel_map :: "(u64 \<Rightarrow> u64) \<Rightarrow> u64 \<Rightarrow> bool" where
  "kernel_map m root \<longleftrightarrow>
     (\<forall>p. unat p < 2 ^ 32 \<longrightarrow> walk m root p = Some (7, p) \<and> walk m root (HIGH_VMA + p) = Some (7, p)) \<and>
     (\<forall>p. unat p < 2 ^ 30 \<longrightarrow> walk m root (KERNEL_HIGH_VMA + p) = Some (7, p))"

lemma kernel_map_holds:
  assumes "filled 512 m0 m" and "kernel_tables m0"
  shows "kernel_map m kpml4Addr"
  unfolding kernel_map_def
proof (intro conjI allI impI)
  note T = kernel_cells_apart [OF assms]
  fix p :: u64
  assume p: "unat p < 2 ^ 32"
  show "walk m kpml4Addr p = Some (7, p)"
    by (rule kernel_tables_walk [OF assms(1) T p, of _ 0]) simp_all
  have "unat (HIGH_VMA + p) = 0x1FFFF00 * 2 ^ 39 + unat p"
    using p by (subst unat_add_u64) (simp_all add: HIGH_VMA_def)
  then show "walk m kpml4Addr (HIGH_VMA + p) = Some (7, p)"
    by (rule kernel_tables_walk [OF assms(1) T p]) simp
next
  note T = kernel_cells_apart [OF assms]
  fix p :: u64
  assume p: "unat p < 2 ^ 30"
  have "unat (KERNEL_HIGH_VMA + p) = 0x1FFFFFF * 2 ^ 39 + 510 * 2 ^ 30 + unat p"
    using p by (subst unat_add_u64) (simp_all add: KERNEL_HIGH_VMA_def)
  then show "walk m kpml4Addr (KERNEL_HIGH_VMA + p) = Some (7, p)"
    by (rule kernel_image_walk [OF assms(1) T p])
qed

lemma initVMM_holds:
  fixes s :: "'a vmm_state_scheme"
  assumes "heap_ok s" and "console_ready s"
    and "\<not> {..<32768} \<subseteq> bits (kbitmap s)" and "\<exists>e \<in> set (allocationBitmap s). a_size e = 0"
  shows "holds (initVMM s) (\<lambda>s'. cr3 s' = kpml4Addr \<and> kernel_map (mem s') (cr3 s') \<and>
    pageDirectoryTables s' = replicate 100 zero_directory \<and> pageDirectoryCount s' = 1000 \<and>
    (\<exists>s1. kmalloc 4000 s = Inr (pageDirectoryAddr s', s1)) \<and> kHeapBegin s' = kHeapBegin s \<and>
    kbitmapAddr s' = kbitmapAddr s \<and> allocationBitmapAddr s' = allocationBitmapAddr s)"
proof -
  obtain a s1 where malloc: "kmalloc 4000 s = Inr (a, s1)" and ready: "console_ready s1" and "heap_changed s s1"
    using kmalloc_changes [OF assms, of 4000] by (auto elim!: holdsE)
  then have same: "kHeapBegin s1 = kHeapBegin s" "kbitmapAddr s1 = kbitmapAddr s"
    "allocationBitmapAddr s1 = allocationBitmapAddr s"
    by (auto simp: heap_changed_def)
  have size: "(40 * 100 :: u64) = 4000" by simp
  have "holds (initVMM s) (\<lambda>s'. cr3 s' = kpml4Addr \<and> kernel_map (mem s') (cr3 s') \<and>
    pageDirectoryTables s' = replicate 100 zero_directory \<and> pageDirectoryCount s' = 1000 \<and>
    pageDirectoryAddr s' = a \<and> kHeapBegin s' = kHeapBegin s \<and>
    kbitmapAddr s' = kbitmapAddr s \<and> allocationBitmapAddr s' = allocationBitmapAddr s)"
    unfolding initVMM_def size malloc and_then_simps prod.case Let_def
  proof (rule holds_bind [OF memset64_returns], rule holds_bind [OF initVMM_tables_holds], elim exE conjE, goal_cases)
    case (1 m1 s2 m)
    show ?case
    proof (rule kprintDS_keeps)
      show "console_ready (s2\<lparr>cr3 := kpml4Addr\<rparr>)" using ready by (simp add: 1 console_ready_def put_entry_def)
      show "message ''[KMM]'' ''Virtual Memory Manager Initalized''" by (simp add: message_def)
      fix t b
      have "kernel_map m kpml4Addr"
        by (rule kernel_map_holds [OF 1(3)])
           (simp add: kernel_tables_def put_entry_def kpml_defs kva_def HIGH_VMA_def)
      then show "cr3 (s2\<lparr>cr3 := kpml4Addr, serial := t, itobBuffer := b\<rparr>) = kpml4Addr \<and>
        kernel_map (mem (s2\<lparr>cr3 := kpml4Addr, serial := t, itobBuffer := b\<rparr>))
          (cr3 (s2\<lparr>cr3 := kpml4Addr, serial := t, itobBuffer := b\<rparr>)) \<and>
        pageDirectoryTables (s2\<lparr>cr3 := kpml4Addr, serial := t, itobBuffer := b\<rparr>) = replicate 100 zero_directory \<and>
        pageDirectoryCount (s2\<lparr>cr3 := kpml4Addr, serial := t, itobBuffer := b\<rparr>) = 1000 \<and>
        pageDirectoryAddr (s2\<lparr>cr3 := kpml4Addr, serial := t, itobBuffer := b\<rparr>) = a \<and>
        kHeapBegin (s2\<lparr>cr3 := kpml4Addr, serial := t, itobBuffer := b\<rparr>) = kHeapBegin s \<and>
        kbitmapAddr (s2\<lparr>cr3 := kpml4Addr, serial := t, itobBuffer := b\<rparr>) = kbitmapAddr s \<and>
        allocationBitmapAddr (s2\<lparr>cr3 := kpml4Addr, serial := t, itobBuffer := b\<rparr>) = allocationBitmapAddr s"
        by (simp add: 1(2) put_entry_def same)
    qed (simp add: render_plain)
  qed
  then show ?thesis by (rule holds_mono) (auto simp: malloc)
qed

text \<open>
  After \<open>initVMM\<close> the kernel's tables are in force and map the first 4 GiB of memory at
  their own addresses and at \<open>HIGH_VMA\<close>, and the first GiB at \<open>KERNEL_HIGH_VMA\<close>. Each
  translation comes with the rights 7: present, writable and, at every level, user.
\<close>

theorem initVMM_maps:
  fixes s :: "'a vmm_state_scheme"
  assumes "heap_ok s" and "console_ready s"
    and "\<not> {..<32768} \<subseteq> bits (kbitmap s)" and "\<exists>e \<in> set (allocationBitmap s). a_size e = 0"
  shows "\<exists>s'. initVMM s = Inr s' \<and> cr3 s' = kpml4Addr \<and>
    (\<forall>p. unat p < 2 ^ 32 \<longrightarrow>
       walk (mem s') (cr3 s') p = Some (7, p) \<and> walk (mem s') (cr3 s') (HIGH_VMA + p) = Some (7, p)) \<and>
    (\<forall>p. unat p < 2 ^ 30 \<longrightarrow> walk (mem s') (cr3 s') (KERNEL_HIGH_VMA + p) = Some (7, p))"
  using initVMM_holds [OF assms] by (auto simp: kernel_map_def elim!: holdsE)

section \<open>Witnesses\<close>

definition example_space :: vmm_state where
  "example_space = \<lparr>serial = [], itobBuffer = replicate 50 NUL, kprintDSLock = False,
     bitmap = [1], totalDetectedMemory = 0x8000, pageAllocLock = False,
     mem = (\<lambda>a. 0), kHeapBegin = 0x1000, kbitmap = [], kbitmapSize = 32768,
     kbitmapAddr = 0x102000 + HIGH_VMA,
     allocationBitmap = [],
     allocationBitmapSize = 262144, allocationBitmapAddr = 0x103000 + HIGH_VMA,
     pageDirectoryTables = [zero_directory, zero_directory], pageDirectoryAddr = 0,
     pageDirectoryCount = 2, cr3 = 0\<rparr>"

definition example_vmm :: vmm_state where
  "example_vmm = example_space\<lparr>kbitmap := replicate 4096 0,
     allocationBitmap := replicate 16384 \<lparr>a_block = 0, a_size = 0\<rparr>\<rparr>"

lemma example_vmm_ok:
  "heap_ok example_vmm" "console_ready example_vmm" "bits (kbitmap example_vmm) = {}"
  "\<exists>e \<in> set (allocationBitmap example_vmm). a_size e = 0"
  by (simp_all add: example_vmm_def example_space_def heap_ok_def table_empty console_ready_def)

lemma example_space_ok:
  "page_runs_ok example_space []" "findFirstFreeSlot example_space = Inr 0"
proof -
  have "0 \<in> bits [1]" by (simp add: in_bits_iff)
  then show "page_runs_ok example_space []"
    by (simp add: example_space_def page_runs_ok_def pmm_ok_def npages_def unat_div runs_marked_def)
  show "findFirstFreeSlot example_space = Inr 0"
    by (simp add: findFirstFreeSlot_def example_space_def search_def for_u64_step search_body_def
        fetch_def zero_directory_def)
qed

lemma example_space_created:
  "case createNewAddressSpace 2 7 example_space of
     Inl _ \<Rightarrow> False
   | Inr (i, s') \<Rightarrow> map d_pml4 (pageDirectoryTables s') = [0x1000, 0] \<and>
       directory_pages (pageDirectoryTables s' ! 0) = [0x1000, 0x2000, 0x3000, 0x4000]"
  by code_simp

theorem createNewAddressSpace_maps_witness:
  "\<exists>s' physical. createNewAddressSpace 2 7 example_space = Inr (0, s') \<and> physical \<noteq> 0 \<and>
     page_runs_ok s' [(physical, 2), (0x4000, 1), (0x3000, 1), (0x2000, 1), (0x1000, 1)] \<and>
     walk (mem s') 0x1000 0x1234 = Some (7, physical + 0x1234)"
proof -
  have f: "bit (7 :: u64) 0" "\<not> bit (7 :: u64) 7" by (simp_all add: bit_7_iff)
  have len: "unat (totalDetectedMemory example_space) \<le> 2 ^ 47" "unat (0 :: u64) < length (pageDirectoryTables example_space)"
    "unat (2 :: u64) \<le> 512" "unat (7 :: u64) < 4096"
    by (simp_all add: example_space_def)
  have free: "run_free (bits (bitmap example_space)) (npages example_space) (4 + unat (2 :: u64)) 1"
    by (auto simp: run_free_def example_space_def npages_def unat_div in_bits_iff bit_1_iff)
  obtain i s' where s': "createNewAddressSpace 2 7 example_space = Inr (i, s')"
    "directory_pages (pageDirectoryTables s' ! 0) = [0x1000, 0x2000, 0x3000, 0x4000]"
    using example_space_created by (auto split: sum.splits)
  from createNewAddressSpace_maps [OF example_space_ok(1) len(1) example_space_ok(2) len(2,3) f len(4)]
  show ?thesis
    using s' free by (auto simp: directory_pages_def Let_def intro!: exI [of _ s'])
qed

theorem freeAddressSpace_frees_witness:
  "\<exists>s'. freeAddressSpace 0 (example_vmm\<lparr>bitmap := [15], pageDirectoryTables :=
      [\<lparr>d_pml4 = 0x1000, d_pml3 = 0x2000, d_pml2 = 0x3000, d_pml1 = 0, d_flags = 0x87\<rparr>]\<rparr>) = Inr s' \<and>
    0 \<notin> bits (bitmap s')"
proof -
  let ?d = "\<lparr>d_pml4 = 0x1000, d_pml3 = 0x2000, d_pml2 = 0x3000, d_pml1 = 0, d_flags = 0x87\<rparr>"
  have "\<exists>s'. freeAddressSpace 0 (example_vmm\<lparr>bitmap := [15], pageDirectoryTables := [?d]\<rparr>) = Inr s' \<and>
    bits (bitmap s') = bits (bitmap (example_vmm\<lparr>bitmap := [15], pageDirectoryTables := [?d]\<rparr>)) -
      {unat (d_pml4 ?d) div 4096, unat (d_pml3 ?d) div 4096, unat (d_pml2 ?d) div 4096,
       unat (d_pml1 ?d) div 4096} \<and>
    pageDirectoryTables s' ! unat (0 :: u64) = zero_directory \<and>
    (d_pml1 ?d = 0 \<longrightarrow> 0 \<notin> bits (bitmap s'))"
    by (rule freeAddressSpace_frees) simp_all
  then show ?thesis by auto
qed

theorem initAddressSpace_cases_witness: "initAddressSpace 2 example_vmm = Inl OutOfBounds"
  using initAddressSpace_cases [OF example_vmm_ok(2), of 2] by (simp add: example_vmm_def example_space_def)

theorem initVMM_maps_witness:
  "\<exists>s'. initVMM example_vmm = Inr s' \<and>
     walk (mem s') (cr3 s') (HIGH_VMA + 0x12345678) = Some (7, 0x12345678)"
proof -
  have "\<not> {..<32768 :: nat} \<subseteq> bits (kbitmap example_vmm)"
    by (simp add: example_vmm_ok lessThan_empty_iff)
  from initVMM_maps [OF example_vmm_ok(1,2) this example_vmm_ok(4)] obtain s' where
    s': "initVMM example_vmm = Inr s'"
      "\<And>p. unat p < 2 ^ 32 \<Longrightarrow> walk (mem s') (cr3 s') (HIGH_VMA + p) = Some (7, p)" by blast
  then show ?thesis using s'(2) [of "0x12345678"] by simp
qed

end
