(* ===== verification/Screen.thy ===== *)
theory Screen
  imports Virtual_Pages Font
begin

text \<open>
  The screen: the framebuffer of \<^verbatim>\<open>kernel/drivers/vesa.c\<close> and the text terminal on it,
  \<open>initVESAtext\<close>, \<open>putchar\<close> and \<open>kprintVS\<close> of \<^verbatim>\<open>lib/libk/output.c\<close>. Both files define
  \<open>height\<close> and \<open>width\<close>, with 16 and with 32 bits; the linker merges the tentative
  definitions, so \<open>initVESA\<close> writes the lower halves of the variables \<open>putchar\<close> reads.
  \<open>video s\<close> is the memory behind the framebuffer, by byte; \<open>picture\<close> abstracts it to the
  colour of each pixel and \<open>cell_shows\<close> to the characters in the cells of the terminal.
\<close>

record screen_state = vmm_state +
  framebuffer :: u32
  fb_pitch :: u16
  fb_bpp :: u16
  scr_height :: u32
  scr_width :: u32
  video :: "u64 \<Rightarrow> u8"
  terminalRow :: u64
  terminalColumn :: u64
  terminalBG :: u32
  terminalFG :: u32
  referenceColumn :: "u32 option list"
  isBack :: bool
  kprintVSLock :: bool

section \<open>The framebuffer\<close>

text \<open>A \<open>uint32_t\<close> in memory, little endian.\<close>

definition put32 :: "u64 \<Rightarrow> u32 \<Rightarrow> (u64 \<Rightarrow> u8) \<Rightarrow> u64 \<Rightarrow> u8" where
  "put32 a v m = m(a := ucast v, a + 1 := ucast (drop_bit 8 v), a + 2 := ucast (drop_bit 16 v),
     a + 3 := ucast (drop_bit 24 v))"

definition get32 :: "u64 \<Rightarrow> (u64 \<Rightarrow> u8) \<Rightarrow> u32" where
  "get32 a m = ucast (m a) OR push_bit 8 (ucast (m (a + 1))) OR
     push_bit 16 (ucast (m (a + 2))) OR push_bit 24 (ucast (m (a + 3)))"

definition low_half :: "u16 \<Rightarrow> u32 \<Rightarrow> u32" where
  "low_half v w = (w AND 0xffff0000) OR ucast v"

definition initVESA :: "bproto_t \<Rightarrow> 'a screen_state_scheme \<Rightarrow> 'a screen_state_scheme" where
  "initVESA b s = s\<lparr>framebuffer := b_framebuffer b,
     scr_height := low_half (b_height b) (scr_height s),
     scr_width := low_half (b_width b) (scr_width s),
     fb_pitch := b_pitch b, fb_bpp := ucast (b_bpp b)\<rparr>"

text \<open>\<open>(uint64_t)framebuffer + HIGH_VMA + ((y * pitch) + (x * bpp / 8))\<close>: the operands of the
  arithmetic are promoted to \<open>int\<close>.\<close>

definition int_range :: "int \<Rightarrow> bool" where
  "int_range k \<longleftrightarrow> - (2 ^ 31) \<le> k \<and> k < 2 ^ 31"

definition pixel_addr :: "u16 \<Rightarrow> u16 \<Rightarrow> 'a screen_state_scheme \<Rightarrow> u64 result" where
  "pixel_addr x y s =
     (let line = uint y * uint (fb_pitch s); column = uint x * uint (fb_bpp s) in
      if int_range line \<and> int_range column \<and> int_range (line + column div 8) then
        Inr ((ucast (framebuffer s) + HIGH_VMA) + word_of_int (line + column div 8))
      else Inl SignedOverflow)"

definition setPixel ::
  "u16 \<Rightarrow> u16 \<Rightarrow> u32 \<Rightarrow> 'a screen_state_scheme \<Rightarrow> 'a screen_state_scheme result"
where
  "setPixel x y colour s =
     and_then (pixel_addr x y s) (\<lambda>a. Inr (s\<lparr>video := put32 a colour (video s)\<rparr>))"

definition grabColour :: "u16 \<Rightarrow> u16 \<Rightarrow> 'a screen_state_scheme \<Rightarrow> u32 result" where
  "grabColour x y s = and_then (pixel_addr x y s) (\<lambda>a. Inr (get32 a (video s)))"

text \<open>The two loops count a \<open>uint8_t\<close> from 0 to 7; the arguments of \<open>setPixel\<close> are truncated
  to 16 bits.\<close>

definition renderChar ::
  "u64 \<Rightarrow> u64 \<Rightarrow> u32 \<Rightarrow> u32 \<Rightarrow> char \<Rightarrow> 'a screen_state_scheme \<Rightarrow> 'a screen_state_scheme result"
where
  "renderChar x y fg bg c s =
     each_u64 (\<lambda>i. each_u64 (\<lambda>j s.
       and_then (fetch font (of_char c)) (\<lambda>row.
       and_then (fetch row i) (\<lambda>line.
         if drop_bit (unat j) line AND 1 \<noteq> 0 then setPixel (ucast (j + x)) (ucast (y + i)) fg s
         else setPixel (ucast (j + x)) (ucast (y + i)) bg s))) 0 8) 0 8 s"

section \<open>The terminal\<close>

text \<open>The object behind \<open>referenceColumn\<close> has 2048 entries, none of them written yet.\<close>

definition initVESAtext ::
  "u32 \<Rightarrow> u32 \<Rightarrow> u64 \<Rightarrow> u64 \<Rightarrow> 'a screen_state_scheme \<Rightarrow> 'a screen_state_scheme result"
where
  "initVESAtext fg bg x y s =
     and_then (kmalloc 0x2000 (s\<lparr>terminalBG := bg, terminalFG := fg, scr_height := ucast y,
         scr_width := ucast x\<rparr>)) (\<lambda>(a, s).
       Inr (s\<lparr>referenceColumn := (if a = 0 then [] else replicate 2048 None)\<rparr>))"

text \<open>The \<open>default\<close> case of the \<open>switch\<close>, the only one the recursive calls \<open>putchar(' ')\<close> reach.\<close>

definition putchar_default :: "char \<Rightarrow> 'a screen_state_scheme \<Rightarrow> 'a screen_state_scheme result" where
  "putchar_default c s =
     and_then (renderChar (terminalRow s) (terminalColumn s) (terminalFG s) (terminalBG s) c s) (\<lambda>s.
     let s = s\<lparr>terminalRow := terminalRow s + 8\<rparr> in
     if terminalRow s = ucast (scr_width s) \<and> \<not> isBack s then
       let s = s\<lparr>terminalRow := 0, terminalColumn := terminalColumn s + 8\<rparr> in
       Inr (if terminalColumn s = ucast (scr_height s) then s\<lparr>terminalColumn := 0\<rparr> else s)
     else Inr s)"

definition putchar :: "char \<Rightarrow> 'a screen_state_scheme \<Rightarrow> 'a screen_state_scheme result" where
  "putchar c s =
     (if c = CHR 0x0A then
        and_then (store (referenceColumn s) (terminalRow s) (Some (ucast (terminalColumn s)))) (\<lambda>r.
          Inr (s\<lparr>referenceColumn := r, terminalRow := 0, terminalColumn := terminalColumn s + 8\<rparr>))
      else if c = CHR 0x09 then
        and_then (putchar_default CHR '' '' s) (\<lambda>s.
        and_then (putchar_default CHR '' '' s) (\<lambda>s.
        and_then (putchar_default CHR '' '' s) (putchar_default CHR '' '')))
      else if c = CHR 0x08 then
        (let s = s\<lparr>isBack := True\<rparr> in
         if terminalRow s = 0 then
           if terminalColumn s = 0 then Inr s
           else
             and_then (putchar_default CHR '' ''
                 (s\<lparr>terminalColumn := terminalColumn s - 8, terminalRow := ucast (scr_width s) - 8\<rparr>))
               (\<lambda>s. Inr (s\<lparr>terminalRow := terminalRow s - 8\<rparr>))
         else
           and_then (putchar_default CHR '' '' (s\<lparr>terminalRow := terminalRow s - 8\<rparr>)) (\<lambda>s.
             Inr (s\<lparr>terminalRow := terminalRow s - 8, isBack := False\<rparr>)))
      else putchar_default c s)"

definition kprintVS ::
  "string \<Rightarrow> va_value list \<Rightarrow> 'a screen_state_scheme \<Rightarrow> 'a screen_state_scheme result"
where
  "kprintVS str args s =
     and_then (spinLock (kprintVSLock s)) (\<lambda>l.
     and_then (strlen str) (\<lambda>n.
     and_then (format_out putchar (take (unat n) str) args (s\<lparr>kprintVSLock := l\<rparr>)) (\<lambda>s.
       Inr (s\<lparr>kprintVSLock := spinRelease (kprintVSLock s)\<rparr>))))"

section \<open>Pixels\<close>

lemma get32_put32: "get32 a (put32 a v m) = v"
proof (rule bit_word_eqI)
  fix n
  assume "n < LENGTH(32)"
  then consider "n < 8" | "8 \<le> n" "n < 16" | "16 \<le> n" "n < 24" | "24 \<le> n" "n < 32" by fastforce
  then show "bit (get32 a (put32 a v m)) n \<longleftrightarrow> bit v n"
    by cases (auto simp: get32_def put32_def bit_simps dest: bit_imp_le_length)
qed

lemma get32_put32_other:
  assumes "\<And>i j. i < 4 \<Longrightarrow> j < 4 \<Longrightarrow> b + of_nat i \<noteq> a + of_nat j"
  shows "get32 b (put32 a v m) = get32 b m"
  using assms [of 0 0] assms [of 0 1] assms [of 0 2] assms [of 0 3]
    assms [of 1 0] assms [of 1 1] assms [of 1 2] assms [of 1 3]
    assms [of 2 0] assms [of 2 1] assms [of 2 2] assms [of 2 3]
    assms [of 3 0] assms [of 3 1] assms [of 3 2] assms [of 3 3]
  by (simp add: get32_def put32_def)

definition scr_w :: "'a screen_state_scheme \<Rightarrow> nat" where "scr_w s = unat (scr_width s)"
definition scr_h :: "'a screen_state_scheme \<Rightarrow> nat" where "scr_h s = unat (scr_height s)"

text \<open>A 32 bit mode whose lines do not overlap and whose size \<open>int\<close> can hold.\<close>

definition screen_ok :: "'a screen_state_scheme \<Rightarrow> bool" where
  "screen_ok s \<longleftrightarrow> fb_bpp s = 32 \<and> 4 * scr_w s \<le> unat (fb_pitch s) \<and>
     scr_h s * unat (fb_pitch s) < 2 ^ 31 \<and> scr_h s \<le> 2 ^ 16"

definition pixel_offset :: "'a screen_state_scheme \<Rightarrow> nat \<Rightarrow> nat \<Rightarrow> nat" where
  "pixel_offset s x y = y * unat (fb_pitch s) + 4 * x"

definition picture :: "'a screen_state_scheme \<Rightarrow> nat \<Rightarrow> nat \<Rightarrow> u32" where
  "picture s x y =
     get32 (ucast (framebuffer s) + HIGH_VMA + of_nat (pixel_offset s x y)) (video s)"

lemma pixel_offset_less:
  assumes "screen_ok s" and "x < scr_w s" and "y < scr_h s" and "i < 4"
  shows "pixel_offset s x y + i < scr_h s * unat (fb_pitch s)"
proof -
  have "4 * x + i < unat (fb_pitch s)" using assms by (simp add: screen_ok_def)
  then have "pixel_offset s x y + i < (y + 1) * unat (fb_pitch s)" by (simp add: pixel_offset_def)
  also have "\<dots> \<le> scr_h s * unat (fb_pitch s)" using assms(3) by (intro mult_right_mono) simp_all
  finally show ?thesis .
qed

lemma pixel_offset_cases:
  assumes "screen_ok s" and "x < scr_w s" and "i < 4"
  shows "(pixel_offset s x y + i) div unat (fb_pitch s) = y"
    "(pixel_offset s x y + i) mod unat (fb_pitch s) div 4 = x"
proof -
  have lt: "4 * x + i < unat (fb_pitch s)" using assms by (simp add: screen_ok_def)
  have eq: "pixel_offset s x y + i = 4 * x + i + y * unat (fb_pitch s)"
    by (simp add: pixel_offset_def)
  show "(pixel_offset s x y + i) div unat (fb_pitch s) = y" unfolding eq using lt by simp
  show "(pixel_offset s x y + i) mod unat (fb_pitch s) div 4 = x"
    unfolding eq mod_mult_self1 using lt assms(3) by simp
qed

lemma pixels_apart:
  assumes ok: "screen_ok s" and x: "x < scr_w s" "y < scr_h s" and x': "x' < scr_w s" "y' < scr_h s"
    and ne: "x' \<noteq> x \<or> y' \<noteq> y" and "i < 4" "j < 4"
  shows "base + of_nat (pixel_offset s x' y') + of_nat i \<noteq>
    base + of_nat (pixel_offset s x y) + (of_nat j :: u64)"
proof
  assume "base + of_nat (pixel_offset s x' y') + of_nat i = base + of_nat (pixel_offset s x y) + (of_nat j :: u64)"
  then have eq: "of_nat (pixel_offset s x' y' + i) = (of_nat (pixel_offset s x y + j) :: u64)"
    by (simp add: add.assoc)
  have lt: "pixel_offset s x' y' + i < 2 ^ 64" "pixel_offset s x y + j < 2 ^ 64"
    using pixel_offset_less [OF ok x' \<open>i < 4\<close>] pixel_offset_less [OF ok x \<open>j < 4\<close>] ok
    by (simp_all add: screen_ok_def)
  have "pixel_offset s x' y' + i = pixel_offset s x y + j"
    using arg_cong [OF eq, of unat] by (simp only: unat_of_nat_u64 lt)
  then have "x' = x" "y' = y"
    using pixel_offset_cases [OF ok x'(1) \<open>i < 4\<close>, of y'] pixel_offset_cases [OF ok x(1) \<open>j < 4\<close>, of y]
    by simp_all
  with ne show False by simp
qed

lemma unat_lt2p_u16: "unat w < 2 ^ 16" for w :: u16
  using unsigned_less [of w] by simp

lemma screen_ok_width: "screen_ok s \<Longrightarrow> scr_w s < 2 ^ 16"
  using unat_lt2p_u16 [of "fb_pitch s"] by (simp add: screen_ok_def)

lemma int_range_nat: "k < 2 ^ 31 \<Longrightarrow> int_range (int k)"
  by (simp add: int_range_def)

lemma pixel_addr_eq:
  assumes ok: "screen_ok s" and x: "x < scr_w s" and y: "y < scr_h s"
  shows "pixel_addr (of_nat x) (of_nat y) s =
    Inr (ucast (framebuffer s) + HIGH_VMA + of_nat (pixel_offset s x y))"
proof -
  have "x < 2 ^ 16" "y < 2 ^ 16"
    using x y screen_ok_width [OF ok] ok by (simp_all add: screen_ok_def)
  then have u: "uint (of_nat x :: u16) = int x" "uint (of_nat y :: u16) = int y"
    by (simp_all add: uint_nat unat_of_nat_small)
  have bpp: "uint (fb_bpp s) = 32" using ok by (simp add: screen_ok_def)
  have lt: "y * unat (fb_pitch s) + 4 * x < 2 ^ 31"
    using pixel_offset_less [OF ok x y, of 0] ok by (simp add: pixel_offset_def screen_ok_def)
  define p where "p = unat (fb_pitch s)"
  have p: "uint (fb_pitch s) = int p" by (simp only: p_def uint_nat)
  have line: "y * p + 4 * x < 2147483648" using lt by (simp add: p_def)
  have eq: "int y * int p + int x * 32 div 8 = int (y * p + 4 * x)" by simp
  have "y * p < 2147483648" using line by (rule le_less_trans [OF le_add1])
  then have "int_range (int y * int p)"
    using int_range_nat [of "y * p"] by simp
  moreover have "int_range (int (y * p + 4 * x))" using line by (intro int_range_nat) simp
  moreover have "int_range (int x * 32)"
    using \<open>x < 2 ^ 16\<close> by (simp add: int_range_def)
  ultimately show ?thesis
    unfolding pixel_addr_def u bpp p Let_def eq by (simp add: pixel_offset_def p_def)
qed

text \<open>\<open>drawn s s' D\<close>: from \<open>s\<close> to \<open>s'\<close> only the pixels where \<open>D\<close> is \<open>Some\<close> changed, to that colour.\<close>

definition drawn ::
  "'a screen_state_scheme \<Rightarrow> 'a screen_state_scheme \<Rightarrow> (nat \<Rightarrow> nat \<Rightarrow> u32 option) \<Rightarrow> bool"
where
  "drawn s s' D \<longleftrightarrow> s' = s\<lparr>video := video s'\<rparr> \<and>
     (\<forall>x < scr_w s. \<forall>y < scr_h s.
        picture s' x y = (case D x y of Some c \<Rightarrow> c | None \<Rightarrow> picture s x y))"

lemma drawn_video: "drawn s s' D \<Longrightarrow> s' = s\<lparr>video := video s'\<rparr>"
  by (simp add: drawn_def)

lemma drawn_refl: "drawn s s (\<lambda>x y. None)"
  by (simp add: drawn_def)

lemma screen_ok_video [simp]: "screen_ok (s\<lparr>video := v\<rparr>) = screen_ok s"
  "scr_w (s\<lparr>video := v\<rparr>) = scr_w s" "scr_h (s\<lparr>video := v\<rparr>) = scr_h s"
  "pixel_offset (s\<lparr>video := v\<rparr>) x y = pixel_offset s x y"
  by (simp_all add: screen_ok_def scr_w_def scr_h_def pixel_offset_def)

lemma drawn_trans:
  assumes "drawn s s' D" and "drawn s' s'' E"
  shows "drawn s s'' (\<lambda>x y. case E x y of Some c \<Rightarrow> Some c | None \<Rightarrow> D x y)"
proof -
  have "scr_w s' = scr_w s" "scr_h s' = scr_h s"
    by (subst drawn_video [OF assms(1)], simp)+
  moreover have "s'' = s\<lparr>video := video s''\<rparr>"
    by (subst drawn_video [OF assms(2)], subst drawn_video [OF assms(1)]) simp
  ultimately show ?thesis using assms by (simp add: drawn_def split: option.splits)
qed

lemma drawn_cong:
  "drawn s s' D \<Longrightarrow> (\<And>x y. x < scr_w s \<Longrightarrow> y < scr_h s \<Longrightarrow> D x y = E x y) \<Longrightarrow> drawn s s' E"
  by (simp add: drawn_def)

lemma setPixel_drawn:
  assumes ok: "screen_ok s" and x: "x < scr_w s" and y: "y < scr_h s"
  shows "holds (setPixel (of_nat x) (of_nat y) colour s)
    (\<lambda>s'. drawn s s' (\<lambda>x' y'. if x' = x \<and> y' = y then Some colour else None))"
  using pixels_apart [OF ok x y]
  by (auto simp: setPixel_def pixel_addr_eq [OF ok x y] drawn_def picture_def get32_put32
      intro!: get32_put32_other)

text \<open>
  A pixel written by \<open>setPixel\<close> is read back by \<open>grabColour\<close>, and every other pixel of the
  screen keeps its colour.
\<close>

theorem setPixel_grabColour:
  assumes "screen_ok s" and "x < scr_w s" and "y < scr_h s"
  shows "\<exists>s'. setPixel (of_nat x) (of_nat y) colour s = Inr s' \<and>
    grabColour (of_nat x) (of_nat y) s' = Inr colour \<and>
    (\<forall>x' < scr_w s. \<forall>y' < scr_h s. (x', y') \<noteq> (x, y) \<longrightarrow>
       grabColour (of_nat x') (of_nat y') s' = grabColour (of_nat x') (of_nat y') s)"
proof -
  obtain s' where s': "setPixel (of_nat x) (of_nat y) colour s = Inr s'"
    and d: "drawn s s' (\<lambda>x' y'. if x' = x \<and> y' = y then Some colour else None)"
    using setPixel_drawn [OF assms] by (rule holdsE)
  have grab: "grabColour (of_nat x') (of_nat y') t = Inr (picture t x' y')"
    if "t = s \<or> t = s'" "x' < scr_w s" "y' < scr_h s" for t x' y'
  proof -
    have "t = s\<lparr>video := video t\<rparr>"
    proof (cases "t = s")
      case False
      then show ?thesis using that(1) drawn_video [OF d] by blast
    qed simp
    then obtain v where "t = s\<lparr>video := v\<rparr>" by blast
    then show ?thesis using that assms(1) by (simp add: grabColour_def pixel_addr_eq picture_def)
  qed
  show ?thesis using s' d grab assms by (auto simp: drawn_def)
qed

section \<open>Characters\<close>

definition glyph :: "u32 \<Rightarrow> u32 \<Rightarrow> char \<Rightarrow> nat \<Rightarrow> nat \<Rightarrow> u32" where
  "glyph fg bg c dx dy = (if bit (font ! of_char c ! dy) dx then fg else bg)"

text \<open>The pixels \<open>renderChar\<close> has drawn after \<open>i\<close> lines and \<open>j\<close> pixels of the next.\<close>

definition render_part ::
  "nat \<Rightarrow> nat \<Rightarrow> u32 \<Rightarrow> u32 \<Rightarrow> char \<Rightarrow> nat \<Rightarrow> nat \<Rightarrow> nat \<Rightarrow> nat \<Rightarrow> u32 option"
where
  "render_part x y fg bg c i j x' y' =
     (if x \<le> x' \<and> x' < x + 8 \<and> y \<le> y' \<and> (y' < y + i \<or> y' = y + i \<and> x' < x + j)
      then Some (glyph fg bg c (x' - x) (y' - y)) else None)"

lemma render_part_0 [simp]: "render_part x y fg bg c 0 0 = (\<lambda>x y. None)"
  by (intro ext) (simp add: render_part_def)

lemma render_part_line: "render_part x y fg bg c i 8 = render_part x y fg bg c (Suc i) 0"
  by (intro ext) (auto simp: render_part_def)

lemma render_part_pixel:
  assumes "j < 8"
  shows "(case if x' = x + j \<and> y' = y + i then Some (glyph fg bg c j i) else None of
      Some c \<Rightarrow> Some c | None \<Rightarrow> render_part x y fg bg c i j x' y') =
    render_part x y fg bg c i (Suc j) x' y'"
  using assms by (auto simp: render_part_def)

lemma bit_drop_and_1: "drop_bit n w AND 1 \<noteq> 0 \<longleftrightarrow> bit w n" for w :: "'a::len word"
  by (simp add: and_one_eq bit_iff_odd_drop_bit mod_2_eq_odd)

lemma of_nat_add_u64: "of_nat (unat a + unat b) = a + b" for a b :: u64
  by simp

lemma ucast_of_nat_u64: "ucast (of_nat k :: u64) = (of_nat k :: u16)"
  by (rule bit_word_eqI) (simp add: bit_simps)

lemma unat_of_char [simp]: "unat (of_char c :: u64) = of_char c"
proof -
  have "(of_char c :: nat) < 2 ^ 64" by (rule less_le_trans [of _ 256]) simp_all
  then have "unat (of_nat (of_char c) :: u64) = of_char c" by (rule unat_of_nat_u64)
  then show ?thesis by (simp only: of_nat_of_char)
qed

lemma setPixel_part:
  assumes ok: "screen_ok s" and s': "drawn s s' (render_part x y fg bg c i j)"
    and x: "x + 8 \<le> scr_w s" and y: "y + 8 \<le> scr_h s" and i: "i < 8" and j: "j < 8"
  shows "holds (setPixel (of_nat (x + j)) (of_nat (y + i)) (glyph fg bg c j i) s')
    (\<lambda>s''. drawn s s'' (render_part x y fg bg c i (Suc j)))"
proof -
  obtain v where v: "s' = s\<lparr>video := v\<rparr>" using drawn_video [OF s'] by blast
  have "holds (setPixel (of_nat (x + j)) (of_nat (y + i)) (glyph fg bg c j i) s')
      (\<lambda>s''. drawn s' s'' (\<lambda>x' y'. if x' = x + j \<and> y' = y + i then Some (glyph fg bg c j i) else None))"
    using ok x y i j unfolding v by (intro setPixel_drawn) simp_all
  then show ?thesis
  proof (rule holds_mono)
    fix s''
    assume "drawn s' s'' (\<lambda>x' y'. if x' = x + j \<and> y' = y + i then Some (glyph fg bg c j i) else None)"
    from drawn_trans [OF s' this] show "drawn s s'' (render_part x y fg bg c i (Suc j))"
      by (simp only: render_part_pixel [OF j])
  qed
qed

lemma renderChar_drawn:
  assumes ok: "screen_ok s" and x: "unat x + 8 \<le> scr_w s" and y: "unat y + 8 \<le> scr_h s"
    and c: "of_char c < (128 :: nat)"
  shows "holds (renderChar x y fg bg c s) (\<lambda>s'. drawn s s' (render_part (unat x) (unat y) fg bg c 8 0))"
proof -
  let ?D = "render_part (unat x) (unat y) fg bg c"
  have row: "length (font ! of_char c) = 8" using c by (rule font_nth)
  show ?thesis
    unfolding renderChar_def
  proof (rule each_u64_holds [where I = "\<lambda>i s'. drawn s s' (?D (unat i) 0)"])
    fix i :: u64 and s1
    assume "i < 8" and s1: "drawn s s1 (?D (unat i) 0)"
    then have i: "unat i < 8" "unat (i + 1) = Suc (unat i)"
      using unat_plus_1 [OF \<open>i < 8\<close>] by (simp_all add: word_less_nat_alt)
    show "holds (each_u64 (\<lambda>j s. and_then (fetch font (of_char c)) (\<lambda>row. and_then (fetch row i) (\<lambda>line.
         if drop_bit (unat j) line AND 1 \<noteq> 0 then setPixel (ucast (j + x)) (ucast (y + i)) fg s
         else setPixel (ucast (j + x)) (ucast (y + i)) bg s))) 0 8 s1) (\<lambda>s'. drawn s s' (?D (unat (i + 1)) 0))"
    proof (rule each_u64_holds [where I = "\<lambda>j s'. drawn s s' (?D (unat i) (unat j))"])
      fix j :: u64 and s2
      assume "j < 8" and s2: "drawn s s2 (?D (unat i) (unat j))"
      then have j: "unat j < 8" "unat (j + 1) = Suc (unat j)"
        using unat_plus_1 [OF \<open>j < 8\<close>] by (simp_all add: word_less_nat_alt)
      have eq: "ucast (j + x) = (of_nat (unat x + unat j) :: u16)"
        "ucast (y + i) = (of_nat (unat y + unat i) :: u16)"
        using ucast_of_nat_u64 [of "unat x + unat j"] ucast_of_nat_u64 [of "unat y + unat i"]
        by (simp_all add: add.commute)
      have part: "holds (setPixel (ucast (j + x)) (ucast (y + i)) (glyph fg bg c (unat j) (unat i)) s2)
          (\<lambda>s'. drawn s s' (?D (unat i) (unat (j + 1))))"
        unfolding eq j(2) by (rule setPixel_part [OF ok s2 x y i(1) j(1)])
      show "holds (and_then (fetch font (of_char c)) (\<lambda>row. and_then (fetch row i) (\<lambda>line.
         if drop_bit (unat j) line AND 1 \<noteq> 0 then setPixel (ucast (j + x)) (ucast (y + i)) fg s2
         else setPixel (ucast (j + x)) (ucast (y + i)) bg s2)))
         (\<lambda>s'. drawn s s' (?D (unat i) (unat (j + 1))))"
        unfolding fetch_def bit_drop_and_1 using part i(1) row c
        by (auto simp: glyph_def length_font)
    next
      show "drawn s s' (?D (unat i) (unat (8 :: u64))) \<Longrightarrow> drawn s s' (?D (unat (i + 1)) 0)" for s'
        using i by (simp add: render_part_line)
    qed (use s1 in simp_all)
  qed (simp_all add: drawn_refl)
qed

section \<open>The terminal as a grid of cells\<close>

definition columns :: "'a screen_state_scheme \<Rightarrow> nat" where "columns s = scr_w s div 8"
definition cells :: "'a screen_state_scheme \<Rightarrow> nat" where "cells s = columns s * (scr_h s div 8)"

definition cursor :: "'a screen_state_scheme \<Rightarrow> nat" where
  "cursor s = unat (terminalColumn s) div 8 * columns s + unat (terminalRow s) div 8"

text \<open>The cursor is on a cell of the screen, and no backspace is being handled.\<close>

definition term_ok :: "'a screen_state_scheme \<Rightarrow> bool" where
  "term_ok s \<longleftrightarrow> screen_ok s \<and> \<not> isBack s \<and> 8 dvd scr_w s \<and> 8 dvd scr_h s \<and>
     unat (terminalRow s) < scr_w s \<and> 8 dvd unat (terminalRow s) \<and>
     unat (terminalColumn s) < scr_h s \<and> 8 dvd unat (terminalColumn s)"

text \<open>Cell \<open>n\<close> shows the character \<open>c\<close> in the terminal's colours.\<close>

definition cell_shows :: "'a screen_state_scheme \<Rightarrow> nat \<Rightarrow> char \<Rightarrow> bool" where
  "cell_shows s n c \<longleftrightarrow> (\<forall>dx < 8. \<forall>dy < 8.
     picture s (8 * (n mod columns s) + dx) (8 * (n div columns s) + dy) =
       glyph (terminalFG s) (terminalBG s) c dx dy)"

text \<open>What one printable character does: its glyph is drawn in the cell of the cursor, the
  other cells keep their pixels and the cursor moves on, from the last cell to the first.\<close>

definition typed :: "char \<Rightarrow> 'a screen_state_scheme \<Rightarrow> 'a screen_state_scheme \<Rightarrow> bool" where
  "typed c s s' \<longleftrightarrow>
     (\<exists>v r k. s' = s\<lparr>video := v, terminalRow := r, terminalColumn := k\<rparr>) \<and> term_ok s' \<and>
     cursor s' = Suc (cursor s) mod cells s \<and> cell_shows s' (cursor s) c \<and>
     (\<forall>n d. n < cells s \<longrightarrow> n \<noteq> cursor s \<longrightarrow> cell_shows s n d \<longrightarrow> cell_shows s' n d)"

lemma mult_8E:
  fixes n :: nat
  assumes "8 dvd n" "8 dvd m" "n < m"
  obtains a b where "n = 8 * a" "m = 8 * b" "a < b"
proof -
  obtain a b where "n = 8 * a" "m = 8 * b" using assms(1,2) by (auto elim!: dvdE)
  with assms(3) that show ?thesis by simp
qed

lemma cell_index_less: "a < w \<Longrightarrow> b < h \<Longrightarrow> b * w + a < w * h" for a b w h :: nat
proof -
  assume "a < w" "b < h"
  then have "b * w + a < (b + 1) * w" by simp
  also have "\<dots> \<le> h * w" using \<open>b < h\<close> by (intro mult_right_mono) simp_all
  finally show ?thesis by (simp add: mult.commute)
qed

lemma cell_index_inject:
  fixes a b w :: nat
  assumes "a < w"
  shows "(b * w + a) mod w = a" "(b * w + a) div w = b"
  using assms by simp_all

lemma next_cell:
  fixes a b w h :: nat
  assumes "a < w" and "b < h"
  shows "a + 1 = w \<Longrightarrow> b + 1 = h \<Longrightarrow> Suc (b * w + a) mod (w * h) = 0"
    "a + 1 = w \<Longrightarrow> b + 1 \<noteq> h \<Longrightarrow> Suc (b * w + a) mod (w * h) = (b + 1) * w"
    "a + 1 \<noteq> w \<Longrightarrow> Suc (b * w + a) mod (w * h) = b * w + (a + 1)"
proof -
  show "Suc (b * w + a) mod (w * h) = 0" if "a + 1 = w" "b + 1 = h"
  proof -
    have "Suc (b * w + a) = w * h" using that by (simp flip: that add: algebra_simps)
    then show ?thesis by simp
  qed
  show "Suc (b * w + a) mod (w * h) = (b + 1) * w" if "a + 1 = w" "b + 1 \<noteq> h"
  proof -
    have "Suc (b * w + a) = (b + 1) * w" using that(1) by simp
    moreover have "(b + 1) * w < h * w" using that assms by (intro mult_strict_right_mono) simp_all
    then have "(b + 1) * w < w * h" by (simp only: mult.commute)
    ultimately show ?thesis by simp
  qed
  show "Suc (b * w + a) mod (w * h) = b * w + (a + 1)" if "a + 1 \<noteq> w"
    using cell_index_less [of "a + 1" w b h] that assms by simp
qed

text \<open>A glyph drawn in one cell leaves the pixels of another alone.\<close>

lemma render_part_cell:
  assumes "dx < 8" and "dy < 8"
  shows "render_part (8 * a) (8 * b) fg bg c 8 0 (8 * a' + dx) (8 * b' + dy) =
    (if a' = a \<and> b' = b then Some (glyph fg bg c dx dy) else None)"
proof (cases "a' = a \<and> b' = b")
  case False
  then consider "a' < a" | "a < a'" | "b' < b" | "b < b'" by linarith
  then show ?thesis using assms by cases (auto simp: render_part_def)
qed (use assms in \<open>simp add: render_part_def\<close>)

lemma unat_ucast_u32 [simp]: "unat (ucast w :: u64) = unat w" for w :: u32
  by (simp add: unat_ucast_up)

lemma putchar_default_typed:
  assumes ok: "term_ok s" and c: "of_char c < (128 :: nat)"
  shows "holds (putchar_default c s) (typed c s)"
proof -
  obtain a w where a: "unat (terminalRow s) = 8 * a" "scr_w s = 8 * w" "a < w"
    using ok unfolding term_ok_def by (meson mult_8E)
  obtain b h where b: "unat (terminalColumn s) = 8 * b" "scr_h s = 8 * h" "b < h"
    using ok unfolding term_ok_def by (meson mult_8E)
  have scr: "screen_ok s" and nb: "\<not> isBack s" using ok by (simp_all add: term_ok_def)
  have cols: "columns s = w" "cells s = w * h" "cursor s = b * w + a"
    using a b by (simp_all add: columns_def cells_def cursor_def)
  have step: "unat (terminalRow s + 8) = 8 * (a + 1)" "unat (terminalColumn s + 8) = 8 * (b + 1)"
    using a b screen_ok_width [OF scr] scr
    by (simp_all add: unat_add_u64 screen_ok_def)
  have wrap: "terminalRow s + 8 = ucast (scr_width s) \<longleftrightarrow> a + 1 = w"
    "terminalColumn s + 8 = ucast (scr_height s) \<longleftrightarrow> b + 1 = h"
    using step a b by (simp_all add: word_unat_eq_iff scr_w_def scr_h_def) linarith+
  have "holds (renderChar (terminalRow s) (terminalColumn s) (terminalFG s) (terminalBG s) c s)
      (\<lambda>s'. drawn s s' (render_part (8 * a) (8 * b) (terminalFG s) (terminalBG s) c 8 0))"
    using renderChar_drawn [OF scr _ _ c, of "terminalRow s" "terminalColumn s"] a b by simp
  then show ?thesis
    unfolding putchar_default_def
  proof (rule holds_bind)
    fix s1
    assume d: "drawn s s1 (render_part (8 * a) (8 * b) (terminalFG s) (terminalBG s) c 8 0)"
    obtain v where v: "s1 = s\<lparr>video := v\<rparr>" using drawn_video [OF d] by blast
    define r where "r = (if a + 1 = w then 0 else terminalRow s + 8)"
    define k where "k = (if a + 1 = w then (if b + 1 = h then 0 else terminalColumn s + 8)
      else terminalColumn s)"
    define s2 where "s2 = s\<lparr>video := v, terminalRow := r, terminalColumn := k\<rparr>"
    have s2: "terminalRow s2 = r" "terminalColumn s2 = k" "terminalFG s2 = terminalFG s"
      "terminalBG s2 = terminalBG s" "scr_w s2 = 8 * w" "scr_h s2 = 8 * h" "columns s2 = w"
      "cells s2 = w * h" "isBack s2 = isBack s" "screen_ok s2"
      using cols a b scr by (simp_all add: s2_def columns_def cells_def scr_w_def scr_h_def screen_ok_def)
    have pix: "picture s2 (8 * a' + dx) (8 * b' + dy) =
        (if a' = a \<and> b' = b then glyph (terminalFG s) (terminalBG s) c dx dy
         else picture s (8 * a' + dx) (8 * b' + dy))"
      if "dx < 8" "dy < 8" "a' < w" "b' < h" for a' b' dx dy
    proof -
      have "picture s2 x y = picture s1 x y" for x y
        by (simp add: v s2_def picture_def pixel_offset_def)
      then show ?thesis using d that a b by (simp add: drawn_def render_part_cell)
    qed
    have "term_ok s2" using a b nb step s2 by (auto simp: term_ok_def r_def k_def)
    moreover have "cursor s2 = Suc (cursor s) mod cells s"
      using next_cell [OF a(3) b(3)] a b step unfolding cols
      by (auto simp: cursor_def s2 r_def k_def)
    moreover have "cell_shows s2 (cursor s) c"
      using pix a b by (simp add: cell_shows_def s2 cols cell_index_inject)
    moreover have "cell_shows s2 n e" if n: "n < cells s" "n \<noteq> cursor s" "cell_shows s n e" for n e
    proof -
      have "n mod w < w" "n div w < h"
        using n(1) a(3) by (simp_all add: cols less_mult_imp_div_less mult.commute)
      moreover have "n mod w \<noteq> a \<or> n div w \<noteq> b"
        using n(2) div_mult_mod_eq [of n w] unfolding cols by metis
      ultimately show ?thesis using n(3) pix by (auto simp: cell_shows_def s2 cols)
    qed
    ultimately have "typed c s s2" unfolding typed_def using s2_def by blast
    then show "holds (let s = s1\<lparr>terminalRow := terminalRow s1 + 8\<rparr> in
        if terminalRow s = ucast (scr_width s) \<and> \<not> isBack s then
          let s = s\<lparr>terminalRow := 0, terminalColumn := terminalColumn s + 8\<rparr>
          in Inr (if terminalColumn s = ucast (scr_height s) then s\<lparr>terminalColumn := 0\<rparr> else s)
        else Inr s) (typed c s)"
      using wrap nb unfolding v Let_def by (simp add: s2_def r_def k_def split: if_splits)
  qed
qed

section \<open>Text\<close>

definition plain_char :: "char \<Rightarrow> bool" where
  "plain_char c \<longleftrightarrow> of_char c < (128 :: nat) \<and> c \<notin> {CHR 0x0A, CHR 0x09, CHR 0x08}"

definition put_effect :: "char \<Rightarrow> 'a screen_state_scheme \<Rightarrow> 'a screen_state_scheme" where
  "put_effect c s = (case putchar c s of Inr s' \<Rightarrow> s' | Inl _ \<Rightarrow> s)"

lemma putchar_plain: "plain_char c \<Longrightarrow> putchar c s = putchar_default c s"
  by (simp add: putchar_def plain_char_def)

lemma putchar_typed: "term_ok s \<Longrightarrow> plain_char c \<Longrightarrow> holds (putchar c s) (typed c s)"
  by (simp add: putchar_plain putchar_default_typed plain_char_def)

lemma put_effect_typed: "term_ok s \<Longrightarrow> plain_char c \<Longrightarrow> typed c s (put_effect c s)"
  using putchar_typed by (fastforce simp: put_effect_def elim: holdsE)

lemma itobBuffer_swap:
  "s\<lparr>itobBuffer := b, video := v\<rparr> = s\<lparr>video := v, itobBuffer := b\<rparr>"
  "s\<lparr>itobBuffer := b, terminalRow := r\<rparr> = s\<lparr>terminalRow := r, itobBuffer := b\<rparr>"
  "s\<lparr>itobBuffer := b, terminalColumn := k\<rparr> = s\<lparr>terminalColumn := k, itobBuffer := b\<rparr>"
  "s\<lparr>itobBuffer := b, kprintVSLock := l\<rparr> = s\<lparr>kprintVSLock := l, itobBuffer := b\<rparr>"
  by (cases s, simp)+

lemma renderChar_commutes: "commutes (\<lambda>s. s\<lparr>itobBuffer := b\<rparr>) (renderChar x y fg bg c)"
  unfolding renderChar_def setPixel_def pixel_addr_def
  by (intro commutes_each_u64 commutes_const commutes_if)
    (simp_all add: commutes_def and_then_def itobBuffer_swap Let_def)

lemma putchar_default_commutes: "commutes (\<lambda>s. s\<lparr>itobBuffer := b\<rparr>) (putchar_default c)"
  unfolding putchar_default_def
proof (rule commutes_bind)
  show "commutes (\<lambda>s. s\<lparr>itobBuffer := b\<rparr>)
      (\<lambda>s. renderChar (terminalRow s) (terminalColumn s) (terminalFG s) (terminalBG s) c s)"
    by (simp add: commutes_def commutesD [OF renderChar_commutes])
qed (simp add: commutes_def itobBuffer_swap Let_def)

interpretation terminal: char_device putchar put_effect plain_char term_ok
proof unfold_locales
  fix s :: "'a screen_state_scheme" and c
  show "putchar c s = Inr (put_effect c s)" if "term_ok s" "plain_char c"
    using putchar_typed [OF that] by (auto simp: put_effect_def elim: holdsE)
  show "term_ok (put_effect c s)" if "term_ok s" "plain_char c"
    using put_effect_typed [OF that] by (simp add: typed_def)
  show "term_ok (s\<lparr>itobBuffer := b\<rparr>) = term_ok s" for b
    by (simp add: term_ok_def screen_ok_def scr_w_def scr_h_def)
  show "put_effect c (s\<lparr>itobBuffer := b\<rparr>) = (put_effect c s)\<lparr>itobBuffer := b\<rparr>" if "plain_char c" for b
    using commutesD [OF putchar_default_commutes [where b = b and c = c], where s = s]
    by (auto simp: put_effect_def putchar_plain that split: sum.split)
qed

text \<open>A text typed from the cursor on.\<close>

definition typed_all :: "string \<Rightarrow> 'a screen_state_scheme \<Rightarrow> 'a screen_state_scheme \<Rightarrow> bool" where
  "typed_all t s s' \<longleftrightarrow>
     (\<exists>v r k. s' = s\<lparr>video := v, terminalRow := r, terminalColumn := k\<rparr>) \<and> term_ok s' \<and>
     cursor s' = (cursor s + length t) mod cells s \<and>
     (\<forall>i < length t. cell_shows s' ((cursor s + i) mod cells s) (t ! i)) \<and>
     (\<forall>n d. n < cells s \<longrightarrow> (\<forall>i < length t. n \<noteq> (cursor s + i) mod cells s) \<longrightarrow>
        cell_shows s n d \<longrightarrow> cell_shows s' n d)"

lemma cursor_less: "term_ok s \<Longrightarrow> cursor s < cells s"
  by (auto simp: term_ok_def cursor_def cells_def columns_def intro!: cell_index_less
      elim!: dvdE)

lemma mod_apart:
  fixes k m n :: nat
  assumes "0 < k" and "k < n"
  shows "(m + k) mod n \<noteq> m mod n"
proof
  assume "(m + k) mod n = m mod n"
  then have "n dvd k" by (simp add: mod_eq_dvd_iff_nat)
  with assms show False by (auto dest: dvd_imp_le)
qed

lemma fold_typed:
  "term_ok s \<Longrightarrow> list_all plain_char t \<Longrightarrow> length t \<le> cells s \<Longrightarrow> typed_all t s (fold put_effect t s)"
proof (induction t arbitrary: s)
  case Nil
  have "\<exists>v r k. s = s\<lparr>video := v, terminalRow := r, terminalColumn := k\<rparr>"
    by (intro exI [of _ "video s"] exI [of _ "terminalRow s"] exI [of _ "terminalColumn s"]) simp
  then show ?case
    unfolding typed_all_def using Nil(1) cursor_less [OF Nil(1)] by (intro conjI) simp_all
next
  case (Cons c t)
  define s1 where "s1 = put_effect c s"
  have c: "typed c s s1" unfolding s1_def using Cons.prems by (intro put_effect_typed) simp_all
  then obtain v r k where eq: "s1 = s\<lparr>video := v, terminalRow := r, terminalColumn := k\<rparr>"
    and ok: "term_ok s1" and cur: "cursor s1 = Suc (cursor s) mod cells s"
    and here: "cell_shows s1 (cursor s) c"
    and keep: "\<And>n d. n < cells s \<Longrightarrow> n \<noteq> cursor s \<Longrightarrow> cell_shows s n d \<Longrightarrow> cell_shows s1 n d"
    unfolding typed_def by blast
  have cells: "cells s1 = cells s" by (simp add: eq cells_def columns_def scr_w_def scr_h_def)
  have lt: "cursor s < cells s" using Cons.prems(1) by (rule cursor_less)
  have "typed_all t s1 (fold put_effect t s1)"
    using Cons.IH [OF ok] Cons.prems cells by simp
  then obtain v' r' k' where eq': "fold put_effect t s1 =
      s1\<lparr>video := v', terminalRow := r', terminalColumn := k'\<rparr>"
    and ok': "term_ok (fold put_effect t s1)"
    and cur': "cursor (fold put_effect t s1) = (cursor s1 + length t) mod cells s"
    and here': "\<And>i. i < length t \<Longrightarrow>
      cell_shows (fold put_effect t s1) ((cursor s1 + i) mod cells s) (t ! i)"
    and keep': "\<And>n d. n < cells s \<Longrightarrow> (\<forall>i < length t. n \<noteq> (cursor s1 + i) mod cells s) \<Longrightarrow>
      cell_shows s1 n d \<Longrightarrow> cell_shows (fold put_effect t s1) n d"
    unfolding typed_all_def cells by blast
  have shift: "(cursor s1 + i) mod cells s = (cursor s + Suc i) mod cells s" for i
    by (simp add: cur mod_add_left_eq)
  have "\<exists>v r k. fold put_effect t s1 = s\<lparr>video := v, terminalRow := r, terminalColumn := k\<rparr>"
    using eq' unfolding eq by auto
  moreover have "cell_shows (fold put_effect t s1) ((cursor s + i) mod cells s) ((c # t) ! i)"
    if "i < length (c # t)" for i
  proof (cases i)
    case 0
    have "\<forall>j < length t. cursor s \<noteq> (cursor s1 + j) mod cells s"
    proof (intro allI impI)
      fix j
      assume "j < length t"
      then show "cursor s \<noteq> (cursor s1 + j) mod cells s"
        unfolding shift using mod_apart [of "Suc j" "cells s" "cursor s"] Cons.prems(3) lt by simp
    qed
    with 0 keep' [OF lt this here] lt show ?thesis by simp
  next
    case (Suc j)
    with here' [of j] that show ?thesis by (simp add: shift)
  qed
  moreover have "cell_shows (fold put_effect t s1) n d"
    if n: "n < cells s" "\<forall>i < length (c # t). n \<noteq> (cursor s + i) mod cells s" "cell_shows s n d" for n d
  proof (rule keep' [OF n(1)])
    show "\<forall>i < length t. n \<noteq> (cursor s1 + i) mod cells s" unfolding shift using n(2) by auto
    have "n \<noteq> cursor s" using n(2) lt by force
    then show "cell_shows s1 n d" using keep n by blast
  qed
  ultimately show ?case
    using ok' cur' shift [of "length t"] unfolding typed_all_def fold_simps s1_def [symmetric]
    by simp
qed

lemma screen_lock [simp]:
  "scr_w (s\<lparr>kprintVSLock := l\<rparr>) = scr_w s" "scr_h (s\<lparr>kprintVSLock := l\<rparr>) = scr_h s"
  "columns (s\<lparr>kprintVSLock := l\<rparr>) = columns s" "cells (s\<lparr>kprintVSLock := l\<rparr>) = cells s"
  "cursor (s\<lparr>kprintVSLock := l\<rparr>) = cursor s" "term_ok (s\<lparr>kprintVSLock := l\<rparr>) = term_ok s"
  "cell_shows (s\<lparr>kprintVSLock := l\<rparr>) n c = cell_shows s n c"
  by (simp_all add: scr_w_def scr_h_def columns_def cells_def cursor_def term_ok_def screen_ok_def
      cell_shows_def picture_def pixel_offset_def)

lemma typed_all_lock:
  assumes "typed_all t (s\<lparr>kprintVSLock := l\<rparr>) s'"
  shows "typed_all t s (s'\<lparr>kprintVSLock := kprintVSLock s\<rparr>)"
proof -
  obtain v r k where "s' = s\<lparr>kprintVSLock := l, video := v, terminalRow := r, terminalColumn := k\<rparr>"
    using assms unfolding typed_all_def by blast
  then have "s'\<lparr>kprintVSLock := kprintVSLock s\<rparr> = s\<lparr>video := v, terminalRow := r, terminalColumn := k\<rparr>"
    by (cases s) simp
  then have "\<exists>v r k. s'\<lparr>kprintVSLock := kprintVSLock s\<rparr> =
      s\<lparr>video := v, terminalRow := r, terminalColumn := k\<rparr>" by blast
  then show ?thesis using assms unfolding typed_all_def by simp
qed

text \<open>
  C25: on a terminal whose cursor is on the screen, \<open>kprintVS\<close> of a format that renders to at
  most one screenful of printable characters shows them in the cells from the cursor on,
  leaves the other cells alone, moves the cursor past them (from the last cell to the first)
  and returns with its lock free.
\<close>

theorem kprintVS_shows:
  assumes "term_ok s" and "\<not> kprintVSLock s" and "length (itobBuffer s) = 50"
    and "no_nul str" and "length str < 2 ^ 64" and "render str args = Some out"
    and "list_all plain_char out" and "length out \<le> cells s"
  shows "\<exists>s' b. kprintVS (cstr str) args s = Inr (s'\<lparr>itobBuffer := b\<rparr>) \<and> typed_all out s s'"
proof -
  let ?s = "s\<lparr>kprintVSLock := True\<rparr>"
  have ok: "term_ok ?s" using assms(1) by (simp add: term_ok_def screen_ok_def scr_w_def scr_h_def)
  have "holds (format_out putchar str args ?s) (shown put_effect out ?s)"
    using assms ok by (intro terminal.format_out) simp_all
  then obtain b where out: "format_out putchar str args ?s =
      Inr ((fold put_effect out ?s)\<lparr>itobBuffer := b\<rparr>)"
    by (auto simp: shown_def elim!: holdsE)
  have "typed_all out s ((fold put_effect out ?s)\<lparr>kprintVSLock := False\<rparr>)"
    using typed_all_lock [OF fold_typed [OF ok assms(7)]] assms(2,8) by simp
  moreover have "kprintVS (cstr str) args s =
      Inr ((fold put_effect out ?s)\<lparr>kprintVSLock := False, itobBuffer := b\<rparr>)"
    using assms(2,4,5) out
    by (simp add: kprintVS_def strlen_eq unat_of_nat_small take_cstr itobBuffer_swap)
  ultimately show ?thesis by blast
qed

section \<open>Off the screen\<close>

lemma renderChar_video:
  assumes "renderChar x y fg bg c s = Inr s'"
  shows "\<exists>v. s' = s\<lparr>video := v\<rparr>"
proof -
  have pixel: "\<exists>v. s2 = s\<lparr>video := v\<rparr>"
    if "setPixel x' y' col s1 = Inr s2" "\<exists>v. s1 = s\<lparr>video := v\<rparr>" for x' y' col s1 s2
    using that by (auto simp: setPixel_def and_then_eq_Inr_iff)
  show ?thesis
    using assms unfolding renderChar_def
  proof (rule each_u64_invariant)
    show "\<exists>v. s = s\<lparr>video := v\<rparr>" by (rule exI [of _ "video s"]) simp
  next
    fix i s1 s2
    assume "each_u64 (\<lambda>j s. and_then (fetch font (of_char c)) (\<lambda>row. and_then (fetch row i) (\<lambda>line.
         if drop_bit (unat j) line AND 1 \<noteq> 0 then setPixel (ucast (j + x)) (ucast (y + i)) fg s
         else setPixel (ucast (j + x)) (ucast (y + i)) bg s))) 0 8 s1 = Inr s2"
      and "\<exists>v. s1 = s\<lparr>video := v\<rparr>"
    then show "\<exists>v. s2 = s\<lparr>video := v\<rparr>"
      by (rule each_u64_invariant)
        (auto simp: and_then_eq_Inr_iff split: if_splits intro: pixel)
  qed
qed

text \<open>Below the last line: \<open>terminalColumn\<close> is compared with \<open>height\<close> only for equality.\<close>

definition below :: "'a screen_state_scheme \<Rightarrow> nat \<Rightarrow> 'a screen_state_scheme \<Rightarrow> bool" where
  "below s n s' \<longleftrightarrow> scr_h s' = scr_h s \<and> scr_h s \<le> unat (terminalColumn s') \<and>
     unat (terminalColumn s') + 8 * n < 2 ^ 64"

lemma below_step:
  assumes "below s (Suc n) s'"
  shows "unat (terminalColumn s' + 8) = unat (terminalColumn s') + 8"
    "terminalColumn s' + 8 \<noteq> ucast (scr_height s')"
proof -
  show add: "unat (terminalColumn s' + 8) = unat (terminalColumn s') + 8"
    using assms by (simp add: below_def unat_add_u64)
  have "unat (terminalColumn s' + 8) \<noteq> unat (ucast (scr_height s') :: u64)"
    using assms unfolding add by (simp add: below_def scr_h_def)
  then show "terminalColumn s' + 8 \<noteq> ucast (scr_height s')" by metis
qed

lemma below_default:
  assumes "putchar_default c s1 = Inr s2" and "below s (Suc n) s1"
  shows "below s n s2"
proof -
  obtain v where "renderChar (terminalRow s1) (terminalColumn s1) (terminalFG s1) (terminalBG s1) c s1
      = Inr (s1\<lparr>video := v\<rparr>)"
    using assms(1) renderChar_video unfolding putchar_default_def and_then_eq_Inr_iff by blast
  then show ?thesis
    using assms below_step [OF assms(2)]
    by (auto simp: putchar_default_def Let_def below_def scr_h_def split: if_splits)
qed

lemma below_text:
  "emit_all putchar t s1 = Inr s2 \<Longrightarrow> below s (4 * length t) s1 \<Longrightarrow> CHR 0x08 \<notin> set t \<Longrightarrow> below s 0 s2"
proof (induction t arbitrary: s1)
  case (Cons c t)
  let ?n = "4 * length t"
  have weaken: "below s n s'" if "below s m s'" "n \<le> m" for n m s'
    using that by (auto simp: below_def)
  obtain s' where s': "putchar c s1 = Inr s'" "emit_all putchar t s' = Inr s2"
    using Cons.prems(1) by (auto simp: and_then_eq_Inr_iff)
  have "4 * length (c # t) = Suc (Suc (Suc (Suc ?n)))" by simp
  then have start: "below s (Suc (Suc (Suc (Suc ?n)))) s1" using Cons.prems(2) by (simp only:)
  have "below s ?n s'"
  proof (cases "c = CHR 0x09")
    case True
    then show ?thesis
      using s'(1) start by (auto simp: putchar_def and_then_eq_Inr_iff dest!: below_default)
  next
    case tab: False
    show ?thesis
    proof (cases "c = CHR 0x0A")
      case True
      then show ?thesis
        using s'(1) start below_step [OF start]
        by (auto simp: putchar_def and_then_eq_Inr_iff below_def scr_h_def)
    next
      case False
      then have "putchar_default c s1 = Inr s'"
        using s'(1) tab Cons.prems(3) by (auto simp: putchar_def)
      then show ?thesis using below_default [OF _ start] weaken by fastforce
    qed
  qed
  then show ?case using Cons.IH [OF s'(2)] Cons.prems(3) by simp
qed (simp add: below_def)

text \<open>
  A newline moves the cursor to the start of the next line, except on the last line: there
  it leaves the screen, and no text without a backspace brings it back, however long.
\<close>

theorem putchar_newline:
  fixes s :: "'a screen_state_scheme"
  assumes "term_ok s" and "scr_w s \<le> length (referenceColumn s)"
  shows "\<exists>s'. putchar CHR 0x0A s = Inr s' \<and>
    (if unat (terminalColumn s) + 8 < scr_h s
     then term_ok s' \<and> cursor s' = (cursor s div columns s + 1) * columns s
     else \<forall>t s''. length t < 2 ^ 58 \<longrightarrow> CHR 0x08 \<notin> set t \<longrightarrow> emit_all putchar t s' = Inr s'' \<longrightarrow>
       scr_h s \<le> unat (terminalColumn s''))"
proof -
  define s' where "s' = s\<lparr>referenceColumn := (referenceColumn s)[unat (terminalRow s) :=
      Some (ucast (terminalColumn s))], terminalRow := 0, terminalColumn := terminalColumn s + 8\<rparr>"
  obtain a w where a: "unat (terminalRow s) = 8 * a" "scr_w s = 8 * w" "a < w"
    using assms(1) unfolding term_ok_def by (meson mult_8E)
  obtain b h where b: "unat (terminalColumn s) = 8 * b" "scr_h s = 8 * h" "b < h"
    using assms(1) unfolding term_ok_def by (meson mult_8E)
  have small: "scr_h s \<le> 2 ^ 16" using assms(1) by (simp add: term_ok_def screen_ok_def)
  have step: "unat (terminalColumn s + 8) = 8 * (b + 1)"
    using b small by (simp add: unat_add_u64)
  have geo: "scr_w s' = scr_w s" "scr_h s' = scr_h s" "screen_ok s' = screen_ok s"
    by (simp_all add: s'_def scr_w_def scr_h_def screen_ok_def)
  have "putchar CHR 0x0A s = Inr s'"
    using assms a by (simp add: putchar_def store_def s'_def)
  moreover have "term_ok s' \<and> cursor s' = (cursor s div columns s + 1) * columns s"
    if "unat (terminalColumn s) + 8 < scr_h s"
    using assms(1) that a b step geo
    by (simp add: term_ok_def cursor_def columns_def s'_def cell_index_inject)
  moreover have "scr_h s \<le> unat (terminalColumn s'')"
    if "\<not> unat (terminalColumn s) + 8 < scr_h s" "length t < 2 ^ 58" "CHR 0x08 \<notin> set t"
      "emit_all putchar t s' = Inr s''" for t s''
  proof -
    have "below s (4 * length t) s'"
      using that(1,2) b step small geo by (simp add: below_def) (simp add: s'_def)
    from below_text [OF that(4) this that(3)] show ?thesis by (simp add: below_def)
  qed
  ultimately show ?thesis by auto
qed

text \<open>
  A backspace at the start of a line leaves \<open>isBack\<close> set: the character typed over the
  last cell of the line above does not wrap, and the cursor stays past the right edge.
\<close>

theorem putchar_backspace_sticks:
  assumes "term_ok s" and "terminalRow s = 0" and "terminalColumn s \<noteq> 0" and "plain_char c"
  shows "\<exists>s' s''. putchar CHR 0x08 s = Inr s' \<and> isBack s' \<and> putchar c s' = Inr s'' \<and>
    isBack s'' \<and> unat (terminalRow s'') = scr_w s"
proof -
  obtain w where w: "scr_w s = 8 * w" "0 < w"
    using assms(1) by (auto simp: term_ok_def elim!: dvdE)
  obtain b h where b: "unat (terminalColumn s) = 8 * b" "scr_h s = 8 * h" "b < h"
    using assms(1) unfolding term_ok_def by (meson mult_8E)
  have "b \<noteq> 0" using assms(3) b by (auto simp: word_unat_eq_iff)
  have scr: "screen_ok s" using assms(1) by (simp add: term_ok_def)
  define s1 where "s1 = s\<lparr>isBack := True, terminalColumn := terminalColumn s - 8,
      terminalRow := ucast (scr_width s) - 8\<rparr>"
  have at: "unat (ucast (scr_width s) - 8 :: u64) = 8 * (w - 1)" "unat (terminalColumn s - 8) = 8 * (b - 1)"
    using w b \<open>b \<noteq> 0\<close> by (simp_all add: unat_sub word_le_nat_alt scr_w_def diff_mult_distrib2)
  have type: "\<exists>v. putchar_default d t = Inr (t\<lparr>video := v, terminalRow := ucast (scr_width s)\<rparr>)"
    if "of_char d < (128 :: nat)" "t = s1\<lparr>video := v0\<rparr>" for d t v0
  proof -
    have t: "screen_ok t" "scr_w t = scr_w s" "scr_h t = scr_h s" "isBack t" "scr_width t = scr_width s"
      "unat (terminalRow t) = 8 * (w - 1)" "unat (terminalColumn t) = 8 * (b - 1)"
      "terminalRow t = ucast (scr_width s) - 8"
      using scr at by (simp_all add: that(2) s1_def screen_ok_def scr_w_def scr_h_def)
    have "holds (renderChar (terminalRow t) (terminalColumn t) (terminalFG t) (terminalBG t) d t)
        (\<lambda>t'. \<exists>v. t' = t\<lparr>video := v\<rparr>)"
    proof (rule holds_mono [OF renderChar_drawn])
      show "\<exists>v. t' = t\<lparr>video := v\<rparr>"
        if "drawn t t' (render_part (unat (terminalRow t)) (unat (terminalColumn t)) (terminalFG t) (terminalBG t) d 8 0)"
        for t' using drawn_video [OF that] by blast
    qed (use t w b that(1) in simp_all)
    then obtain v where "renderChar (terminalRow t) (terminalColumn t) (terminalFG t) (terminalBG t) d t =
        Inr (t\<lparr>video := v\<rparr>)" by (auto elim: holdsE)
    then have "putchar_default d t = Inr (t\<lparr>video := v, terminalRow := ucast (scr_width s)\<rparr>)"
      using t by (simp add: putchar_default_def)
    then show ?thesis by blast
  qed
  obtain v where v: "putchar_default CHR '' '' s1 =
      Inr (s1\<lparr>video := v, terminalRow := ucast (scr_width s)\<rparr>)" using type [of "CHR '' ''" s1 "video s1"] by auto
  have "putchar CHR 0x08 s = Inr (s1\<lparr>video := v\<rparr>)"
    using v assms(2,3) by (simp add: putchar_def s1_def)
  moreover obtain v' where "putchar c (s1\<lparr>video := v\<rparr>) =
      Inr (s1\<lparr>video := v', terminalRow := ucast (scr_width s)\<rparr>)"
    using type [of c "s1\<lparr>video := v\<rparr>" v] assms(4) by (auto simp: putchar_plain plain_char_def)
  ultimately show ?thesis by (auto simp: s1_def scr_w_def)
qed

section \<open>The screen at boot\<close>

lemma low_half_zero [simp]: "low_half v 0 = ucast v"
  by (simp add: low_half_def)

text \<open>
  At boot (the variables of the terminal still zero) \<open>initVESA\<close> and \<open>initVESAtext\<close> set up, for
  a 32 bit mode of whole cells, a terminal with its cursor in the first cell.
\<close>

theorem initVESAtext_ready:
  fixes s :: "'a screen_state_scheme"
  assumes "heap_ok s" and "console_ready s"
    and "\<not> {..<32768} \<subseteq> bits (kbitmap s)" and "\<exists>e \<in> set (allocationBitmap s). a_size e = 0"
    and "scr_width s = 0" and "scr_height s = 0" and "terminalRow s = 0" and "terminalColumn s = 0"
    and "\<not> isBack s"
    and "b_bpp b = 32" and "4 * unat (b_width b) \<le> unat (b_pitch b)"
    and "unat (b_height b) * unat (b_pitch b) < 2 ^ 31"
    and "8 dvd unat (b_width b)" and "8 dvd unat (b_height b)"
    and "b_width b \<noteq> 0" and "b_height b \<noteq> 0"
  shows "\<exists>s'. initVESAtext fg bg (ucast (b_width b)) (ucast (b_height b)) (initVESA b s) = Inr s' \<and>
    term_ok s' \<and> cursor s' = 0 \<and> terminalFG s' = fg \<and> terminalBG s' = bg"
proof -
  let ?s = "(initVESA b s)\<lparr>terminalBG := bg, terminalFG := fg,
    scr_height := ucast (ucast (b_height b) :: u64), scr_width := ucast (ucast (b_width b) :: u64)\<rparr>"
  have u: "unat (ucast (ucast w :: u64) :: u32) = unat w" for w :: u16
  proof -
    have "ucast (ucast w :: u64) = (ucast w :: u32)"
      by (rule bit_word_eqI) (auto simp: bit_simps dest: bit_imp_le_length)
    then show ?thesis by (simp add: unat_ucast_up)
  qed
  have pos: "0 < unat (b_width b)" "0 < unat (b_height b)"
    using assms(15,16) by (simp_all add: unat_gt_0)
  have ready: "heap_ok ?s" "console_ready ?s" "\<not> {..<32768} \<subseteq> bits (kbitmap ?s)"
    "\<exists>e \<in> set (allocationBitmap ?s). a_size e = 0"
    using assms(1-4) by (simp_all add: initVESA_def heap_ok_def console_ready_def)
  have "holds (kmalloc 0x2000 ?s) (\<lambda>(a, s'). heap_changed ?s s')"
    using kmalloc_changes [OF ready] by (rule holds_mono) auto
  moreover have "term_ok s' \<and> cursor s' = 0 \<and> terminalFG s' = fg \<and> terminalBG s' = bg"
    if "heap_changed ?s s'" for s'
    using that assms pos u unat_lt2p_u16 [of "b_height b"]
    by (auto simp: heap_changed_def term_ok_def screen_ok_def scr_w_def scr_h_def cursor_def initVESA_def)
  ultimately show ?thesis
    by (auto simp: initVESAtext_def term_ok_def screen_ok_def scr_w_def scr_h_def cursor_def
        columns_def elim!: holdsE)
qed

section \<open>Witnesses\<close>

text \<open>A screen of 1024 by 768 pixels on the empty machine.\<close>

definition example_screen :: screen_state where
  "example_screen = vmm_state.extend example_vmm
     \<lparr>framebuffer = 0xfd000000, fb_pitch = 4096, fb_bpp = 32, scr_height = 768, scr_width = 1024,
      video = (\<lambda>a. 0), terminalRow = 0, terminalColumn = 0, terminalBG = 0,
      terminalFG = 0xffffffff, referenceColumn = replicate 2048 None, isBack = False,
      kprintVSLock = False\<rparr>"

definition example_mode :: bproto_t where
  "example_mode = \<lparr>mmapAddress = 0, mmapEntries = 0, b_rsdp = 0, b_pitch = 4096, b_width = 1024,
     b_height = 768, b_bpp = 32, b_framebuffer = 0xfd000000\<rparr>"

lemma example_screen_ok:
  "term_ok example_screen" "\<not> kprintVSLock example_screen" "length (itobBuffer example_screen) = 50"
  by (simp_all add: example_screen_def vmm_state.defs term_ok_def screen_ok_def scr_w_def scr_h_def
      example_vmm_def example_space_def)

theorem setPixel_grabColour_witness:
  "\<exists>s'. setPixel 1023 767 0xff0000 example_screen = Inr s' \<and> grabColour 1023 767 s' = Inr 0xff0000"
  using setPixel_grabColour [of example_screen 1023 767 "0xff0000"] example_screen_ok(1)
  by (auto simp: term_ok_def example_screen_def vmm_state.defs scr_w_def scr_h_def)

theorem kprintVS_shows_witness:
  "\<exists>s' b. kprintVS (cstr ''core %d'') [VaLong 3] example_screen = Inr (s'\<lparr>itobBuffer := b\<rparr>) \<and>
     cell_shows s' 5 CHR ''3''"
proof -
  have r: "render ''core %d'' [VaLong 3] = Some ''core 3''"
    by (simp add: numeral_of.simps digit_char_def)
  have geo: "cells example_screen = 12288" "cursor example_screen = 0"
    by (simp_all add: cells_def columns_def cursor_def example_screen_def vmm_state.defs scr_w_def scr_h_def)
  have "\<exists>s' b. kprintVS (cstr ''core %d'') [VaLong 3] example_screen = Inr (s'\<lparr>itobBuffer := b\<rparr>) \<and>
      typed_all ''core 3'' example_screen s'"
    by (rule kprintVS_shows [OF example_screen_ok _ _ r]) (simp_all add: geo plain_char_def)
  moreover have "cell_shows s' 5 CHR ''3''" if "typed_all ''core 3'' example_screen s'" for s'
  proof -
    have "\<forall>i < length ''core 3''. cell_shows s' ((cursor example_screen + i) mod cells example_screen) (''core 3'' ! i)"
      using that unfolding typed_all_def by blast
    then show ?thesis unfolding geo by (auto dest: spec [of _ 5])
  qed
  ultimately show ?thesis by blast
qed

theorem putchar_newline_witness:
  "\<exists>s'. putchar CHR 0x0A (example_screen\<lparr>terminalColumn := 760\<rparr>) = Inr s' \<and>
     (\<forall>t s''. length t < 2 ^ 58 \<longrightarrow> CHR 0x08 \<notin> set t \<longrightarrow> emit_all putchar t s' = Inr s'' \<longrightarrow>
       768 \<le> unat (terminalColumn s''))"
  using putchar_newline [of "example_screen\<lparr>terminalColumn := 760\<rparr>"] example_screen_ok(1)
  by (simp add: term_ok_def screen_ok_def scr_w_def scr_h_def example_screen_def vmm_state.defs)

theorem putchar_backspace_sticks_witness:
  "\<exists>s' s''. putchar CHR 0x08 (example_screen\<lparr>terminalColumn := 8\<rparr>) = Inr s' \<and>
     putchar CHR ''x'' s' = Inr s'' \<and> unat (terminalRow s'') = 1024"
  using putchar_backspace_sticks [of "example_screen\<lparr>terminalColumn := 8\<rparr>" "CHR ''x''"] example_screen_ok(1)
  by (auto simp: term_ok_def screen_ok_def scr_w_def scr_h_def plain_char_def example_screen_def vmm_state.defs)

theorem initVESAtext_ready_witness:
  "\<exists>s'. initVESAtext 0xffffffff 0 1024 768
      (initVESA example_mode (example_screen\<lparr>scr_width := 0, scr_height := 0\<rparr>)) = Inr s' \<and> term_ok s'"
proof -
  let ?s = "example_screen\<lparr>scr_width := 0, scr_height := 0\<rparr>"
  have eq: "kbitmap ?s = kbitmap example_vmm" "allocationBitmap ?s = allocationBitmap example_vmm"
    by (simp_all add: example_screen_def vmm_state.defs)
  have "heap_ok ?s = heap_ok example_vmm" "console_ready ?s = console_ready example_vmm"
    by (simp_all add: example_screen_def vmm_state.defs heap_ok_def console_ready_def)
  with example_vmm_ok have ok: "heap_ok ?s" "console_ready ?s" by simp_all
  have space: "\<not> {..<32768 :: nat} \<subseteq> bits (kbitmap ?s)" "\<exists>e \<in> set (allocationBitmap ?s). a_size e = 0"
    unfolding eq using example_vmm_ok by (simp_all add: lessThan_empty_iff)
  have "\<exists>s'. initVESAtext 0xffffffff 0 (ucast (b_width example_mode)) (ucast (b_height example_mode))
      (initVESA example_mode ?s) = Inr s' \<and> term_ok s' \<and> cursor s' = 0 \<and>
      terminalFG s' = 0xffffffff \<and> terminalBG s' = 0"
    by (rule initVESAtext_ready [OF ok space])
      (simp_all add: example_mode_def example_screen_def vmm_state.defs)
  then show ?thesis by (auto simp: example_mode_def)
qed

end
