(* ===== verification/Machine_IO.thy ===== *)
theory Machine_IO
  imports Screen
begin

text \<open>
  The devices of the machine, behind \<^verbatim>\<open>lib/libk/asmUtils.c\<close> (port instructions, model specific
  registers) and behind \<open>volatile\<close> pointers to their registers. Every access is an event and
  is recorded in \<open>io_log\<close>; what a read returns is a function of the events up to and with the
  read (\<open>io_device\<close>), so a device may have any internal state. Nothing is assumed about the
  devices here: a theorem that needs a device to answer as documented says so.
\<close>

datatype io_event =
    OutB u16 u8 | OutW u16 u16 | OutD u16 u32
  | InB u16 | InW u16 | InD u16
  | MmioWrite u64 u32 | MmioRead u64 | MmioWrite64 u64 u64 | MmioRead64 u64
  | Wrmsr u64 u64 | Rdmsr u64

record io_state = screen_state +
  io_log :: "io_event list"
  io_device :: "io_event list \<Rightarrow> u64"

definition io_write :: "io_event \<Rightarrow> 'a io_state_scheme \<Rightarrow> 'a io_state_scheme" where
  "io_write e s = s\<lparr>io_log := io_log s @ [e]\<rparr>"

definition io_read :: "io_event \<Rightarrow> 'a io_state_scheme \<Rightarrow> u64 \<times> 'a io_state_scheme" where
  "io_read e s = (io_device s (io_log s @ [e]), s\<lparr>io_log := io_log s @ [e]\<rparr>)"

definition outb :: "u16 \<Rightarrow> u8 \<Rightarrow> 'a io_state_scheme \<Rightarrow> 'a io_state_scheme" where
  "outb port data = io_write (OutB port data)"

definition outw :: "u16 \<Rightarrow> u16 \<Rightarrow> 'a io_state_scheme \<Rightarrow> 'a io_state_scheme" where
  "outw port data = io_write (OutW port data)"

definition outd :: "u16 \<Rightarrow> u32 \<Rightarrow> 'a io_state_scheme \<Rightarrow> 'a io_state_scheme" where
  "outd port data = io_write (OutD port data)"

definition inb :: "u16 \<Rightarrow> 'a io_state_scheme \<Rightarrow> u8 \<times> 'a io_state_scheme" where
  "inb port s = (let (data, s) = io_read (InB port) s in (ucast data, s))"

definition inw :: "u16 \<Rightarrow> 'a io_state_scheme \<Rightarrow> u16 \<times> 'a io_state_scheme" where
  "inw port s = (let (data, s) = io_read (InW port) s in (ucast data, s))"

definition ind :: "u16 \<Rightarrow> 'a io_state_scheme \<Rightarrow> u32 \<times> 'a io_state_scheme" where
  "ind port s = (let (data, s) = io_read (InD port) s in (ucast data, s))"

text \<open>A \<open>volatile uint32_t\<close> register of a device.\<close>

definition mmio_read :: "u64 \<Rightarrow> 'a io_state_scheme \<Rightarrow> u32 \<times> 'a io_state_scheme" where
  "mmio_read a s = (let (data, s) = io_read (MmioRead a) s in (ucast data, s))"

definition mmio_write :: "u64 \<Rightarrow> u32 \<Rightarrow> 'a io_state_scheme \<Rightarrow> 'a io_state_scheme" where
  "mmio_write a data = io_write (MmioWrite a data)"

text \<open>A \<open>volatile uint64_t\<close> register.\<close>

definition mmio_read64 :: "u64 \<Rightarrow> 'a io_state_scheme \<Rightarrow> u64 \<times> 'a io_state_scheme" where
  "mmio_read64 a = io_read (MmioRead64 a)"

definition mmio_write64 :: "u64 \<Rightarrow> u64 \<Rightarrow> 'a io_state_scheme \<Rightarrow> 'a io_state_scheme" where
  "mmio_write64 a data = io_write (MmioWrite64 a data)"

text \<open>The instruction returns the two halves in \<open>rax\<close> and \<open>rdx\<close>.\<close>

definition rdmsr :: "u64 \<Rightarrow> 'a io_state_scheme \<Rightarrow> u64 \<times> 'a io_state_scheme" where
  "rdmsr msr s =
     (let (data, s) = io_read (Rdmsr msr) s;
          rax = data AND 0xffffffff; rdx = drop_bit 32 data in
      (push_bit 32 rdx OR rax, s))"

definition wrmsr :: "u64 \<Rightarrow> u64 \<Rightarrow> 'a io_state_scheme \<Rightarrow> 'a io_state_scheme" where
  "wrmsr msr data =
     (let rax = ucast (ucast data :: u32) :: u64; rdx = drop_bit 32 data in
      io_write (Wrmsr msr (push_bit 32 rdx OR rax)))"

text \<open>\<open>while(!ready(read())) ;\<close>: the fuel bounds the number of reads.\<close>

primrec poll ::
  "nat \<Rightarrow> ('x \<Rightarrow> bool) \<Rightarrow> ('s \<Rightarrow> 'x \<times> 's) \<Rightarrow> 's \<Rightarrow> ('x \<times> 's) result"
where
  "poll 0 ready rd s = Inl OutOfFuel"
| "poll (Suc n) ready rd s = (let (x, s) = rd s in if ready x then Inr (x, s) else poll n ready rd s)"

definition serialRead :: "nat \<Rightarrow> 'a io_state_scheme \<Rightarrow> (u8 \<times> 'a io_state_scheme) result" where
  "serialRead fuel s =
     and_then (poll fuel (\<lambda>status. status AND 1 \<noteq> 0) (inb (0x3f8 + 5)) s) (\<lambda>(_, s). Inr (inb 0x3f8 s))"

lemma poll_more: "poll n ready rd s = Inr r \<Longrightarrow> n \<le> m \<Longrightarrow> poll m ready rd s = Inr r"
proof (induction n arbitrary: m s)
  case (Suc n)
  then obtain k where "m = Suc k" "n \<le> k" by (cases m) auto
  with Suc show ?case by (auto split: prod.splits if_splits)
qed simp

end
