(* ===== verification/Pci.thy ===== *)
theory Pci
  imports Machine_IO
begin

text \<open>
  The PCI bus, \<^verbatim>\<open>kernel/drivers/pci.c\<close>: configuration reads and writes through the ports
  \<open>0xcf8\<close> and \<open>0xcfc\<close>, the recursive scan of the buses and the table of the devices found.
  The configuration space is the answer of the device behind the ports
  (\<open>config_space\<close>). \<open>enumerate\<close> is the reference the scan is compared with.
\<close>

record pci_t =
  classCode :: u8
  subClass :: u8
  progIF :: u8
  deviceID :: u16
  vendorID :: u16
  p_bus :: u8
  p_device :: u8
  p_function :: u8

record pciBar_t =
  bar_base :: u32
  bar_size :: u32

record pci_state = io_state +
  pciDevices :: "pci_t list"
  pciDevicesAddr :: u64
  totalDevices :: u64
  pciMaxSize :: u64

section \<open>Configuration space\<close>

definition pci_address :: "u8 \<Rightarrow> u8 \<Rightarrow> u8 \<Rightarrow> u8 \<Rightarrow> u32" where
  "pci_address bus device func reg =
     push_bit 31 1 OR push_bit 16 (ucast bus) OR push_bit 11 (ucast device AND 31) OR
     push_bit 8 (ucast func AND 7) OR (ucast reg AND NOT 3)"

definition pciRead ::
  "u8 \<Rightarrow> u8 \<Rightarrow> u8 \<Rightarrow> u8 \<Rightarrow> 'a io_state_scheme \<Rightarrow> u32 \<times> 'a io_state_scheme"
where
  "pciRead bus device func reg s = ind 0xcfc (outd 0xcf8 (pci_address bus device func reg) s)"

definition pciWrite ::
  "u32 \<Rightarrow> u8 \<Rightarrow> u8 \<Rightarrow> u8 \<Rightarrow> u8 \<Rightarrow> 'a io_state_scheme \<Rightarrow> 'a io_state_scheme"
where
  "pciWrite data bus device func reg s = outd 0xcfc data (outd 0xcf8 (pci_address bus device func reg) s)"

definition getBAR :: "pci_t \<Rightarrow> u64 \<Rightarrow> 'a io_state_scheme \<Rightarrow> pciBar_t \<times> 'a io_state_scheme" where
  "getBAR d barNum s =
     (let reg = ucast (0x10 + barNum * 4);
          (base, s) = pciRead (p_bus d) (p_device d) (p_function d) reg s;
          s = pciWrite 0xffffffff (p_bus d) (p_device d) (p_function d) reg s;
          (sz, s) = pciRead (p_bus d) (p_device d) (p_function d) reg s;
          s = pciWrite base (p_bus d) (p_device d) (p_function d) reg s in
      (\<lparr>bar_base = base, bar_size = NOT sz + 1\<rparr>, s))"

section \<open>The table of devices\<close>

text \<open>\<open>sizeof(pci_t)\<close> is 12; \<open>fresh\<close> is what fresh heap memory holds.\<close>

definition addPCIDevice ::
  "(nat \<Rightarrow> pci_t) \<Rightarrow> pci_t \<Rightarrow> 'a pci_state_scheme \<Rightarrow> 'a pci_state_scheme result"
where
  "addPCIDevice fresh newDevice s =
     and_then
       (if totalDevices s > pciMaxSize s then
          let s = s\<lparr>pciMaxSize := pciMaxSize s + 10\<rparr> in
          and_then (krealloc (pciDevicesAddr s) (pciMaxSize s) s) (\<lambda>(a, s).
            Inr (s\<lparr>pciDevicesAddr := a, 
              pciDevices := resized_object 12 (pciMaxSize s) fresh (pciDevices s)\<rparr>))
        else Inr s) (\<lambda>s.
     and_then (store (pciDevices s) (totalDevices s) newDevice) (\<lambda>ds.
       Inr (s\<lparr>pciDevices := ds, totalDevices := totalDevices s + 1\<rparr>)))"

section \<open>The scan\<close>

text \<open>The header type with the multi-function bit cleared, class and subclass say whether the
  function is a bridge to another bus; \<open>||\<close> leaves out the reads after the first that differs.\<close>

definition is_bridge ::
  "u8 \<Rightarrow> u8 \<Rightarrow> u8 \<Rightarrow> 'a io_state_scheme \<Rightarrow> bool \<times> 'a io_state_scheme"
where
  "is_bridge bus device function s =
     (let (r, s) = pciRead bus device function 0xC s in
      if (ucast (drop_bit 16 r) :: u8) AND NOT (push_bit 7 1) \<noteq> 1 then (False, s) else
      let (r, s) = pciRead bus device function 0x8 s in
      if (ucast (drop_bit 24 r) :: u8) \<noteq> 6 then (False, s) else
      let (r, s) = pciRead bus device function 0x8 s in
      ((ucast (drop_bit 16 r) :: u8) = 4, s))"

definition newDevice ::
  "u8 \<Rightarrow> u8 \<Rightarrow> u8 \<Rightarrow> 'a io_state_scheme \<Rightarrow> pci_t \<times> 'a io_state_scheme"
where
  "newDevice bus device function s =
     (let (r1, s) = pciRead bus device function 0x8 s;
          (r2, s) = pciRead bus device function 0x8 s;
          (r3, s) = pciRead bus device function 0x8 s;
          (r4, s) = pciRead bus device function 0 s;
          (r5, s) = pciRead bus device function 0 s in
      (\<lparr>classCode = ucast (drop_bit 24 r1), subClass = ucast (drop_bit 16 r2),
        progIF = ucast (drop_bit 8 r3), deviceID = ucast (drop_bit 16 r4), vendorID = ucast r5,
        p_bus = bus, p_device = device, p_function = function\<rparr>, s))"

text \<open>\<open>checkDevice\<close> calls \<open>pciScanBus\<close>, which calls \<open>checkDevice\<close>: the scan of the bus behind a
  bridge is a parameter here.\<close>

definition checkDevice ::
  "(nat \<Rightarrow> pci_t) \<Rightarrow> (u8 \<Rightarrow> 'a pci_state_scheme \<Rightarrow> 'a pci_state_scheme result) \<Rightarrow>
   u8 \<Rightarrow> u8 \<Rightarrow> u8 \<Rightarrow> 'a pci_state_scheme \<Rightarrow> 'a pci_state_scheme result"
where
  "checkDevice fresh scan bus device function s =
     (let (isBridge, s) = is_bridge bus device function s in
      if isBridge then
        let (r, s) = pciRead bus device function 0x18 s in scan (ucast (drop_bit 8 r)) s
      else let (d, s) = newDevice bus device function s in addPCIDevice fresh d s)"

text \<open>The recursion follows the bridges; nothing in the code stops it, so it has fuel.\<close>

primrec pciScanBus ::
  "(nat \<Rightarrow> pci_t) \<Rightarrow> nat \<Rightarrow> u8 \<Rightarrow> 'a pci_state_scheme \<Rightarrow> 'a pci_state_scheme result"
where
  "pciScanBus fresh 0 bus s = Inl OutOfFuel"
| "pciScanBus fresh (Suc fuel) bus s =
     each_u64 (\<lambda>device s.
       let (r, s) = pciRead bus (ucast device) 0 0 s in
       if (ucast r :: u16) = 0xffff then Inr s
       else and_then (checkDevice fresh (pciScanBus fresh fuel) bus (ucast device) 0 s) (\<lambda>s.
         let (r, s) = pciRead bus (ucast device) 0 0xc s in
         if (ucast (drop_bit 16 r) :: u8) AND push_bit 7 1 = 0 then Inr s
         else each_u64 (\<lambda>function s.
           let (r, s) = pciRead bus (ucast device) (ucast function) 0 s in
           if (ucast r :: u16) = 0xffff then Inr s
           else checkDevice fresh (pciScanBus fresh fuel) bus (ucast device) (ucast function) s) 1 8 s)) 0 32 s"

definition show_device :: "u64 \<Rightarrow> 'a pci_state_scheme \<Rightarrow> 'a pci_state_scheme result" where
  "show_device i s =
     and_then (kprintDS (cstr ''[PCI]'') (cstr ''device %d: '') [VaLong i] s) (\<lambda>s.
     and_then (fetch (pciDevices s) i) (\<lambda>d.
     and_then (kprintDS (cstr ''[PCI]'')
         (cstr (CHR 0x09 # ''Vendor: %x on [bus] %d [device] %d [function] %d''))
         [VaInt (ucast (vendorID d)), VaInt (ucast (p_bus d)), VaInt (ucast (p_device d)),
          VaInt (ucast (p_function d))] s) (\<lambda>s.
       kprintDS (cstr ''[PCI]'')
         (cstr (CHR 0x09 # ''Device type: [class] %d [subclass] %d [progIF] %d [Device ID] %x''))
         [VaInt (ucast (classCode d)), VaInt (ucast (subClass d)), VaInt (ucast (progIF d)),
          VaInt (ucast (deviceID d))] s)))"

definition showDevices :: "'a pci_state_scheme \<Rightarrow> 'a pci_state_scheme result" where
  "showDevices s =
     and_then (each_u64 show_device 0 (totalDevices s) s) (\<lambda>s.
       kprintDS (cstr ''[PCI]'') (cstr ''Total Devices: %d'') [VaLong (totalDevices s)] s)"

definition initPCI ::
  "(nat \<Rightarrow> pci_t) \<Rightarrow> nat \<Rightarrow> 'a pci_state_scheme \<Rightarrow> 'a pci_state_scheme result"
where
  "initPCI fresh fuel s =
     and_then (kmalloc (12 * 10) s) (\<lambda>(a, s).
     and_then (pciScanBus fresh fuel 0 (s\<lparr>pciDevicesAddr := a, pciDevices := fresh_object 10 fresh\<rparr>)) showDevices)"

definition grabPCIDevices :: "'a pci_state_scheme \<Rightarrow> pci_t list \<times> u64" where
  "grabPCIDevices s = (pciDevices s, totalDevices s)"

section \<open>Addresses\<close>

lemma low_bits:
  "x AND 31 = take_bit 5 x" "x AND 7 = take_bit 3 x" "x AND 0xff = take_bit 8 x"
  for x :: "'a::len word"
  by (simp_all add: take_bit_eq_mask mask_eq_exp_minus_1)

lemma bit_3_iff: "bit (3 :: int) n \<longleftrightarrow> n < 2"
proof -
  have three: "(3 :: int) = mask 2" by (simp add: mask_eq_exp_minus_1)
  show ?thesis unfolding three by (auto simp: bit_mask_iff)
qed

lemma bit_pci_address:
  "bit (pci_address bus device func reg) n \<longleftrightarrow>
     n = 31 \<or> 16 \<le> n \<and> n < 24 \<and> bit bus (n - 16) \<or> 11 \<le> n \<and> n < 16 \<and> bit device (n - 11) \<or>
     8 \<le> n \<and> n < 11 \<and> bit func (n - 8) \<or> 2 \<le> n \<and> n < 8 \<and> bit reg n"
proof -
  have "bit (push_bit 31 1 :: u32) n \<longleftrightarrow> n = 31"
    by (auto simp: bit_push_bit_iff bit_1_iff simp del: push_bit_of_1)
  moreover have "bit (push_bit 16 (ucast bus) :: u32) n \<longleftrightarrow> 16 \<le> n \<and> n < 24 \<and> bit bus (n - 16)"
    by (auto simp: bit_simps dest: bit_imp_le_length)
  moreover have "bit (push_bit 11 (take_bit 5 (ucast device)) :: u32) n \<longleftrightarrow>
      11 \<le> n \<and> n < 16 \<and> bit device (n - 11)"
    by (auto simp: bit_simps dest: bit_imp_le_length)
  moreover have "bit (push_bit 8 (take_bit 3 (ucast func)) :: u32) n \<longleftrightarrow> 8 \<le> n \<and> n < 11 \<and> bit func (n - 8)"
    by (auto simp: bit_simps dest: bit_imp_le_length)
  moreover have "bit (ucast reg AND NOT 3 :: u32) n \<longleftrightarrow> 2 \<le> n \<and> n < 8 \<and> bit reg n"
    by (auto simp: bit_simps bit_3_iff dest: bit_imp_le_length)
  ultimately show ?thesis unfolding pci_address_def low_bits bit_or_iff by blast
qed

text \<open>
  The configuration address holds the bus, the device, the function and the register, each
  in its own bits: two requests that differ in one of them have different addresses.
\<close>

theorem pci_address_fields:
  "bit (pci_address bus device func reg) 31 \<and>
   ucast (drop_bit 16 (pci_address bus device func reg)) = bus \<and>
   drop_bit 11 (pci_address bus device func reg) AND 31 = ucast (device AND 31) \<and>
   drop_bit 8 (pci_address bus device func reg) AND 7 = ucast (func AND 7) \<and>
   pci_address bus device func reg AND 0xff = ucast (reg AND NOT 3)"
proof (intro conjI)
  note bits = bit_pci_address low_bits bit_simps bit_3_iff
  show "bit (pci_address bus device func reg) 31" by (simp add: bits)
  show "ucast (drop_bit 16 (pci_address bus device func reg)) = bus"
    by (rule bit_word_eqI) (auto simp: bits)
  show "drop_bit 11 (pci_address bus device func reg) AND 31 = ucast (device AND 31)"
    by (rule bit_word_eqI) (auto simp: bits)
  show "drop_bit 8 (pci_address bus device func reg) AND 7 = ucast (func AND 7)"
    by (rule bit_word_eqI) (auto simp: bits)
  show "pci_address bus device func reg AND 0xff = ucast (reg AND NOT 3)"
    by (rule bit_word_eqI) (auto simp: bits)
qed

section \<open>The reference enumeration\<close>

text \<open>A configuration space that the reads do not change.\<close>

definition config_space :: "(io_event list \<Rightarrow> u64) \<Rightarrow> (u32 \<Rightarrow> u32) \<Rightarrow> bool" where
  "config_space dev cfg \<longleftrightarrow> (\<forall>l a. ucast (dev (l @ [OutD 0xcf8 a, InD 0xcfc])) = cfg a)"

definition absent :: "(u32 \<Rightarrow> u32) \<Rightarrow> u8 \<Rightarrow> u8 \<Rightarrow> u8 \<Rightarrow> bool" where
  "absent cfg b d f \<longleftrightarrow> (ucast (cfg (pci_address b d f 0)) :: u16) = 0xffff"

definition bridge :: "(u32 \<Rightarrow> u32) \<Rightarrow> u8 \<Rightarrow> u8 \<Rightarrow> u8 \<Rightarrow> bool" where
  "bridge cfg b d f \<longleftrightarrow>
     (ucast (drop_bit 16 (cfg (pci_address b d f 0xC))) :: u8) AND NOT (push_bit 7 1) = 1 \<and>
     (ucast (drop_bit 24 (cfg (pci_address b d f 0x8))) :: u8) = 6 \<and>
     (ucast (drop_bit 16 (cfg (pci_address b d f 0x8))) :: u8) = 4"

definition secondary :: "(u32 \<Rightarrow> u32) \<Rightarrow> u8 \<Rightarrow> u8 \<Rightarrow> u8 \<Rightarrow> u8" where
  "secondary cfg b d f = ucast (drop_bit 8 (cfg (pci_address b d f 0x18)))"

definition multi_function :: "(u32 \<Rightarrow> u32) \<Rightarrow> u8 \<Rightarrow> u8 \<Rightarrow> bool" where
  "multi_function cfg b d \<longleftrightarrow>
     (ucast (drop_bit 16 (cfg (pci_address b d 0 0xc))) :: u8) AND push_bit 7 1 \<noteq> 0"

definition entry :: "(u32 \<Rightarrow> u32) \<Rightarrow> u8 \<Rightarrow> u8 \<Rightarrow> u8 \<Rightarrow> pci_t" where
  "entry cfg b d f =
     (let class = cfg (pci_address b d f 0x8); ident = cfg (pci_address b d f 0) in
      \<lparr>classCode = ucast (drop_bit 24 class), subClass = ucast (drop_bit 16 class),
        progIF = ucast (drop_bit 8 class), deviceID = ucast (drop_bit 16 ident),
        vendorID = ucast ident, p_bus = b, p_device = d, p_function = f\<rparr>)"

text \<open>The functions of a device, and all functions that are no bridges, on a bus and behind its
  bridges.\<close>

definition functions_of :: "(u32 \<Rightarrow> u32) \<Rightarrow> u8 \<Rightarrow> u8 \<Rightarrow> u8 list" where
  "functions_of cfg b d =
     (if absent cfg b d 0 then []
      else 0 # (if multi_function cfg b d
                then filter (\<lambda>f. \<not> absent cfg b d f) (map of_nat [1..<8]) else []))"

primrec enumerate_bus :: "nat \<Rightarrow> (u32 \<Rightarrow> u32) \<Rightarrow> u8 \<Rightarrow> pci_t list" where
  "enumerate_bus 0 cfg b = []"
| "enumerate_bus (Suc n) cfg b =
     concat (map (\<lambda>d. concat (map (\<lambda>f. if bridge cfg b d f then enumerate_bus n cfg (secondary cfg b d f)
         else [entry cfg b d f]) (functions_of cfg b d))) (map of_nat [0..<32]))"

text \<open>The devices in the table.\<close>

definition devices :: "'a pci_state_scheme \<Rightarrow> pci_t list" where
  "devices s = take (unat (totalDevices s)) (pciDevices s)"

definition table_fits :: "'a pci_state_scheme \<Rightarrow> bool" where
  "table_fits s \<longleftrightarrow> unat (totalDevices s) \<le> length (pciDevices s) \<and>
     length (pciDevices s) \<le> unat (pciMaxSize s)"

text \<open>The result of a scan that finds the devices \<open>es\<close>: they are added to the table if it has
  room for all of them; otherwise one is written past its end.\<close>

definition scanned ::
  "pci_t list \<Rightarrow> 'a pci_state_scheme \<Rightarrow> 'a pci_state_scheme result \<Rightarrow> bool"
where
  "scanned es s r \<longleftrightarrow>
     (if unat (totalDevices s) + length es \<le> length (pciDevices s)
      then \<exists>l ds. r = Inr (s\<lparr>io_log := l, pciDevices := ds,
               totalDevices := totalDevices s + of_nat (length es)\<rparr>) \<and>
             length ds = length (pciDevices s) \<and>
             take (unat (totalDevices s) + length es) ds = devices s @ es
      else r = Inl OutOfBounds)"

lemma scanned_log:
  assumes "scanned es (s\<lparr>io_log := l\<rparr>) r"
  shows "scanned es s r"
  using assms by (auto simp: scanned_def devices_def split: if_splits)

lemma scanned_nil: "table_fits s \<Longrightarrow> scanned [] s (Inr s)"
  unfolding scanned_def devices_def table_fits_def
  by (auto intro!: exI [of _ "io_log s"] exI [of _ "pciDevices s"])

lemma scanned_bind:
  assumes fits: "table_fits s" and r: "scanned es s r"
    and f: "\<And>s'. table_fits s' \<Longrightarrow> io_device s' = io_device s \<Longrightarrow> scanned es' s' (f s')"
  shows "scanned (es @ es') s (and_then r f)"
proof (cases "unat (totalDevices s) + length es \<le> length (pciDevices s)")
  case True
  then obtain l ds where r: "r = Inr (s\<lparr>io_log := l, pciDevices := ds,
        totalDevices := totalDevices s + of_nat (length es)\<rparr>)"
    and ds: "length ds = length (pciDevices s)"
      "take (unat (totalDevices s) + length es) ds = devices s @ es"
    using r unfolding scanned_def by auto
  let ?s = "s\<lparr>io_log := l, pciDevices := ds, totalDevices := totalDevices s + of_nat (length es)\<rparr>"
  have "unat (totalDevices s) + length es < 2 ^ 64"
    using True fits unat_less_u64 [of "pciMaxSize s"] by (simp add: table_fits_def)
  then have total: "unat (totalDevices s + of_nat (length es)) = unat (totalDevices s) + length es"
    by (simp add: unat_add_u64 unat_of_nat_u64)
  have "table_fits ?s" using True fits ds(1) total by (simp add: table_fits_def)
  then have "scanned es' ?s (f ?s)" by (rule f) simp
  then show ?thesis
    using True ds total unfolding r
    by (auto simp: scanned_def devices_def add.assoc split: if_splits)
next
  case False
  then show ?thesis using r by (simp add: scanned_def)
qed

lemma addPCIDevice_scanned:
  assumes "table_fits s"
  shows "scanned [d] s (addPCIDevice fresh d s)"
proof -
  have "\<not> totalDevices s > pciMaxSize s"
    using assms by (auto simp: table_fits_def word_less_nat_alt)
  then have eq: "addPCIDevice fresh d s = and_then (store (pciDevices s) (totalDevices s) d) (\<lambda>ds.
      Inr (s\<lparr>pciDevices := ds, totalDevices := totalDevices s + 1\<rparr>))"
    by (simp add: addPCIDevice_def)
  show ?thesis
  proof (cases "unat (totalDevices s) < length (pciDevices s)")
    case True
    then show ?thesis
      unfolding eq scanned_def devices_def
      by (auto simp: store_def take_Suc_conv_app_nth intro!: exI [of _ "io_log s"])
  next
    case False
    then show ?thesis unfolding eq scanned_def by (simp add: store_def)
  qed
qed

lemma each_u64_scanned:
  assumes body: "\<And>i s. i < n \<Longrightarrow> table_fits s \<Longrightarrow> io_device s = dev \<Longrightarrow> scanned (g i) s (body i s)"
    and "table_fits s" and "io_device s = dev"
  shows "scanned (concat (map (\<lambda>i. g (of_nat i)) [unat i..<unat n])) s (each_u64 body i n s)"
  using assms(2,3)
proof (induction "unat n - unat i" arbitrary: i s)
  case 0
  then show ?case by (simp add: each_u64_stop word_less_nat_alt scanned_nil)
next
  case (Suc k)
  then have lt: "i < n" by (simp add: word_less_nat_alt)
  then have range: "[unat i..<unat n] = unat i # [unat (i + 1)..<unat n]"
    by (simp add: unat_plus_1 word_less_nat_alt upt_conv_Cons)
  have "scanned (g i @ concat (map (\<lambda>i. g (of_nat i)) [unat (i + 1)..<unat n])) s
      (and_then (body i s) (each_u64 body (i + 1) n))"
  proof (rule scanned_bind [OF Suc.prems(1) body [OF lt Suc.prems]])
    fix s'
    assume "table_fits (s' :: 'a pci_state_scheme)" and "io_device s' = io_device s"
    then show "scanned (concat (map (\<lambda>i. g (of_nat i)) [unat (i + 1)..<unat n])) s'
        (each_u64 body (i + 1) n s')"
      using Suc.hyps(2) Suc.prems(2) lt by (intro Suc.hyps(1)) (simp_all add: unat_plus_1)
  qed
  then show ?case by (simp add: each_u64_step [OF lt] range)
qed

lemma table_fits_log [simp]: "table_fits (s\<lparr>io_log := l\<rparr>) = table_fits s"
  by (simp add: table_fits_def)

lemma scanned_skip: "table_fits s \<Longrightarrow> scanned [] s (Inr (s\<lparr>io_log := l\<rparr>))"
  by (rule scanned_log [where l = l]) (simp add: scanned_nil)

lemma pciRead_config:
  "config_space (io_device s) cfg \<Longrightarrow>
   pciRead b d f r s = (cfg (pci_address b d f r),
     s\<lparr>io_log := io_log s @ [OutD 0xcf8 (pci_address b d f r), InD 0xcfc]\<rparr>)"
  by (simp add: pciRead_def ind_def outd_def io_read_def io_write_def config_space_def)

lemma is_bridge_config:
  "config_space (io_device s) cfg \<Longrightarrow> \<exists>l. is_bridge b d f s = (bridge cfg b d f, s\<lparr>io_log := l\<rparr>)"
  by (auto simp: is_bridge_def bridge_def pciRead_config)

lemma newDevice_config:
  "config_space (io_device s) cfg \<Longrightarrow> \<exists>l. newDevice b d f s = (entry cfg b d f, s\<lparr>io_log := l\<rparr>)"
  unfolding newDevice_def entry_def by (simp add: pciRead_config Let_def) blast

lemma checkDevice_scanned:
  assumes cfg: "config_space (io_device s) cfg" and fits: "table_fits s"
    and scan: "\<And>l. bridge cfg b d f \<Longrightarrow>
      scanned es (s\<lparr>io_log := l\<rparr>) (scan (secondary cfg b d f) (s\<lparr>io_log := l\<rparr>))"
  shows "scanned (if bridge cfg b d f then es else [entry cfg b d f]) s (checkDevice fresh scan b d f s)"
proof -
  obtain l where l: "is_bridge b d f s = (bridge cfg b d f, s\<lparr>io_log := l\<rparr>)"
    using is_bridge_config [OF cfg] by blast
  show ?thesis
  proof (cases "bridge cfg b d f")
    case True
    then show ?thesis
      using l cfg scanned_log [OF scan] by (simp add: checkDevice_def pciRead_config secondary_def)
  next
    case False
    have "config_space (io_device (s\<lparr>io_log := l\<rparr>)) cfg" using cfg by simp
    from newDevice_config [OF this] obtain l' where
      "newDevice b d f (s\<lparr>io_log := l\<rparr>) = (entry cfg b d f, s\<lparr>io_log := l'\<rparr>)" by force
    with False l show ?thesis
      using fits scanned_log [OF addPCIDevice_scanned] by (simp add: checkDevice_def)
  qed
qed

text \<open>No bridge leads to a bus with a smaller number, nor back to its own.\<close>

definition buses_ordered :: "(u32 \<Rightarrow> u32) \<Rightarrow> bool" where
  "buses_ordered cfg \<longleftrightarrow>
     (\<forall>b d f. \<not> absent cfg b d f \<longrightarrow> bridge cfg b d f \<longrightarrow> b < secondary cfg b d f)"

lemma functions_of_split:
  "concat (map g (functions_of cfg b d)) =
     (if absent cfg b d 0 then [] else
      g 0 @ (if multi_function cfg b d
        then concat (map (\<lambda>i. if absent cfg b d (of_nat i) then [] else g (of_nat i)) [1..<8]) else []))"
proof -
  have "concat (map g (filter (\<lambda>f. \<not> absent cfg b d f) fs)) =
      concat (map (\<lambda>f. if absent cfg b d f then [] else g f) fs)" for fs
    by (induction fs) simp_all
  from this [of "map of_nat [1..<8]"] show ?thesis
    by (simp add: functions_of_def o_def)
qed

lemma ucast_of_nat_u8: "ucast (of_nat k :: u64) = (of_nat k :: u8)"
  by (rule bit_word_eqI) (simp add: bit_simps)

lemma pciScanBus_scanned:
  fixes s :: "'a pci_state_scheme"
  assumes ordered: "buses_ordered cfg"
  shows "config_space (io_device s) cfg \<Longrightarrow> table_fits s \<Longrightarrow> 256 - unat bus \<le> fuel \<Longrightarrow>
    scanned (enumerate_bus fuel cfg bus) s (pciScanBus fresh fuel bus s)"
proof (induction fuel arbitrary: bus s)
  case 0
  then show ?case using unsigned_less [of bus, where ?'a = nat] by simp
next
  case (Suc fuel)
  let ?g = "\<lambda>d f. if bridge cfg bus d f then enumerate_bus fuel cfg (secondary cfg bus d f)
    else [entry cfg bus d f]"
  let ?fs = "\<lambda>d. concat (map (\<lambda>i. if absent cfg bus d (of_nat i) then [] else ?g d (of_nat i)) [1..<8])"
  let ?inner = "\<lambda>d. each_u64 (\<lambda>function s.
           let (r, s) = pciRead bus (ucast d) (ucast function) 0 s in
           if (ucast r :: u16) = 0xffff then Inr s
           else checkDevice fresh (pciScanBus fresh fuel) bus (ucast d) (ucast function) s) 1 8"
  have check: "scanned (?g d f) s (checkDevice fresh (pciScanBus fresh fuel) bus d f s)"
    if "config_space (io_device s) cfg" "table_fits s" "\<not> absent cfg bus d f"
    for d f and s :: "'a pci_state_scheme"
  proof (rule checkDevice_scanned [OF that(1,2)])
    fix l
    assume "bridge cfg bus d f"
    then have "bus < secondary cfg bus d f" using ordered that(3) by (simp add: buses_ordered_def)
    then show "scanned (enumerate_bus fuel cfg (secondary cfg bus d f)) (s\<lparr>io_log := l\<rparr>)
        (pciScanBus fresh fuel (secondary cfg bus d f) (s\<lparr>io_log := l\<rparr>))"
      using that Suc.prems(3) by (intro Suc.IH) (simp_all add: word_less_nat_alt)
  qed
  have inner: "scanned (?fs (ucast d)) s (?inner d s)"
    if "config_space (io_device s) cfg" "table_fits s" for d :: u64 and s :: "'a pci_state_scheme"
  proof -
    have "scanned (concat (map (\<lambda>i. (\<lambda>f :: u64. if absent cfg bus (ucast d) (ucast f) then []
        else ?g (ucast d) (ucast f)) (of_nat i)) [unat (1 :: u64)..<unat (8 :: u64)])) s (?inner d s)"
    proof (rule each_u64_scanned [OF _ that(2) refl])
      fix f :: u64 and s' :: "'a pci_state_scheme"
      assume s': "table_fits s'" "io_device s' = io_device s"
      then have cfg: "config_space (io_device s') cfg" using that(1) by simp
      obtain l where l: "pciRead bus (ucast d) (ucast f) 0 s' =
          (cfg (pci_address bus (ucast d) (ucast f) 0), s'\<lparr>io_log := l\<rparr>)"
        using pciRead_config [OF cfg] by blast
      show "scanned (if absent cfg bus (ucast d) (ucast f) then [] else ?g (ucast d) (ucast f)) s'
          (let (r, s) = pciRead bus (ucast d) (ucast f) 0 s' in
           if (ucast r :: u16) = 0xffff then Inr s
           else checkDevice fresh (pciScanBus fresh fuel) bus (ucast d) (ucast f) s)"
      proof (cases "absent cfg bus (ucast d) (ucast f)")
        case True
        then show ?thesis
          using s'(1) by (simp add: l absent_def scanned_skip)
      next
        case False
        then have "scanned (?g (ucast d) (ucast f)) (s'\<lparr>io_log := l\<rparr>)
            (checkDevice fresh (pciScanBus fresh fuel) bus (ucast d) (ucast f) (s'\<lparr>io_log := l\<rparr>))"
          using cfg s'(1) by (intro check) simp_all
        from scanned_log [OF this] False show ?thesis by (simp add: l absent_def)
      qed
    qed
    then show ?thesis by (simp add: ucast_of_nat_u8 cong: if_cong)
  qed
  have "scanned (concat (map (\<lambda>i. (\<lambda>d :: u64. concat (map (?g (ucast d)) (functions_of cfg bus (ucast d))))
      (of_nat i)) [unat (0 :: u64)..<unat (32 :: u64)])) s (pciScanBus fresh (Suc fuel) bus s)"
    unfolding pciScanBus.simps
  proof (rule each_u64_scanned [OF _ Suc.prems(2) refl])
    fix d :: u64 and s' :: "'a pci_state_scheme"
    assume s': "table_fits s'" "io_device s' = io_device s"
    then have cfg: "config_space (io_device s') cfg" using Suc.prems(1) by simp
    let ?d = "ucast d :: u8"
    let ?rest = "\<lambda>s. let (r, s) = pciRead bus ?d 0 0xc s in
         if (ucast (drop_bit 16 r) :: u8) AND push_bit 7 1 = 0 then Inr s else ?inner d s"
    obtain l where l: "pciRead bus ?d 0 0 s' = (cfg (pci_address bus ?d 0 0), s'\<lparr>io_log := l\<rparr>)"
      using pciRead_config [OF cfg] by blast
    have present: "scanned (?g ?d 0 @ (if multi_function cfg bus ?d then ?fs ?d else [])) (s'\<lparr>io_log := l\<rparr>)
        (and_then (checkDevice fresh (pciScanBus fresh fuel) bus ?d 0 (s'\<lparr>io_log := l\<rparr>)) ?rest)"
      if "\<not> absent cfg bus ?d 0"
    proof (rule scanned_bind)
      fix s1
      assume s1: "table_fits (s1 :: 'a pci_state_scheme)" "io_device s1 = io_device (s'\<lparr>io_log := l\<rparr>)"
      then have cfg1: "config_space (io_device s1) cfg" using cfg by simp
      obtain l1 where l1: "pciRead bus ?d 0 0xc s1 = (cfg (pci_address bus ?d 0 0xc), s1\<lparr>io_log := l1\<rparr>)"
        using pciRead_config [OF cfg1] by blast
      have "scanned (?fs ?d) (s1\<lparr>io_log := l1\<rparr>) (?inner d (s1\<lparr>io_log := l1\<rparr>))"
        using cfg1 s1(1) by (intro inner) simp_all
      from scanned_log [OF this] s1(1)
      show "scanned (if multi_function cfg bus ?d then ?fs ?d else []) s1 (?rest s1)"
        by (simp add: l1 multi_function_def scanned_skip)
    qed (use check [of _ ?d 0] cfg s' that in simp_all)
    show "scanned (concat (map (?g ?d) (functions_of cfg bus ?d))) s'
        (let (r, s) = pciRead bus ?d 0 0 s' in
         if (ucast r :: u16) = 0xffff then Inr s
         else and_then (checkDevice fresh (pciScanBus fresh fuel) bus ?d 0 s) ?rest)"
    proof (cases "absent cfg bus ?d 0")
      case True
      then show ?thesis using s'(1) by (simp add: l functions_of_split absent_def scanned_skip)
    next
      case False
      from scanned_log [OF present [OF this]] False show ?thesis
        by (simp add: l functions_of_split absent_def)
    qed
  qed
  then show ?case by (simp add: ucast_of_nat_u8 o_def cong: if_cong)
qed

text \<open>
  C27: on a configuration space whose bridges lead to buses with larger numbers the scan ends
  (256 levels are enough) and adds to the table exactly the functions of the reference
  enumeration, in its order; when the table has no room for all of them the scan writes past
  its end: the table is never enlarged in time.
\<close>

theorem pciScanBus_enumerates:
  assumes "config_space (io_device s) cfg" and "buses_ordered cfg" and "256 - unat bus \<le> fuel"
    and "unat (totalDevices s) \<le> length (pciDevices s)"
    and "length (pciDevices s) \<le> unat (pciMaxSize s)"
  shows "if unat (totalDevices s) + length (enumerate_bus fuel cfg bus) \<le> length (pciDevices s)
    then \<exists>s'. pciScanBus fresh fuel bus s = Inr s' \<and> devices s' = devices s @ enumerate_bus fuel cfg bus
    else pciScanBus fresh fuel bus s = Inl OutOfBounds"
proof -
  let ?es = "enumerate_bus fuel cfg bus"
  have "unat (totalDevices s + of_nat (length ?es)) = unat (totalDevices s) + length ?es"
    if "unat (totalDevices s) + length ?es \<le> length (pciDevices s)"
    using that assms(5) unat_less_u64 [of "pciMaxSize s"] by (simp add: unat_add_u64 unat_of_nat_u64)
  then show ?thesis
    using pciScanBus_scanned [OF assms(2,1) _ assms(3), where fresh = fresh] assms(4,5)
    by (auto simp: scanned_def table_fits_def devices_def split: if_splits)
qed

section \<open>Witnesses\<close>

text \<open>One device, with the identity \<open>8086:100e\<close> and class 2, at every address of device 3.\<close>

definition example_config :: "u32 \<Rightarrow> u32" where
  "example_config a =
     (if a = pci_address 0 3 0 0 then 0x100e8086
      else if a = pci_address 0 3 0 0x8 then 0x02000000
      else if a = pci_address 0 3 0 0xc then 0
      else 0xffffffff)"

definition example_device :: "io_event list \<Rightarrow> u64" where
  "example_device l = (case rev l of InD _ # OutD _ a # _ \<Rightarrow> ucast (example_config a) | _ \<Rightarrow> 0)"

definition zero_pci :: pci_t where
  "zero_pci = \<lparr>classCode = 0, subClass = 0, progIF = 0, deviceID = 0, vendorID = 0, p_bus = 0,
     p_device = 0, p_function = 0\<rparr>"

definition example_pci :: pci_state where
  "example_pci = screen_state.extend example_screen
     \<lparr>io_log = [], io_device = example_device, pciDevices = replicate 10 zero_pci,
      pciDevicesAddr = 0, totalDevices = 0, pciMaxSize = 10\<rparr>"

lemma example_config_space: "config_space example_device example_config"
proof -
  have "(ucast (ucast a :: u64) :: u32) = a" for a
    by (rule bit_word_eqI) (simp add: bit_simps)
  then show ?thesis by (simp add: config_space_def example_device_def)
qed

lemma example_config_ordered: "buses_ordered example_config"
proof -
  have "(ucast (drop_bit 24 (example_config a)) :: u8) \<noteq> 6" for a
    by (simp add: example_config_def)
  then show ?thesis by (simp add: buses_ordered_def bridge_def)
qed

lemma example_enumerate:
  "enumerate_bus 256 example_config 0 =
     [\<lparr>classCode = 2, subClass = 0, progIF = 0, deviceID = 0x100e, vendorID = 0x8086, p_bus = 0,
       p_device = 3, p_function = 0\<rparr>]"
  by code_simp

theorem pciScanBus_enumerates_witness:
  "\<exists>s'. pciScanBus (\<lambda>_. zero_pci) 256 0 example_pci = Inr s' \<and> map vendorID (devices s') = [0x8086]"
  using pciScanBus_enumerates [of example_pci example_config 0 256 "\<lambda>_. zero_pci"] example_config_space
    example_config_ordered
  by (auto simp: example_pci_def screen_state.defs example_enumerate devices_def)

end
