(* ===== verification/Descriptors.thy ===== *)
theory Descriptors
  imports Pci
begin

text \<open>
  The task state segments, \<^verbatim>\<open>kernel/int/tss.c\<close>, and the descriptor tables of the cores,
  \<^verbatim>\<open>kernel/int/gdt.c\<close>. The descriptors are the packed records of the headers; \<open>seg_base\<close>,
  \<open>dpl\<close> and the other readers are what the processor takes from them.
\<close>

record tss_t =
  tss_reserved :: u32
  rsp0 :: u64
  rsp1 :: u64
  rsp2 :: u64
  tss_reserved1 :: u32
  tss_reserved2 :: u32
  ist1 :: u64
  ist2 :: u64
  ist3 :: u64
  ist4 :: u64
  ist5 :: u64
  ist6 :: u64
  ist7 :: u64
  tss_reserved3 :: u64
  tss_reserved4 :: u16
  IOPB :: u16

record gdtEntry_t =
  g_limit :: u16
  g_baseLow :: u16
  g_baseMid :: u8
  g_access :: u8
  g_granularity :: u8
  g_baseHigh :: u8

record gdtTSSentry_t =
  t_length :: u16
  t_baseLow :: u16
  t_baseMid :: u8
  t_flags1 :: u8
  t_flags2 :: u8
  t_baseHigh :: u8
  t_baseHigh32 :: u32
  t_reserved :: u32

record gdtPtr_t =
  ptr_size :: u16
  ptr_addr :: u64

record gdt_t =
  gdtEntries :: "gdtEntry_t list"
  gdt_tss :: gdtTSSentry_t
  gdtPtr :: gdtPtr_t

text \<open>\<open>gdtr s\<close> is the address of the last pointer \<open>lgdt\<close> was called with.\<close>

record desc_state = pci_state +
  tss :: "tss_t list"
  tssAddr :: u64
  tssMax :: u64
  tssCurrent :: u64
  gdt :: "gdt_t list"
  gdtAddr :: u64
  gdtr :: u64

section \<open>Task state segments\<close>

definition zero_tss :: tss_t where
  "zero_tss = \<lparr>tss_reserved = 0, rsp0 = 0, rsp1 = 0, rsp2 = 0, tss_reserved1 = 0, tss_reserved2 = 0,
     ist1 = 0, ist2 = 0, ist3 = 0, ist4 = 0, ist5 = 0, ist6 = 0, ist7 = 0, tss_reserved3 = 0,
     tss_reserved4 = 0, IOPB = 0\<rparr>"

text \<open>\<open>sizeof(tss_t)\<close> is 104.\<close>

definition initTSS :: "(nat \<Rightarrow> tss_t) \<Rightarrow> 'a desc_state_scheme \<Rightarrow> 'a desc_state_scheme result" where
  "initTSS fresh s =
     and_then (kmalloc (104 * 8) s) (\<lambda>(a, s). Inr (s\<lparr>tssAddr := a, tss := fresh_object 8 fresh\<rparr>))"

definition grabTSS :: "u64 \<Rightarrow> 'a desc_state_scheme \<Rightarrow> u64" where
  "grabTSS index s = tssAddr s + 104 * index"

definition addNewTSS ::
  "(nat \<Rightarrow> tss_t) \<Rightarrow> tss_t \<Rightarrow> 'a desc_state_scheme \<Rightarrow> 'a desc_state_scheme result"
where
  "addNewTSS fresh newTSS s =
     (let s = s\<lparr>tssCurrent := tssCurrent s + 1\<rparr> in
      and_then
        (if tssCurrent s > tssMax s then
           and_then (krealloc (tssAddr s) (104 * 8) s) (\<lambda>(a, s).
             Inr (s\<lparr>tssAddr := a, tss := resized_object 104 (104 * 8) fresh (tss s),
                    tssMax := tssMax s + 8\<rparr>))
         else Inr s) (\<lambda>s.
      and_then (store (tss s) (tssCurrent s - 1) newTSS) (\<lambda>ts. Inr (s\<lparr>tss := ts\<rparr>))))"

definition createGenericTSS ::
  "(nat \<Rightarrow> tss_t) \<Rightarrow> u64 \<Rightarrow> 'a desc_state_scheme \<Rightarrow> 'a desc_state_scheme result"
where
  "createGenericTSS fresh stack s = addNewTSS fresh (zero_tss\<lparr>rsp0 := stack\<rparr>) s"

section \<open>Descriptor tables\<close>

definition zero_gdt :: gdt_t where
  "zero_gdt = \<lparr>gdtEntries = replicate 5 \<lparr>g_limit = 0, g_baseLow = 0, g_baseMid = 0, g_access = 0,
       g_granularity = 0, g_baseHigh = 0\<rparr>,
     gdt_tss = \<lparr>t_length = 0, t_baseLow = 0, t_baseMid = 0, t_flags1 = 0, t_flags2 = 0,
       t_baseHigh = 0, t_baseHigh32 = 0, t_reserved = 0\<rparr>,
     gdtPtr = \<lparr>ptr_size = 0, ptr_addr = 0\<rparr>\<rparr>"

text \<open>\<open>sizeof(gdt_t)\<close> is 66, \<open>sizeof(gdtPtr_t)\<close> is 10 and the pointer is the last member.\<close>

definition initGDT :: "(nat \<Rightarrow> tss_t) \<Rightarrow> 'a desc_state_scheme \<Rightarrow> 'a desc_state_scheme result" where
  "initGDT fresh s =
     and_then (kmalloc (66 * 8) s) (\<lambda>(a, s).
       initTSS fresh (s\<lparr>gdtAddr := a, gdt := replicate 8 zero_gdt\<rparr>))"

definition segment :: "u8 \<Rightarrow> u8 \<Rightarrow> gdtEntry_t" where
  "segment access granularity = \<lparr>g_limit = 0, g_baseLow = 0, g_baseMid = 0, g_access = access,
     g_granularity = granularity, g_baseHigh = 0\<rparr>"

definition tss_descriptor :: "u64 \<Rightarrow> gdtTSSentry_t \<Rightarrow> gdtTSSentry_t" where
  "tss_descriptor addr d = d\<lparr>t_length := 104, t_baseLow := ucast addr,
     t_baseMid := ucast (drop_bit 16 addr), t_flags1 := 0b10001001, t_flags2 := 0,
     t_baseHigh := ucast (drop_bit 24 addr), t_baseHigh32 := ucast (drop_bit 32 addr)\<rparr>"

definition core_gdt :: "u64 \<Rightarrow> u64 \<Rightarrow> gdt_t \<Rightarrow> gdt_t" where
  "core_gdt base addr g =
     \<lparr>gdtEntries = (gdtEntries g)[1 := segment 0b10011010 0b00100000,
        2 := segment 0b10010010 0, 3 := segment 0b11111101 0b10101111,
        4 := segment 0b11110011 0b11001111],
      gdt_tss = tss_descriptor addr (gdt_tss g),
      gdtPtr = \<lparr>ptr_size = 66 - 10 - 1, ptr_addr = base\<rparr>\<rparr>"

definition createNewGDT :: "u64 \<Rightarrow> u64 \<Rightarrow> 'a desc_state_scheme \<Rightarrow> 'a desc_state_scheme result" where
  "createNewGDT core addr s =
     and_then (fetch (gdt s) core) (\<lambda>g.
     let base = gdtAddr s + 66 * core in
     and_then (store (gdt s) core (core_gdt base addr g)) (\<lambda>gs.
       Inr (s\<lparr>gdt := gs, gdtr := base + 56\<rparr>)))"

section \<open>What the processor reads\<close>

definition seg_present :: "gdtEntry_t \<Rightarrow> bool" where "seg_present e \<longleftrightarrow> bit (g_access e) 7"
definition seg_code :: "gdtEntry_t \<Rightarrow> bool" where
  "seg_code e \<longleftrightarrow> bit (g_access e) 4 \<and> bit (g_access e) 3"
definition seg_writable :: "gdtEntry_t \<Rightarrow> bool" where
  "seg_writable e \<longleftrightarrow> bit (g_access e) 4 \<and> \<not> bit (g_access e) 3 \<and> bit (g_access e) 1"
definition seg_long :: "gdtEntry_t \<Rightarrow> bool" where "seg_long e \<longleftrightarrow> bit (g_granularity e) 5"
definition seg_dpl :: "gdtEntry_t \<Rightarrow> nat" where "seg_dpl e = unat (drop_bit 5 (g_access e) AND 3)"

definition tss_base :: "gdtTSSentry_t \<Rightarrow> u64" where
  "tss_base d = ucast (t_baseLow d) OR push_bit 16 (ucast (t_baseMid d)) OR
     push_bit 24 (ucast (t_baseHigh d)) OR push_bit 32 (ucast (t_baseHigh32 d))"

lemma tss_base_descriptor: "tss_base (tss_descriptor addr d) = addr"
proof (rule bit_word_eqI)
  fix n
  assume "n < LENGTH(64)"
  then consider "n < 16" | "16 \<le> n" "n < 24" | "24 \<le> n" "n < 32" | "32 \<le> n" "n < 64" by fastforce
  then show "bit (tss_base (tss_descriptor addr d)) n \<longleftrightarrow> bit addr n"
    by cases (auto simp: tss_base_def tss_descriptor_def bit_simps dest: bit_imp_le_length)
qed

text \<open>The descriptor table of a core: kernel code and data for privilege level 0, user code and
  data for level 3, both code segments 64 bit, an available TSS at \<open>addr\<close>.\<close>

definition describes :: "gdt_t \<Rightarrow> u64 \<Rightarrow> bool" where
  "describes g addr \<longleftrightarrow>
     (let kcode = gdtEntries g ! 1; kdata = gdtEntries g ! 2;
          ucode = gdtEntries g ! 3; udata = gdtEntries g ! 4 in
      seg_present kcode \<and> seg_code kcode \<and> seg_long kcode \<and> seg_dpl kcode = 0 \<and>
      seg_present kdata \<and> seg_writable kdata \<and> seg_dpl kdata = 0 \<and>
      seg_present ucode \<and> seg_code ucode \<and> seg_long ucode \<and> seg_dpl ucode = 3 \<and>
      seg_present udata \<and> seg_writable udata \<and> seg_dpl udata = 3 \<and>
      tss_base (gdt_tss g) = addr \<and> t_flags1 (gdt_tss g) = 0x89)"

lemma core_gdt_describes:
  assumes "length (gdtEntries g) = 5"
  shows "describes (core_gdt base addr g) addr"
proof -
  have "bit (154 :: u8) 7" "bit (154 :: u8) 4" "bit (154 :: u8) 3" "bit (32 :: u8) 5"
    "bit (146 :: u8) 7" "bit (146 :: u8) 4" "\<not> bit (146 :: u8) 3" "bit (146 :: u8) 1"
    "bit (253 :: u8) 7" "bit (253 :: u8) 4" "bit (253 :: u8) 3" "bit (175 :: u8) 5"
    "bit (243 :: u8) 7" "bit (243 :: u8) 4" "\<not> bit (243 :: u8) 3" "bit (243 :: u8) 1"
    by code_simp+
  then show ?thesis
    using assms
    by (simp add: describes_def core_gdt_def segment_def seg_present_def seg_code_def
        seg_writable_def seg_long_def seg_dpl_def tss_base_descriptor)
      (simp add: tss_descriptor_def)
qed

text \<open>
  C34: \<open>createNewGDT\<close> for one of the eight tables writes the segments the selectors 8, 16, 24
  and 32 stand for and a TSS descriptor from whose four fields the base address can be read
  back, loads the pointer to that table, and leaves the tables of the other cores alone.
\<close>

theorem createNewGDT_describes:
  assumes "unat core < length (gdt s)" and "length (gdtEntries (gdt s ! unat core)) = 5"
  shows "\<exists>s' g. createNewGDT core addr s = Inr s' \<and> gdt s' = (gdt s)[unat core := g] \<and>
    describes g addr \<and> gdtEntries g ! 0 = gdtEntries (gdt s ! unat core) ! 0 \<and>
    gdtr s' = gdtAddr s + 66 * core + 56 \<and>
    gdtPtr g = \<lparr>ptr_size = 8 * 5 + 16 - 1, ptr_addr = gdtAddr s + 66 * core\<rparr>"
proof -
  define g where "g = core_gdt (gdtAddr s + 66 * core) addr (gdt s ! unat core)"
  have "createNewGDT core addr s =
      Inr (s\<lparr>gdt := (gdt s)[unat core := g], gdtr := gdtAddr s + 66 * core + 56\<rparr>)"
    using assms(1) by (simp add: createNewGDT_def fetch_def store_def g_def Let_def)
  moreover have "describes g addr" unfolding g_def using assms(2) by (rule core_gdt_describes)
  ultimately show ?thesis by (auto simp: g_def core_gdt_def)
qed

lemma heap_more_desc:
  "heap_state.more s' = heap_state.more s \<Longrightarrow> tss s' = tss s \<and> tssCurrent s' = tssCurrent s \<and>
     tssMax s' = tssMax s \<and> gdt s' = gdt s"
  by (cases s; cases s') simp

text \<open>
  A TSS goes into the next entry of the table, with the stack of privilege level 0 and all
  else zero, as long as one of the eight entries is free; a ninth is never stored: the call to
  \<open>krealloc\<close> asks for eight entries again, and the write is past the end of the table.
\<close>

theorem createGenericTSS_cases:
  assumes "length (tss s) = 8" and "tssMax s = 8" and "tssCurrent s \<le> 8"
  shows "if tssCurrent s < 8
    then \<exists>s'. createGenericTSS fresh stack s = Inr s' \<and> tssCurrent s' = tssCurrent s + 1 \<and>
      tss s' = (tss s)[unat (tssCurrent s) := zero_tss\<lparr>rsp0 := stack\<rparr>]
    else \<forall>s'. createGenericTSS fresh stack s \<noteq> Inr s'"
proof (cases "tssCurrent s < 8")
  case True
  then have "\<not> tssCurrent s + 1 > 8" using plus_1_le [OF True] by simp
  then show ?thesis
    using True assms
    by (simp add: createGenericTSS_def addNewTSS_def store_def word_less_nat_alt)
next
  case False
  then have cur: "tssCurrent s = 8" using assms(3) by simp
  show ?thesis
    using assms
    by (auto simp: createGenericTSS_def addNewTSS_def store_def cur and_then_eq_Inr_iff
        length_resized_object dest!: krealloc_more heap_more_desc)
qed

section \<open>Witnesses\<close>

definition example_desc :: desc_state where
  "example_desc = pci_state.extend example_pci
     \<lparr>tss = replicate 8 zero_tss, tssAddr = 0x2000, tssMax = 8, tssCurrent = 0,
      gdt = replicate 8 zero_gdt, gdtAddr = 0x1000, gdtr = 0\<rparr>"

theorem createNewGDT_describes_witness:
  "\<exists>s'. createNewGDT 2 (grabTSS 3 example_desc) example_desc = Inr s' \<and>
     describes (gdt s' ! 2) (0x2000 + 312) \<and> gdtr s' = 0x1000 + 132 + 56"
  using createNewGDT_describes [of 2 example_desc "grabTSS 3 example_desc"]
  by (auto simp: example_desc_def pci_state.defs zero_gdt_def grabTSS_def)

theorem createGenericTSS_cases_witness:
  "(\<exists>s'. createGenericTSS (\<lambda>_. zero_tss) 0x4000 example_desc = Inr s' \<and> rsp0 (tss s' ! 0) = 0x4000) \<and>
   (\<forall>s'. createGenericTSS (\<lambda>_. zero_tss) 0x4000 (example_desc\<lparr>tssCurrent := 8\<rparr>) \<noteq> Inr s')"
  using createGenericTSS_cases [of example_desc "\<lambda>_. zero_tss" "0x4000"]
    createGenericTSS_cases [of "example_desc\<lparr>tssCurrent := 8\<rparr>" "\<lambda>_. zero_tss" "0x4000"]
  by (auto simp: example_desc_def pci_state.defs)

end
