(* ===== verification/Scheduler.thy ===== *)
theory Scheduler
  imports Descriptors
begin

text \<open>
  The scheduler, \<^verbatim>\<open>kernel/sched/scheduler.c\<close>: \<open>schedulerMain\<close>, run on the timer interrupt of
  every core, the creation of tasks and threads. The task switch ends in \<open>startTask\<close> or
  \<open>switchTask\<close> of \<^verbatim>\<open>scheduler.asm\<close>, which do not return: they are outcomes of the function.
  \<open>sched_ok\<close> is the invariant (the running tasks are the current tasks of the cores),
  \<open>tick\<close> the reference of the choice of the next task, and \<open>waiting_bounded\<close> the liveness
  property that the aging by \<open>idleTime\<close> is for.
\<close>

text \<open>The registers an interrupt pushes, in the order of \<open>asmUtils.h\<close>.\<close>

record regs_t =
  r15 :: u64
  r14 :: u64
  r13 :: u64
  r12 :: u64
  r11 :: u64
  r10 :: u64
  r9 :: u64
  r8 :: u64
  rsi :: u64
  rdi :: u64
  rbp :: u64
  rdx :: u64
  rcx :: u64
  rbx :: u64
  rax :: u64
  r_core :: u64
  isrNumber :: u64
  errorCode :: u64
  rip :: u64
  r_cs :: u64
  rflags :: u64
  rsp :: u64
  r_ss :: u64

text \<open>The states are the values of an anonymous enumeration, stored in a \<open>uint8_t\<close>.\<close>

definition WAITING_TO_START :: u8 where "WAITING_TO_START = 1"
definition RUNNING :: u8 where "RUNNING = 2"
definition WAITING :: u8 where "WAITING = 3"

lemmas status_defs = WAITING_TO_START_def RUNNING_def WAITING_def

record thread_t =
  th_status :: u8
  th_regs :: regs_t
  th_kernelStack :: u64
  th_entryPoint :: u64
  th_idleTime :: u64

text \<open>\<open>threads\<close> is the object behind the pointer, \<open>threadsAddr\<close> the pointer.\<close>

record task_t =
  status :: u8
  pml4Index :: u64
  t_regs :: regs_t
  threads :: "thread_t list"
  threadsAddr :: u64
  kernelStack :: u64
  entryPoint :: u64
  idleTime :: u64
  numberOfThreads :: u64
  maxNumberOfThreads :: u64

record cpuInfo_t =
  coreID :: u64
  c_numberOfTasks :: u64
  currentTask :: u64

record sched_state = desc_state +
  cpuInfo :: "cpuInfo_t list"
  cpuInfoAddr :: u64
  tasks :: "task_t list"
  tasksAddr :: u64
  numberOfTasks :: u64
  maxNumberOfTasks :: u64
  schedulerLock :: bool

section \<open>schedulerMain\<close>

datatype resumption =
    Return
  | StartTask (start_ss: u64) (start_rsp: u64) (start_cs: u64) (start_entry: u64)
  | SwitchTask (switch_regs: regs_t) (switch_ss: u64)

text \<open>One round of the loop that looks for the next task.\<close>

definition inspect_task ::
  "u64 \<Rightarrow> task_t list \<times> u64 \<times> u64 \<Rightarrow> (task_t list \<times> u64 \<times> u64, task_t list \<times> u64) flow result"
where
  "inspect_task i = (\<lambda>(ts, cnt, nextTask).
     and_then (fetch ts i) (\<lambda>t.
     if status t = WAITING then
       let t' = t\<lparr>idleTime := idleTime t + 1\<rparr> in
       and_then (store ts i t') (\<lambda>ts.
         if cnt < idleTime t' then Inr (Next (ts, idleTime t', i))
         else Inr (Next (ts, cnt, nextTask)))
     else if status t = WAITING_TO_START then Inr (Exit (ts, i))
     else Inr (Next (ts, cnt, nextTask))))"

definition choose_task :: "u64 \<Rightarrow> task_t list \<Rightarrow> (task_t list \<times> u64) result" where
  "choose_task n ts =
     and_then (for_u64 inspect_task 0 n (ts, 0, - 1))
       (\<lambda>f. case f of Next (ts, _, nextTask) \<Rightarrow> Inr (ts, nextTask) | Exit (ts, nextTask) \<Rightarrow> Inr (ts, nextTask))"

text \<open>\<open>tss = grabTSS(core); tss[core].rsp0 = stack; tss->rsp0 = stack;\<close>: the pointer is already
  \<open>core\<close> entries into the table.\<close>

definition set_rsp0 :: "u64 \<Rightarrow> u64 \<Rightarrow> 'a sched_state_scheme \<Rightarrow> 'a sched_state_scheme result" where
  "set_rsp0 i stack s =
     and_then (fetch (tss s) i) (\<lambda>t.
     and_then (store (tss s) i (t\<lparr>rsp0 := stack\<rparr>)) (\<lambda>ts. Inr (s\<lparr>tss := ts\<rparr>)))"

definition setKernelStack :: "u64 \<Rightarrow> u64 \<Rightarrow> 'a sched_state_scheme \<Rightarrow> 'a sched_state_scheme result" where
  "setKernelStack currentCoreNumber newKernelStack s =
     and_then (set_rsp0 (currentCoreNumber + currentCoreNumber) newKernelStack s)
       (set_rsp0 currentCoreNumber newKernelStack)"

definition update_task ::
  "u64 \<Rightarrow> (task_t \<Rightarrow> task_t) \<Rightarrow> 'a sched_state_scheme \<Rightarrow> 'a sched_state_scheme result"
where
  "update_task i f s =
     and_then (fetch (tasks s) i) (\<lambda>t.
     and_then (store (tasks s) i (f t)) (\<lambda>ts. Inr (s\<lparr>tasks := ts\<rparr>)))"

definition set_currentTask :: "u64 \<Rightarrow> u64 \<Rightarrow> 'a sched_state_scheme \<Rightarrow> 'a sched_state_scheme result" where
  "set_currentTask core i s =
     and_then (fetch (cpuInfo s) core) (\<lambda>c.
     and_then (store (cpuInfo s) core (c\<lparr>currentTask := i\<rparr>)) (\<lambda>cs. Inr (s\<lparr>cpuInfo := cs\<rparr>)))"

text \<open>From the choice of the next task on: save the last task, load the next one.\<close>

definition release :: "'a sched_state_scheme \<Rightarrow> 'a sched_state_scheme" where
  "release s = s\<lparr>schedulerLock := spinRelease (schedulerLock s)\<rparr>"

definition switch_to ::
  "regs_t \<Rightarrow> u64 \<Rightarrow> u64 \<Rightarrow> 'a sched_state_scheme \<Rightarrow> (resumption \<times> 'a sched_state_scheme) result"
where
  "switch_to regs lastTask nextTask s =
     and_then
       (if lastTask \<noteq> - 1 then update_task lastTask (\<lambda>t. t\<lparr>t_regs := regs, status := WAITING\<rparr>) s
        else Inr s) (\<lambda>s.
     and_then (set_currentTask (r_core regs) nextTask s) (\<lambda>s.
     and_then (update_task nextTask (\<lambda>t. t\<lparr>idleTime := 0\<rparr>) s) (\<lambda>s.
     and_then (fetch (tasks s) nextTask) (\<lambda>t.
     and_then (initAddressSpace (pml4Index t) s) (\<lambda>s.
     and_then (setKernelStack (r_core regs) (kernelStack t) s) (\<lambda>s.
       if status t = WAITING_TO_START then
         and_then (update_task nextTask (\<lambda>t. t\<lparr>status := RUNNING\<rparr>) s) (\<lambda>s.
           Inr (StartTask (r_ss (t_regs t)) (rsp (t_regs t)) (r_cs (t_regs t)) (entryPoint t), release s))
       else if status t = WAITING then
         and_then (update_task nextTask (\<lambda>t. t\<lparr>status := RUNNING\<rparr>) s) (\<lambda>s.
           Inr (SwitchTask (t_regs t) (r_ss (t_regs t)), release s))
       else Inr (Return, release s)))))))"

definition schedulerMain ::
  "regs_t \<Rightarrow> 'a sched_state_scheme \<Rightarrow> (resumption \<times> 'a sched_state_scheme) result"
where
  "schedulerMain regs s =
     and_then (spinLock (schedulerLock s)) (\<lambda>l.
     let s = s\<lparr>schedulerLock := l\<rparr> in
     if numberOfTasks s = 0 then Inr (Return, release s)
     else
       and_then (fetch (cpuInfo s) (r_core regs)) (\<lambda>c.
       and_then (choose_task (numberOfTasks s) (tasks s)) (\<lambda>(ts, nextTask).
       let s = s\<lparr>tasks := ts\<rparr> in
       if nextTask = - 1 then Inr (Return, release s)
       else switch_to regs (currentTask c) nextTask s)))"

section \<open>Tasks and threads\<close>

definition schedulerInit :: "(nat \<Rightarrow> task_t) \<Rightarrow> 'a sched_state_scheme \<Rightarrow> 'a sched_state_scheme result" where
  "schedulerInit fresh s =
     and_then (kmalloc (248 * 10) s) (\<lambda>(a, s). Inr (s\<lparr>tasksAddr := a, tasks := fresh_object 10 fresh\<rparr>))"

definition findFreeIndex :: "'a sched_state_scheme \<Rightarrow> u64 result" where
  "findFreeIndex s =
     and_then (search (\<lambda>t. kernelStack t = 0) (tasks s) (maxNumberOfTasks s))
       (\<lambda>f. case f of Exit i \<Rightarrow> Inr i | Next _ \<Rightarrow> Inr (- 1))"

text \<open>\<open>regs\<close> is a local variable that only has \<open>rsp\<close>, \<open>ss\<close> and \<open>cs\<close> written: \<open>junk\<close> is what the
  stack holds there; \<open>fresh\<close> and \<open>freshThreads\<close> are the contents of fresh heap memory.\<close>

definition createNewTask ::
  "(nat \<Rightarrow> task_t) \<Rightarrow> (nat \<Rightarrow> thread_t) \<Rightarrow> regs_t \<Rightarrow> u16 \<Rightarrow> u64 \<Rightarrow> u16 \<Rightarrow> u64 \<Rightarrow> u64 \<Rightarrow>
   'a sched_state_scheme \<Rightarrow> 'a sched_state_scheme result"
where
  "createNewTask fresh freshThreads junk ss stack cs entryAddr pageCnt s =
     and_then (findFreeIndex s) (\<lambda>index.
     and_then
       (if index = - 1 then
          and_then (krealloc (tasksAddr s) (248 * 10) s) (\<lambda>(a, s).
            Inr (s\<lparr>tasksAddr := a, tasks := resized_object 248 (248 * 10) fresh (tasks s),
                   maxNumberOfTasks := maxNumberOfTasks s + 10\<rparr>))
        else Inr s) (\<lambda>s.
     let regs = junk\<lparr>rsp := stack, r_ss := ucast ss, r_cs := ucast cs\<rparr> in
     and_then (createNewAddressSpace pageCnt (push_bit 2 1 OR 0x3) s) (\<lambda>(space, s).
     and_then (kmalloc (216 * 10) s) (\<lambda>(thr, s).
     and_then (physicalPageAlloc 2 s) (\<lambda>(p, s).
     let newTask = \<lparr>status = WAITING_TO_START, pml4Index = space, t_regs = regs,
           threads = fresh_object 10 freshThreads, threadsAddr = thr,
           kernelStack = p + 0x2000 + HIGH_VMA, entryPoint = entryAddr, idleTime = 0,
           numberOfThreads = 0, maxNumberOfThreads = 10\<rparr> in
     and_then (store (tasks s) index newTask) (\<lambda>ts.
       Inr (s\<lparr>tasks := ts, numberOfTasks := numberOfTasks s + 1\<rparr>)))))))"

definition createThread ::
  "(nat \<Rightarrow> thread_t) \<Rightarrow> regs_t \<Rightarrow> u64 \<Rightarrow> u64 \<Rightarrow> 'a sched_state_scheme \<Rightarrow> 'a sched_state_scheme result"
where
  "createThread fresh junk taskIndex entryAddr s =
     (if taskIndex \<ge> numberOfTasks s then
        kprintDS (cstr ''[KDEBUG]'') (cstr ''bruh pass a vaild index would you'') [] s
      else
        and_then (update_task taskIndex (\<lambda>t. t\<lparr>numberOfThreads := numberOfThreads t + 1\<rparr>) s) (\<lambda>s.
        and_then (fetch (tasks s) taskIndex) (\<lambda>t.
        and_then
          (if numberOfThreads t mod 10 = 0 then
             and_then (krealloc (threadsAddr t) (numberOfThreads t + 10) s) (\<lambda>(a, s).
               update_task taskIndex (\<lambda>t. t\<lparr>threadsAddr := a,
                 threads := resized_object 216 (numberOfThreads t + 10) fresh (threads t)\<rparr>) s)
           else Inr s) (\<lambda>s.
        and_then (fetch (tasks s) taskIndex) (\<lambda>t.
        and_then (search (\<lambda>th. th_entryPoint th \<noteq> 0) (threads t) (maxNumberOfThreads t)) (\<lambda>f.
        let threadIndex = (case f of Exit i \<Rightarrow> i | Next _ \<Rightarrow> 0) in
        and_then (physicalPageAlloc 2 s) (\<lambda>(p, s).
        let regs = junk\<lparr>rsp := p + 0x2000, r_ss := r_ss (t_regs t), r_cs := r_cs (t_regs t)\<rparr> in
        and_then (physicalPageAlloc 2 s) (\<lambda>(k, s).
        and_then (store (threads t) threadIndex \<lparr>th_status = WAITING_TO_START, th_regs = regs,
            th_kernelStack = k + 0x2000 + HIGH_VMA, th_entryPoint = entryAddr, th_idleTime = 0\<rparr>) (\<lambda>ths.
          update_task taskIndex (\<lambda>t. t\<lparr>threads := ths\<rparr>) s)))))))))"

section \<open>The choice of the next task\<close>

text \<open>A round of the scheduler ages the waiting tasks it looks at.\<close>

definition age :: "task_t \<Rightarrow> task_t" where
  "age t = (if status t = WAITING then t\<lparr>idleTime := idleTime t + 1\<rparr> else t)"

definition aged :: "nat \<Rightarrow> task_t list \<Rightarrow> task_t list" where
  "aged k ts = map age (take k ts) @ drop k ts"

definition waits :: "task_t list \<Rightarrow> nat \<Rightarrow> bool" where
  "waits ts j \<longleftrightarrow> status (ts ! j) = WAITING"

definition starts :: "task_t list \<Rightarrow> nat \<Rightarrow> bool" where
  "starts ts j \<longleftrightarrow> status (ts ! j) = WAITING_TO_START"

text \<open>\<open>j\<close> comes before \<open>k\<close>: it has waited longer, or as long and has the smaller index.\<close>

definition before :: "task_t list \<Rightarrow> nat \<Rightarrow> nat \<Rightarrow> bool" where
  "before ts j k \<longleftrightarrow> idleTime (ts ! k) < idleTime (ts ! j) \<or> idleTime (ts ! j) = idleTime (ts ! k) \<and> j < k"

text \<open>The reference: the first task that has not started yet, or else the waiting task that no
  other waiting task comes before, or none.\<close>

definition first_waiting :: "nat \<Rightarrow> task_t list \<Rightarrow> nat option \<Rightarrow> bool" where
  "first_waiting n ts r \<longleftrightarrow>
     (case r of
        None \<Rightarrow> \<forall>j < n. \<not> waits ts j
      | Some k \<Rightarrow> k < n \<and> waits ts k \<and> (\<forall>j < n. waits ts j \<longrightarrow> j \<noteq> k \<longrightarrow> before ts k j))"

definition tick :: "nat \<Rightarrow> task_t list \<Rightarrow> task_t list \<Rightarrow> nat option \<Rightarrow> bool" where
  "tick n ts ts' r \<longleftrightarrow>
     (if \<exists>k < n. starts ts k
      then \<exists>k < n. starts ts k \<and> (\<forall>j < k. \<not> starts ts j) \<and> r = Some k \<and> ts' = aged k ts
      else first_waiting n ts r \<and> ts' = aged n ts)"

definition index_of :: "nat option \<Rightarrow> u64" where
  "index_of r = (case r of None \<Rightarrow> - 1 | Some k \<Rightarrow> of_nat k)"

lemma length_aged [simp]: "length (aged k ts) = length ts"
  by (simp add: aged_def)

lemma aged_nth: "j < length ts \<Longrightarrow> aged k ts ! j = (if j < k then age (ts ! j) else ts ! j)"
  by (auto simp: aged_def nth_append)

lemma aged_0 [simp]: "aged 0 ts = ts"
  by (simp add: aged_def)

lemma aged_Suc: "k < length ts \<Longrightarrow> aged (Suc k) ts = (aged k ts)[k := age (ts ! k)]"
  by (rule nth_equalityI) (auto simp: aged_nth nth_list_update less_Suc_eq)

lemma age_simps [simp]: "status (age t) = status t" "t_regs (age t) = t_regs t"
  "kernelStack (age t) = kernelStack t" "pml4Index (age t) = pml4Index t" "entryPoint (age t) = entryPoint t"
  by (simp_all add: age_def)

lemma status_distinct [simp]:
  "WAITING \<noteq> WAITING_TO_START" "WAITING_TO_START \<noteq> WAITING" "RUNNING \<noteq> WAITING" "WAITING \<noteq> RUNNING"
  "RUNNING \<noteq> WAITING_TO_START" "WAITING_TO_START \<noteq> RUNNING"
  by (simp_all add: status_defs)

lemma unat_plus_1_max: "x \<noteq> - 1 \<Longrightarrow> unat (x + 1) = unat x + 1" for x :: u64
proof -
  assume "x \<noteq> - 1"
  then have "x < - 1" by (simp add: order_less_le)
  then show ?thesis using unat_plus_1 by simp
qed

lemma plus_1_less: "x \<noteq> - 1 \<Longrightarrow> y \<noteq> - 1 \<Longrightarrow> (x + 1 < y + 1 \<longleftrightarrow> x < y)" for x y :: u64
  by (simp add: word_less_nat_alt unat_plus_1_max)

lemma plus_1_pos: "x \<noteq> - 1 \<Longrightarrow> 0 < x + 1" for x :: u64
  by (simp add: word_less_nat_alt unat_plus_1_max)

text \<open>One more task seen.\<close>

definition longest :: "task_t list \<Rightarrow> nat option \<Rightarrow> u64" where
  "longest ts r = (case r of None \<Rightarrow> 0 | Some k \<Rightarrow> idleTime (ts ! k) + 1)"

lemma first_waiting_Suc:
  assumes "first_waiting k ts r" and "\<forall>j \<le> k. idleTime (ts ! j) \<noteq> - 1"
  shows "\<not> waits ts k \<Longrightarrow> first_waiting (Suc k) ts r"
    "waits ts k \<Longrightarrow> first_waiting (Suc k) ts (if longest ts r < idleTime (ts ! k) + 1 then Some k else r)"
proof -
  have idle: "idleTime (ts ! j) \<noteq> - 1" if "j \<le> k" for j using assms(2) that by blast
  show "first_waiting (Suc k) ts r" if "\<not> waits ts k"
    using assms(1) that by (auto simp: first_waiting_def less_Suc_eq split: option.splits)
  show "first_waiting (Suc k) ts (if longest ts r < idleTime (ts ! k) + 1 then Some k else r)"
    if k: "waits ts k"
  proof (cases r)
    case None
    then show ?thesis
      using assms(1) k plus_1_pos [OF idle [of k]]
      by (auto simp: first_waiting_def longest_def less_Suc_eq)
  next
    case (Some m)
    then have m: "m < k" "waits ts m" "\<And>j. j < k \<Longrightarrow> waits ts j \<Longrightarrow> j \<noteq> m \<Longrightarrow> before ts m j"
      using assms(1) by (auto simp: first_waiting_def)
    have less: "longest ts r < idleTime (ts ! k) + 1 \<longleftrightarrow> idleTime (ts ! m) < idleTime (ts ! k)"
      using idle [of m] idle [of k] m(1) by (simp add: longest_def Some plus_1_less)
    show ?thesis
    proof (cases "idleTime (ts ! m) < idleTime (ts ! k)")
      case True
      have "before ts k j" if "j < Suc k" "waits ts j" "j \<noteq> k" for j
      proof -
        have "idleTime (ts ! j) \<le> idleTime (ts ! m)"
          using m(3) [of j] that by (cases "j = m") (auto simp: before_def)
        from le_less_trans [OF this True] show ?thesis by (simp add: before_def)
      qed
      then show ?thesis unfolding less using True k by (simp add: first_waiting_def)
    next
      case False
      then show ?thesis
        unfolding less using Some m k by (auto simp: first_waiting_def before_def less_Suc_eq)
    qed
  qed
qed

lemma aged_at: "k < length ts \<Longrightarrow> aged k ts ! k = ts ! k"
  by (simp add: aged_nth)

lemma inspect_task_eq:
  assumes "unat i < length ts"
  shows "inspect_task i (aged (unat i) ts, cnt, nx) =
    (if waits ts (unat i) then
       (let c = idleTime (ts ! unat i) + 1 in
        Inr (Next (aged (Suc (unat i)) ts, if cnt < c then (c, i) else (cnt, nx))))
     else if starts ts (unat i) then Inr (Exit (aged (unat i) ts, i))
     else Inr (Next (aged (Suc (unat i)) ts, cnt, nx)))"
proof -
  have same: "aged (Suc (unat i)) ts = aged (unat i) ts" if "\<not> waits ts (unat i)"
  proof -
    have "(aged (unat i) ts)[unat i := ts ! unat i] = aged (unat i) ts"
      using list_update_id [of "aged (unat i) ts" "unat i"] assms by (simp add: aged_at)
    then show ?thesis using that assms by (simp add: aged_Suc age_def waits_def)
  qed
  show ?thesis
    using assms same
    by (simp add: inspect_task_def fetch_def store_def aged_at aged_Suc age_def waits_def starts_def Let_def)
qed

lemma choose_task_tick:
  assumes n: "unat n \<le> length ts" and idle: "\<And>j. j < unat n \<Longrightarrow> idleTime (ts ! j) \<noteq> - 1"
  shows "holds (choose_task n ts) (\<lambda>(ts', nextTask). \<exists>r. tick (unat n) ts ts' r \<and> nextTask = index_of r)"
  unfolding choose_task_def holds_and_then
proof (rule for_u64_holds [where I = "\<lambda>i s. \<exists>r. s = (aged (unat i) ts, longest ts r, index_of r) \<and>
    (\<forall>j < unat i. \<not> starts ts j) \<and> first_waiting (unat i) ts r"])
  fix i :: u64 and s
  assume lt: "i < n" and "\<exists>r. s = (aged (unat i) ts, longest ts r, index_of r) \<and>
    (\<forall>j < unat i. \<not> starts ts j) \<and> first_waiting (unat i) ts r"
  then obtain r where s: "s = (aged (unat i) ts, longest ts r, index_of r)"
    and none: "\<forall>j < unat i. \<not> starts ts j" and r: "first_waiting (unat i) ts r" by blast
  have i: "unat i < unat n" "unat i < length ts" "unat (i + 1) = Suc (unat i)"
    using lt n unat_plus_1 [OF lt] by (simp_all add: word_less_nat_alt)
  have "\<forall>j \<le> unat i. idleTime (ts ! j) \<noteq> - 1" using idle i(1) by simp
  note step = first_waiting_Suc [OF r this]
  show "holds (inspect_task i s) (\<lambda>f. case f of
        Next s' \<Rightarrow> \<exists>r. s' = (aged (unat (i + 1)) ts, longest ts r, index_of r) \<and>
          (\<forall>j < unat (i + 1). \<not> starts ts j) \<and> first_waiting (unat (i + 1)) ts r
      | Exit r \<Rightarrow> holds (case Exit r of Next (ts, _, nextTask) \<Rightarrow> Inr (ts, nextTask)
            | Exit (ts, nextTask) \<Rightarrow> Inr (ts, nextTask))
          (\<lambda>(ts', nextTask). \<exists>r. tick (unat n) ts ts' r \<and> nextTask = index_of r))"
  proof -
    consider (waits) "waits ts (unat i)" | (starts) "\<not> waits ts (unat i)" "starts ts (unat i)"
      | (other) "\<not> waits ts (unat i)" "\<not> starts ts (unat i)" by blast
    then show ?thesis
    proof cases
      case waits
      then have ns: "\<not> starts ts (unat i)" by (simp add: waits_def starts_def)
      let ?r = "if longest ts r < idleTime (ts ! unat i) + 1 then Some (unat i) else r"
      have "inspect_task i s = Inr (Next (aged (Suc (unat i)) ts, longest ts ?r, index_of ?r))"
        unfolding s inspect_task_eq [OF i(2)] using waits
        by (simp add: Let_def longest_def index_of_def)
      moreover have "\<forall>j < Suc (unat i). \<not> starts ts j" using none ns by (simp add: less_Suc_eq)
      ultimately show ?thesis using step(2) [OF waits] i(3) by auto
    next
      case starts
      have "inspect_task i s = Inr (Exit (aged (unat i) ts, index_of (Some (unat i))))"
        unfolding s inspect_task_eq [OF i(2)] using starts by (simp add: index_of_def)
      moreover have "tick (unat n) ts (aged (unat i) ts) (Some (unat i))"
        using starts(2) none i(1) by (auto simp: tick_def)
      ultimately show ?thesis by auto
    next
      case other
      have "inspect_task i s = Inr (Next (aged (Suc (unat i)) ts, longest ts r, index_of r))"
        unfolding s inspect_task_eq [OF i(2)] using other by simp
      moreover have "\<forall>j < Suc (unat i). \<not> starts ts j" using none other by (simp add: less_Suc_eq)
      ultimately show ?thesis using step(1) [OF other(1)] i(3) by auto
    qed
  qed
next
  fix s
  assume "\<exists>r. s = (aged (unat n) ts, longest ts r, index_of r) \<and>
    (\<forall>j < unat n. \<not> starts ts j) \<and> first_waiting (unat n) ts r"
  then obtain r where s: "s = (aged (unat n) ts, longest ts r, index_of r)"
    and "\<forall>j < unat n. \<not> starts ts j" and "first_waiting (unat n) ts r" by blast
  then have "tick (unat n) ts (aged (unat n) ts) r" by (auto simp: tick_def)
  then show "holds (case Next s of Next (ts, _, nextTask) \<Rightarrow> Inr (ts, nextTask)
            | Exit (ts, nextTask) \<Rightarrow> Inr (ts, nextTask))
          (\<lambda>(ts', nextTask). \<exists>r. tick (unat n) ts ts' r \<and> nextTask = index_of r)"
    unfolding s by auto
qed (auto simp: first_waiting_def index_of_def longest_def intro: exI [of _ None])

section \<open>One call of schedulerMain\<close>

definition ntasks :: "'a sched_state_scheme \<Rightarrow> nat" where "ntasks s = unat (numberOfTasks s)"
definition ncores :: "'a sched_state_scheme \<Rightarrow> nat" where "ncores s = length (cpuInfo s)"

definition current :: "'a sched_state_scheme \<Rightarrow> nat \<Rightarrow> nat option" where
  "current s c = (let i = currentTask (cpuInfo s ! c) in if i = - 1 then None else Some (unat i))"

definition status_of :: "'a sched_state_scheme \<Rightarrow> nat \<Rightarrow> u8" where
  "status_of s k = status (tasks s ! k)"

text \<open>The invariant: a core's current task is running, no other core has it, and every running
  task is the current task of a core.\<close>

definition sched_ok :: "'a sched_state_scheme \<Rightarrow> bool" where
  "sched_ok s \<longleftrightarrow> \<not> schedulerLock s \<and> ntasks s \<le> length (tasks s) \<and>
     (\<forall>k < ntasks s. status_of s k \<in> {WAITING_TO_START, RUNNING, WAITING}) \<and>
     (\<forall>c < ncores s. \<forall>k. current s c = Some k \<longrightarrow> k < ntasks s \<and> status_of s k = RUNNING) \<and>
     (\<forall>c < ncores s. \<forall>d < ncores s. \<forall>k. current s c = Some k \<longrightarrow> current s d = Some k \<longrightarrow> c = d) \<and>
     (\<forall>k < ntasks s. status_of s k = RUNNING \<longrightarrow>
        idleTime (tasks s ! k) = 0 \<and> (\<exists>c < ncores s. current s c = Some k))"

text \<open>Every task has an address space, and the table of task state segments has the entries
  \<open>setKernelStack\<close> writes.\<close>

definition spaces_ok :: "'a sched_state_scheme \<Rightarrow> bool" where
  "spaces_ok s \<longleftrightarrow>
     (\<forall>k < ntasks s. let i = pml4Index (tasks s ! k) in
        i \<le> pageDirectoryCount s \<and> unat i < length (pageDirectoryTables s) \<and>
        d_pml4 (pageDirectoryTables s ! unat i) \<noteq> 0) \<and>
     (\<forall>c < ncores s. 2 * c < length (tss s)) \<and> ncores s < 2 ^ 32"

definition resume :: "task_t \<Rightarrow> resumption" where
  "resume t =
     (if status t = WAITING_TO_START
      then StartTask (r_ss (t_regs t)) (rsp (t_regs t)) (r_cs (t_regs t)) (entryPoint t)
      else SwitchTask (t_regs t) (r_ss (t_regs t)))"

definition save_last :: "nat option \<Rightarrow> regs_t \<Rightarrow> task_t list \<Rightarrow> task_t list" where
  "save_last l regs ts =
     (case l of None \<Rightarrow> ts | Some k \<Rightarrow> ts[k := (ts ! k)\<lparr>t_regs := regs, status := WAITING\<rparr>])"

text \<open>What a switch of the core \<open>c\<close> to task \<open>k\<close> does, \<open>ts\<close> being the tasks after the search.\<close>

definition switched ::
  "regs_t \<Rightarrow> nat \<Rightarrow> task_t list \<Rightarrow> 'a sched_state_scheme \<Rightarrow> 'a sched_state_scheme \<Rightarrow> bool"
where
  "switched regs k ts s s' \<longleftrightarrow>
     (let c = unat (r_core regs) in
      tasks s' = (save_last (current s c) regs ts)[k := (ts ! k)\<lparr>idleTime := 0, status := RUNNING\<rparr>] \<and>
      cpuInfo s' = (cpuInfo s)[c := (cpuInfo s ! c)\<lparr>currentTask := of_nat k\<rparr>] \<and>
      cr3 s' = d_pml4 (pageDirectoryTables s ! unat (pml4Index (ts ! k))) \<and>
      rsp0 (tss s' ! c) = kernelStack (ts ! k))"

definition unchanged :: "'a sched_state_scheme \<Rightarrow> 'a sched_state_scheme \<Rightarrow> bool" where
  "unchanged s s' \<longleftrightarrow> numberOfTasks s' = numberOfTasks s \<and> schedulerLock s' = False \<and>
     pageDirectoryTables s' = pageDirectoryTables s \<and> pageDirectoryCount s' = pageDirectoryCount s \<and>
     length (tss s') = length (tss s)"

lemma setKernelStack_eq:
  assumes "2 * unat core < length (tss s)" and "unat core < 2 ^ 32"
  shows "setKernelStack core stack s = Inr (s\<lparr>tss := (let ts = (tss s)[2 * unat core :=
      (tss s ! (2 * unat core))\<lparr>rsp0 := stack\<rparr>] in ts[unat core := (ts ! unat core)\<lparr>rsp0 := stack\<rparr>])\<rparr>)"
proof -
  have "unat (core + core) = unat core + unat core" using assms(2) by (intro unat_add_u64) simp
  then have "unat (core + core) = 2 * unat core" by (simp only: mult_2)
  then show ?thesis
    using assms(1) by (simp add: setKernelStack_def set_rsp0_def fetch_def store_def Let_def)
qed

lemma update_task_eq:
  "unat i < length (tasks s) \<Longrightarrow>
   update_task i f s = Inr (s\<lparr>tasks := (tasks s)[unat i := f (tasks s ! unat i)]\<rparr>)"
  by (simp add: update_task_def fetch_def store_def)

lemma set_currentTask_eq:
  "unat c < length (cpuInfo s) \<Longrightarrow>
   set_currentTask c i s = Inr (s\<lparr>cpuInfo := (cpuInfo s)[unat c := (cpuInfo s ! unat c)\<lparr>currentTask := i\<rparr>]\<rparr>)"
  by (simp add: set_currentTask_def fetch_def store_def)

lemma initAddressSpace_eq:
  assumes "i \<le> pageDirectoryCount s" and "unat i < length (pageDirectoryTables s)"
    and "d_pml4 (pageDirectoryTables s ! unat i) \<noteq> 0"
  shows "initAddressSpace i s = Inr (s\<lparr>cr3 := d_pml4 (pageDirectoryTables s ! unat i)\<rparr>)"
proof -
  have "\<not> i > pageDirectoryCount s" using assms(1) by simp
  then show ?thesis using assms(2,3) by (simp add: initAddressSpace_def fetch_def)
qed

lemma switch_to_switched:
  fixes s :: "'a sched_state_scheme"
  assumes core: "unat (r_core regs) < ncores s" "2 * unat (r_core regs) < length (tss s)" "ncores s < 2 ^ 32"
    and last: "\<And>l. current s (unat (r_core regs)) = Some l \<Longrightarrow> l < length (tasks s) \<and> l \<noteq> k"
    and k: "k < length (tasks s)" "k < 2 ^ 64 - 1" "status_of s k \<in> {WAITING_TO_START, WAITING}"
    and space: "pml4Index (tasks s ! k) \<le> pageDirectoryCount s"
      "unat (pml4Index (tasks s ! k)) < length (pageDirectoryTables s)"
      "d_pml4 (pageDirectoryTables s ! unat (pml4Index (tasks s ! k))) \<noteq> 0"
  shows "holds (switch_to regs (currentTask (cpuInfo s ! unat (r_core regs))) (of_nat k) s)
    (\<lambda>(r, s'). r = resume (tasks s ! k) \<and> switched regs k (tasks s) s s' \<and> unchanged s s')"
proof -
  define c where "c = unat (r_core regs)"
  let ?ts = "save_last (current s c) regs (tasks s)"
  have uk: "unat (of_nat k :: u64) = k" using k(2) by (simp add: unat_of_nat_u64)
  have tsk: "?ts ! k = tasks s ! k" "length ?ts = length (tasks s)"
    using last by (auto simp: save_last_def c_def split: option.splits)
  have step1: "(if currentTask (cpuInfo s ! c) \<noteq> - 1
      then update_task (currentTask (cpuInfo s ! c)) (\<lambda>t. t\<lparr>t_regs := regs, status := WAITING\<rparr>) s
      else Inr s) = Inr (s\<lparr>tasks := ?ts\<rparr>)"
    using last
    by (auto simp: update_task_def fetch_def store_def save_last_def current_def c_def Let_def split: if_splits)
  show ?thesis
    using core k space uk tsk
    unfolding switch_to_def step1 [unfolded c_def]
    by (auto simp: set_currentTask_eq update_task_eq initAddressSpace_eq setKernelStack_eq
        fetch_def ncores_def status_of_def switched_def unchanged_def resume_def release_def
        spinRelease_def c_def Let_def)
qed

text \<open>A call of \<open>schedulerMain\<close> with the registers \<open>regs\<close>, on the core they name.\<close>

definition scheduled ::
  "regs_t \<Rightarrow> 'a sched_state_scheme \<Rightarrow> resumption \<Rightarrow> 'a sched_state_scheme \<Rightarrow> nat option \<Rightarrow> bool"
where
  "scheduled regs s r s' next \<longleftrightarrow> unchanged s s' \<and>
     (\<exists>ts. tick (ntasks s) (tasks s) ts next \<and>
       (case next of
          None \<Rightarrow> r = Return \<and> tasks s' = ts \<and> cpuInfo s' = cpuInfo s
        | Some k \<Rightarrow> k < ntasks s \<and> r = resume (tasks s ! k) \<and> switched regs k ts s s'))"

lemma tick_next:
  assumes "tick n ts ts' (Some k)" and "n \<le> length ts"
  shows "k < n" "starts ts k \<or> waits ts k" "length ts' = length ts"
  using assms by (auto simp: tick_def first_waiting_def split: if_splits)

lemma tick_length: "tick n ts ts' r \<Longrightarrow> length ts' = length ts"
  by (auto simp: tick_def split: if_splits)

lemma tick_nth:
  assumes "tick n ts ts' r" and "k < length ts"
  shows "ts' ! k = ts ! k \<or> ts' ! k = age (ts ! k)"
  using assms by (auto simp: tick_def aged_nth split: if_splits)

lemma schedulerMain_scheduled:
  fixes s :: "'a sched_state_scheme"
  assumes ok: "sched_ok s" and sp: "spaces_ok s" and core: "unat (r_core regs) < ncores s"
    and idle: "\<And>j. j < ntasks s \<Longrightarrow> idleTime (tasks s ! j) \<noteq> - 1"
  shows "holds (schedulerMain regs s) (\<lambda>(r, s'). \<exists>next. scheduled regs s r s' next)"
proof (cases "numberOfTasks s = 0")
  case True
  have "scheduled regs s Return (release (s\<lparr>schedulerLock := True\<rparr>)) None"
    using True by (auto simp: scheduled_def unchanged_def release_def spinRelease_def tick_def
        first_waiting_def ntasks_def)
  then show ?thesis using True ok by (auto simp: schedulerMain_def sched_ok_def)
next
  case False
  let ?c = "unat (r_core regs)"
  let ?s = "s\<lparr>schedulerLock := True\<rparr>"
  have c: "fetch (cpuInfo s) (r_core regs) = Inr (cpuInfo s ! ?c)"
    using core by (simp add: fetch_def ncores_def)
  have "holds (choose_task (numberOfTasks s) (tasks s))
      (\<lambda>(ts, nx). \<exists>r. tick (ntasks s) (tasks s) ts r \<and> nx = index_of r)"
    unfolding ntasks_def by (rule choose_task_tick) (use ok idle in \<open>auto simp: sched_ok_def ntasks_def\<close>)
  then obtain ts r where choose: "choose_task (numberOfTasks s) (tasks s) = Inr (ts, index_of r)"
    and tick: "tick (ntasks s) (tasks s) ts r" by (auto elim!: holdsE)
  show ?thesis
  proof (cases r)
    case None
    have "scheduled regs s Return (release (?s\<lparr>tasks := ts\<rparr>)) None"
      using tick None by (auto simp: scheduled_def unchanged_def release_def spinRelease_def)
    then show ?thesis
      using False ok choose None c by (auto simp: schedulerMain_def sched_ok_def index_of_def)
  next
    case (Some k)
    have k: "k < ntasks s" "starts (tasks s) k \<or> waits (tasks s) k" "length ts = length (tasks s)"
      using tick_next [of "ntasks s" "tasks s" ts k] tick Some ok by (auto simp: sched_ok_def)
    have small: "k < 2 ^ 64 - 1" using k(1) unat_less_u64 [of "numberOfTasks s"] by (simp add: ntasks_def)
    have nx: "index_of r = of_nat k" "(of_nat k :: u64) \<noteq> - 1"
      using Some not_max [OF small] by (simp_all add: index_of_def)
    let ?t = "?s\<lparr>tasks := ts\<rparr>"
    have same: "status (ts ! k) = status (tasks s ! k)" "pml4Index (ts ! k) = pml4Index (tasks s ! k)"
      "resume (ts ! k) = resume (tasks s ! k)"
      using tick_nth [OF tick, of k] k(1) ok by (auto simp: resume_def sched_ok_def)
    have "holds (switch_to regs (currentTask (cpuInfo ?t ! ?c)) (of_nat k) ?t)
      (\<lambda>(r, s'). r = resume (tasks ?t ! k) \<and> switched regs k (tasks ?t) ?t s' \<and> unchanged ?t s')"
    proof (rule switch_to_switched)
      show "?c < ncores ?t" "2 * ?c < length (tss ?t)" "ncores ?t < 2 ^ 32"
        using core sp by (simp_all add: ncores_def spaces_ok_def)
      show "l < length (tasks ?t) \<and> l \<noteq> k" if "current ?t ?c = Some l" for l
      proof -
        have "current s ?c = Some l" using that by (simp add: current_def)
        then have "l < ntasks s" "status_of s l = RUNNING" using ok core by (auto simp: sched_ok_def)
        then show ?thesis
          using k ok by (auto simp: sched_ok_def status_of_def starts_def waits_def)
      qed
      show "k < length (tasks ?t)" using k ok by (simp add: sched_ok_def)
      show "status_of ?t k \<in> {WAITING_TO_START, WAITING}"
        using k(2) same by (auto simp: status_of_def starts_def waits_def)
      show "pml4Index (tasks ?t ! k) \<le> pageDirectoryCount ?t"
        "unat (pml4Index (tasks ?t ! k)) < length (pageDirectoryTables ?t)"
        "d_pml4 (pageDirectoryTables ?t ! unat (pml4Index (tasks ?t ! k))) \<noteq> 0"
        using sp k(1) same by (simp_all add: spaces_ok_def Let_def)
    qed (rule small)
    then have "holds (switch_to regs (currentTask (cpuInfo ?t ! ?c)) (of_nat k) ?t)
      (\<lambda>(r, s'). scheduled regs s r s' (Some k))"
    proof (rule holds_mono)
      fix x
      assume "case x of (r, s') \<Rightarrow> r = resume (tasks ?t ! k) \<and> switched regs k (tasks ?t) ?t s' \<and> unchanged ?t s'"
      then show "case x of (r, s') \<Rightarrow> scheduled regs s r s' (Some k)"
        using tick Some k same by (auto simp: scheduled_def switched_def unchanged_def current_def)
    qed
    then show ?thesis
      using False ok choose nx c
      by (auto simp: schedulerMain_def sched_ok_def elim!: holds_mono)
  qed
qed

section \<open>Sequences of timer interrupts\<close>

text \<open>The states before, between and after the interrupts of the given cores.\<close>

primrec timer_ticks :: "regs_t list \<Rightarrow> 'a sched_state_scheme \<Rightarrow> 'a sched_state_scheme list result" where
  "timer_ticks [] s = Inr [s]"
| "timer_ticks (r # rs) s = and_then (schedulerMain r s) (\<lambda>(_, s').
     and_then (timer_ticks rs s') (\<lambda>t. Inr (s # t)))"

definition idle_below :: "nat \<Rightarrow> 'a sched_state_scheme \<Rightarrow> bool" where
  "idle_below b s \<longleftrightarrow> (\<forall>j < ntasks s. unat (idleTime (tasks s ! j)) < b)"

definition ready :: "nat \<Rightarrow> 'a sched_state_scheme \<Rightarrow> bool" where
  "ready b s \<longleftrightarrow> sched_ok s \<and> spaces_ok s \<and> idle_below b s"

lemma idle_below_max:
  assumes "idle_below b s" and "b < 2 ^ 64" and "j < ntasks s"
  shows "idleTime (tasks s ! j) \<noteq> - 1"
proof
  assume "idleTime (tasks s ! j) = - 1"
  then have "unat (idleTime (tasks s ! j)) = 2 ^ 64 - 1" by (simp add: unat_max)
  then show False using assms by (auto simp: idle_below_def)
qed

lemma ready_scheduled:
  fixes s :: "'a sched_state_scheme"
  assumes "ready b s" and "b < 2 ^ 64" and "unat (r_core regs) < ncores s"
  shows "holds (schedulerMain regs s) (\<lambda>(r, s'). \<exists>next. scheduled regs s r s' next)"
  by (rule schedulerMain_scheduled)
    (use assms idle_below_max in \<open>auto simp: ready_def\<close>)

text \<open>The tasks after a call, one by one.\<close>

lemma scheduled_None:
  assumes "scheduled regs s r s' None" and "ntasks s \<le> length (tasks s)"
  shows "tasks s' = aged (ntasks s) (tasks s)" "cpuInfo s' = cpuInfo s" "\<forall>j < ntasks s. \<not> waits (tasks s) j"
  using assms by (auto simp: scheduled_def tick_def first_waiting_def split: if_splits)

lemma scheduled_Some:
  assumes sch: "scheduled regs s r s' (Some k)" and ok: "ntasks s \<le> length (tasks s)"
    and j: "j < length (tasks s)"
  shows "tasks s' ! j = (let t = (if waits (tasks s) j \<and> (\<forall>i < ntasks s. \<not> starts (tasks s) i) \<and> j < ntasks s \<or>
        waits (tasks s) j \<and> starts (tasks s) k \<and> j < k
      then (tasks s ! j)\<lparr>idleTime := idleTime (tasks s ! j) + 1\<rparr> else tasks s ! j) in
    if j = k then t\<lparr>idleTime := 0, status := RUNNING\<rparr>
    else if current s (unat (r_core regs)) = Some j then t\<lparr>t_regs := regs, status := WAITING\<rparr> else t)"
proof -
  obtain ts where ts: "tick (ntasks s) (tasks s) ts (Some k)" "switched regs k ts s s'" "k < ntasks s"
    using sch by (auto simp: scheduled_def)
  have len: "length ts = length (tasks s)" using ts(1) by (rule tick_length)
  have "ts ! j = (if waits (tasks s) j \<and> (\<forall>i < ntasks s. \<not> starts (tasks s) i) \<and> j < ntasks s \<or>
        waits (tasks s) j \<and> starts (tasks s) k \<and> j < k
      then (tasks s ! j)\<lparr>idleTime := idleTime (tasks s ! j) + 1\<rparr> else tasks s ! j)"
    using ts(1,3) j by (auto simp: tick_def aged_nth age_def waits_def starts_def first_waiting_def split: if_splits)
  then show ?thesis
    using ts(2) j len by (auto simp: switched_def save_last_def nth_list_update Let_def split: option.splits)
qed

text \<open>The statuses and the current tasks after a call.\<close>

definition run_next :: "nat \<Rightarrow> nat \<Rightarrow> 'a sched_state_scheme \<Rightarrow> 'a sched_state_scheme \<Rightarrow> bool" where
  "run_next c k s s' \<longleftrightarrow> k < ntasks s \<and> status_of s k \<noteq> RUNNING \<and>
     (\<forall>j < ntasks s. status_of s' j =
        (if j = k then RUNNING else if current s c = Some j then WAITING else status_of s j)) \<and>
     (\<forall>d < ncores s. current s' d = (if d = c then Some k else current s d))"

lemma scheduled_status:
  fixes s :: "'a sched_state_scheme"
  assumes sch: "scheduled regs s r s' next" and ok: "sched_ok s" and core: "unat (r_core regs) < ncores s"
  shows "ntasks s' = ntasks s \<and> ncores s' = ncores s \<and> length (tasks s') = length (tasks s) \<and>
    (case next of
       None \<Rightarrow> (\<forall>j < ntasks s. status_of s' j = status_of s j) \<and> (\<forall>d. current s' d = current s d)
     | Some k \<Rightarrow> run_next (unat (r_core regs)) k s s')"
proof -
  have len: "ntasks s \<le> length (tasks s)" using ok by (simp add: sched_ok_def)
  have n: "ntasks s' = ntasks s" using sch by (simp add: scheduled_def unchanged_def ntasks_def)
  show ?thesis
  proof (cases "next")
    case None
    note * = scheduled_None [OF sch [unfolded None] len]
    show ?thesis
      using n * len None by (auto simp: ncores_def status_of_def current_def aged_nth)
  next
    case (Some k)
    note sch = sch [unfolded Some]
    obtain ts where ts: "tick (ntasks s) (tasks s) ts (Some k)" "switched regs k ts s s'" "k < ntasks s"
      using sch by (auto simp: scheduled_def)
    have "length ts = length (tasks s)" using ts(1) by (rule tick_length)
    then have l: "length (tasks s') = length (tasks s)" "ncores s' = ncores s"
      using ts(2) by (auto simp: switched_def save_last_def ncores_def Let_def split: option.splits)
    have k: "starts (tasks s) k \<or> waits (tasks s) k" using tick_next [OF ts(1) len] by simp
    have "status_of s' j = (if j = k then RUNNING
        else if current s (unat (r_core regs)) = Some j then WAITING else status_of s j)"
      if "j < ntasks s" for j
      using scheduled_Some [OF sch len, of j] that len by (simp add: status_of_def Let_def)
    moreover have "current s' d = (if d = unat (r_core regs) then Some k else current s d)"
      if "d < ncores s" for d
    proof -
      have "k < 2 ^ 64 - 1" using ts(3) unat_less_u64 [of "numberOfTasks s"] by (simp add: ntasks_def)
      then have "unat (of_nat k :: u64) = k" "(of_nat k :: u64) \<noteq> - 1"
        by (simp_all add: unat_of_nat_u64 not_max)
      then show ?thesis
        using ts(2) that by (auto simp: switched_def current_def ncores_def nth_list_update Let_def)
    qed
    ultimately show ?thesis
      using n l k ts(3) Some by (auto simp: run_next_def status_of_def starts_def waits_def)
  qed
qed

lemma scheduled_idle:
  fixes s :: "'a sched_state_scheme"
  assumes sch: "scheduled regs s r s' next" and ok: "sched_ok s" and j: "j < ntasks s"
    and idle: "idleTime (tasks s ! j) \<noteq> - 1"
  shows "unat (idleTime (tasks s' ! j)) \<le> unat (idleTime (tasks s ! j)) + 1"
    "status_of s' j = RUNNING \<Longrightarrow> idleTime (tasks s' ! j) = 0"
    "pml4Index (tasks s' ! j) = pml4Index (tasks s ! j)"
proof -
  have len: "ntasks s \<le> length (tasks s)" using ok by (simp add: sched_ok_def)
  have run: "status_of s j = RUNNING \<Longrightarrow> idleTime (tasks s ! j) = 0" using ok j by (simp add: sched_ok_def)
  show "unat (idleTime (tasks s' ! j)) \<le> unat (idleTime (tasks s ! j)) + 1"
    "status_of s' j = RUNNING \<Longrightarrow> idleTime (tasks s' ! j) = 0"
    "pml4Index (tasks s' ! j) = pml4Index (tasks s ! j)"
  proof (atomize (full), cases "next")
    case None
    then have "tasks s' ! j = age (tasks s ! j)"
      using scheduled_None [OF sch [unfolded None] len] len j by (simp add: aged_nth)
    then show "unat (idleTime (tasks s' ! j)) \<le> unat (idleTime (tasks s ! j)) + 1 \<and>
        (status_of s' j = RUNNING \<longrightarrow> idleTime (tasks s' ! j) = 0) \<and>
        pml4Index (tasks s' ! j) = pml4Index (tasks s ! j)"
      using run idle by (auto simp: age_def status_of_def unat_plus_1_max)
  next
    case (Some k)
    show "unat (idleTime (tasks s' ! j)) \<le> unat (idleTime (tasks s ! j)) + 1 \<and>
        (status_of s' j = RUNNING \<longrightarrow> idleTime (tasks s' ! j) = 0) \<and>
        pml4Index (tasks s' ! j) = pml4Index (tasks s ! j)"
      using scheduled_Some [OF sch [unfolded Some] len, of j] j len run idle
      by (auto simp: status_of_def waits_def unat_plus_1_max Let_def split: if_splits)
  qed
qed

lemma scheduled_sched_ok:
  fixes s :: "'a sched_state_scheme"
  assumes sch: "scheduled regs s r s' next" and ok: "sched_ok s" and core: "unat (r_core regs) < ncores s"
    and idle: "\<And>j. j < ntasks s \<Longrightarrow> idleTime (tasks s ! j) \<noteq> - 1"
  shows "sched_ok s'"
proof -
  note st = scheduled_status [OF sch ok core]
  have lock: "\<not> schedulerLock s'" using sch by (simp add: scheduled_def unchanged_def)
  have zero: "status_of s' j = RUNNING \<Longrightarrow> idleTime (tasks s' ! j) = 0" if "j < ntasks s" for j
    using scheduled_idle(2) [OF sch ok that idle [OF that]] .
  have cur: "k < ntasks s \<and> status_of s k = RUNNING"
    if "c < ncores s" "current s c = Some k" for c k using ok that by (simp add: sched_ok_def)
  have one: "c = d" if "c < ncores s" "d < ncores s" "current s c = Some k" "current s d = Some k" for c d k
    using ok that unfolding sched_ok_def by blast
  have runs: "\<exists>c < ncores s. current s c = Some k" if "k < ntasks s" "status_of s k = RUNNING" for k
    using ok that unfolding sched_ok_def by blast
  have sts: "status_of s k \<in> {WAITING_TO_START, RUNNING, WAITING}" if "k < ntasks s" for k
    using ok that unfolding sched_ok_def by blast
  have len: "ntasks s \<le> length (tasks s)" using ok by (simp add: sched_ok_def)
  show ?thesis
  proof (cases "next")
    case None
    then show ?thesis
      unfolding sched_ok_def using st lock zero cur one runs sts len by auto
  next
    case (Some k)
    let ?c = "unat (r_core regs)"
    have run: "run_next ?c k s s'" using st Some by simp
    have n: "ntasks s' = ntasks s" "ncores s' = ncores s" "length (tasks s') = length (tasks s)"
      using st by simp_all
    have k: "k < ntasks s" "status_of s k \<noteq> RUNNING" using run by (auto simp: run_next_def)
    have s': "status_of s' j = (if j = k then RUNNING else if current s ?c = Some j then WAITING else status_of s j)"
      if "j < ntasks s" for j using run that unfolding run_next_def by blast
    have c': "current s' d = (if d = ?c then Some k else current s d)" if "d < ncores s" for d
      using run that unfolding run_next_def by blast
    have other: "current s d \<noteq> Some k" if "d < ncores s" for d using cur [OF that] k(2) by blast
    have "\<exists>c < ncores s. current s' c = Some j" if "j < ntasks s" "status_of s' j = RUNNING" for j
    proof (cases "j = k")
      case True
      then show ?thesis using core c' by auto
    next
      case False
      then have "status_of s j = RUNNING" "current s ?c \<noteq> Some j"
        using that s' [OF that(1)] by (auto split: if_splits)
      then show ?thesis using runs [OF that(1)] c' by metis
    qed
    moreover have "j < ntasks s \<and> status_of s' j = RUNNING" if "d < ncores s" "current s' d = Some j" for d j
      using that k c' [OF that(1)] s' cur [OF that(1)] one [OF that(1) core] by (auto split: if_splits)
    moreover have "c = d" if "c < ncores s" "d < ncores s" "current s' c = Some j" "current s' d = Some j" for c d j
      using that c' [OF that(1)] c' [OF that(2)] other [OF that(1)] other [OF that(2)] one
      by (auto split: if_splits)
    moreover have "status_of s' j \<in> {WAITING_TO_START, RUNNING, WAITING}" if "j < ntasks s" for j
      using s' [OF that] sts [OF that] by auto
    ultimately show ?thesis
      unfolding sched_ok_def n using lock len zero by blast
  qed
qed

lemma scheduled_ready:
  fixes s :: "'a sched_state_scheme"
  assumes sch: "scheduled regs s r s' next" and ready: "ready b s" and b: "b < 2 ^ 64"
    and core: "unat (r_core regs) < ncores s"
  shows "ready (b + 1) s' \<and> ncores s' = ncores s \<and> ntasks s' = ntasks s"
proof -
  have ok: "sched_ok s" and sp: "spaces_ok s" and ib: "idle_below b s"
    using ready by (auto simp: ready_def)
  note idle = idle_below_max [OF ib b]
  note st = scheduled_status [OF sch ok core]
  note pre = scheduled_idle [OF sch ok _ idle]
  have "idle_below (b + 1) s'"
  proof (unfold idle_below_def, intro allI impI)
    fix j assume "j < ntasks s'"
    then have j: "j < ntasks s" using st by simp
    then show "unat (idleTime (tasks s' ! j)) < b + 1"
      using pre(1) [OF j j] ib by (fastforce simp: idle_below_def)
  qed
  moreover have "spaces_ok s'"
    using sp st pre(3) sch by (simp add: spaces_ok_def scheduled_def unchanged_def Let_def)
  ultimately show ?thesis
    using scheduled_sched_ok [OF sch ok core idle] st by (simp add: ready_def)
qed

text \<open>The waiting tasks that will be chosen before \<open>k\<close>.\<close>

definition queue_before :: "'a sched_state_scheme \<Rightarrow> nat \<Rightarrow> nat set" where
  "queue_before s k = {j. j < ntasks s \<and> waits (tasks s) j \<and> before (tasks s) j k}"

lemma finite_queue_before [simp]: "finite (queue_before s k)"
  by (simp add: queue_before_def)

definition all_started :: "'a sched_state_scheme \<Rightarrow> bool" where
  "all_started s \<longleftrightarrow> (\<forall>j < ntasks s. status_of s j \<noteq> WAITING_TO_START)"

text \<open>A call that does not choose the waiting task \<open>k\<close> takes a task out of the ones before it.\<close>

lemma scheduled_advances:
  fixes s :: "'a sched_state_scheme"
  assumes sch: "scheduled regs s r s' next" and ready: "ready b s" and b: "b < 2 ^ 64"
    and core: "unat (r_core regs) < ncores s" and started: "all_started s"
    and k: "k < ntasks s" "status_of s k = WAITING"
  shows "all_started s' \<and> (status_of s' k = RUNNING \<or>
    status_of s' k = WAITING \<and> queue_before s' k \<subset> queue_before s k)"
proof -
  have ok: "sched_ok s" and ib: "idle_below b s" using ready by (auto simp: ready_def)
  have len: "ntasks s \<le> length (tasks s)" using ok by (simp add: sched_ok_def)
  have ns: "\<not> starts (tasks s) j" if "j < ntasks s" for j
    using started that by (simp add: all_started_def starts_def status_of_def)
  obtain m where m: "next = Some m"
    using scheduled_None [of regs s r s'] sch k len by (cases "next") (auto simp: waits_def status_of_def)
  note sch = sch [unfolded m]
  note idle = idle_below_max [OF ib b]
  have run: "run_next (unat (r_core regs)) m s s'" and n: "ntasks s' = ntasks s"
    using scheduled_status [OF sch ok core] by auto
  have "\<not> (\<exists>j < ntasks s. starts (tasks s) j)" using ns by blast
  then have tick_unique: "first_waiting (ntasks s) (tasks s) (Some m)"
    using sch unfolding scheduled_def tick_def by auto
  have first: "m < ntasks s" "waits (tasks s) m" "\<And>j. j < ntasks s \<Longrightarrow> waits (tasks s) j \<Longrightarrow> j \<noteq> m \<Longrightarrow> before (tasks s) m j"
    using tick_unique by (auto simp: first_waiting_def)
  have zero: "idleTime (tasks s ! j) = 0 \<and> status_of s j = RUNNING"
    if "current s (unat (r_core regs)) = Some j" "j < ntasks s" for j
    using ok core that by (auto simp: sched_ok_def)
  have after: "tasks s' ! j = (let t = (if waits (tasks s) j then (tasks s ! j)\<lparr>idleTime := idleTime (tasks s ! j) + 1\<rparr> else tasks s ! j) in
      if j = m then t\<lparr>idleTime := 0, status := RUNNING\<rparr>
      else if current s (unat (r_core regs)) = Some j then t\<lparr>t_regs := regs, status := WAITING\<rparr> else t)"
    if "j < ntasks s" for j
    using scheduled_Some [OF sch len, of j] that len ns first(1) by (auto simp: Let_def)
  have "all_started s'"
    using run started by (auto simp: all_started_def run_next_def n)
  moreover have "status_of s' k = WAITING \<and> queue_before s' k \<subset> queue_before s k" if km: "k \<noteq> m"
  proof -
    have kw: "waits (tasks s) k" using k(2) by (simp add: waits_def status_of_def)
    have kc: "current s (unat (r_core regs)) \<noteq> Some k" using zero [of k] k by auto
    have k': "tasks s' ! k = (tasks s ! k)\<lparr>idleTime := idleTime (tasks s ! k) + 1\<rparr>"
      using after [OF k(1)] km kw kc by simp
    have sub: "j \<in> queue_before s k \<and> j \<noteq> m" if "j \<in> queue_before s' k" for j
    proof -
      have j: "j < ntasks s" "waits (tasks s') j" "before (tasks s') j k"
        using that n by (auto simp: queue_before_def)
      have "j \<noteq> m" using j(2) after [OF j(1)] by (auto simp: waits_def)
      moreover have "current s (unat (r_core regs)) \<noteq> Some j"
      proof
        assume c: "current s (unat (r_core regs)) = Some j"
        have "idleTime (tasks s' ! j) = 0"
          using after [OF j(1)] c zero [OF c j(1)] \<open>j \<noteq> m\<close> by (auto simp: waits_def status_of_def Let_def)
        then show False
          using j(3) k' plus_1_pos [OF idle [OF k(1)]] by (auto simp: before_def)
      qed
      ultimately have j': "tasks s' ! j = (tasks s ! j)\<lparr>idleTime := idleTime (tasks s ! j) + 1\<rparr> \<and> waits (tasks s) j"
        using after [OF j(1)] j(2) by (auto simp: waits_def Let_def split: if_splits)
      then have "before (tasks s) j k"
        using j(3) k' plus_1_less [OF idle [OF k(1)] idle [OF j(1)]] by (auto simp: before_def)
      then show ?thesis using j' j(1) \<open>j \<noteq> m\<close> by (simp add: queue_before_def)
    qed
    have "m \<in> queue_before s k" using first k kw km by (auto simp: queue_before_def)
    then have "queue_before s' k \<subset> queue_before s k" using sub by blast
    moreover have "status_of s' k = WAITING" using k' k(2) by (simp add: status_of_def)
    ultimately show ?thesis by simp
  qed
  moreover have "status_of s' k = RUNNING" if "k = m" using run k that by (auto simp: run_next_def)
  ultimately show ?thesis by blast
qed

text \<open>What holds in every state of a sequence of interrupts.\<close>

lemma timer_ticks_ready:
  fixes s :: "'a sched_state_scheme"
  assumes "ready b s" and "b + length rs < 2 ^ 64" and "\<forall>r \<in> set rs. unat (r_core r) < ncores s"
  shows "holds (timer_ticks rs s) (\<lambda>t. s \<in> set t \<and> (\<forall>s' \<in> set t. sched_ok s' \<and> ncores s' = ncores s))"
  using assms
proof (induction rs arbitrary: b s)
  case Nil
  then show ?case by (simp add: ready_def)
next
  case (Cons r rs)
  have r: "ready b s" "b < 2 ^ 64" "unat (r_core r) < ncores s" using Cons.prems by auto
  show ?case
    unfolding timer_ticks.simps
  proof (rule holds_bind [OF ready_scheduled [OF r]], clarify)
    fix q s' "next"
    assume "scheduled r s q s' next"
    note n = scheduled_ready [OF this r]
    then have "holds (timer_ticks rs s') (\<lambda>t. s' \<in> set t \<and> (\<forall>s'' \<in> set t. sched_ok s'' \<and> ncores s'' = ncores s'))"
      using Cons.prems by (intro Cons.IH [of "b + 1"]) auto
    then show "holds (and_then (timer_ticks rs s') (\<lambda>t. Inr (s # t)))
        (\<lambda>t. s \<in> set t \<and> (\<forall>s' \<in> set t. sched_ok s' \<and> ncores s' = ncores s))"
      using r(1) n by (auto simp: holds_and_then ready_def elim!: holds_mono)
  qed
qed

lemma timer_ticks_reach:
  fixes s :: "'a sched_state_scheme"
  assumes "ready b s" and "b + length rs < 2 ^ 64" and "\<forall>r \<in> set rs. unat (r_core r) < ncores s"
    and "all_started s" and "k < ntasks s" and "status_of s k = WAITING"
    and "card (queue_before s k) < length rs"
  shows "holds (timer_ticks rs s) (\<lambda>t. \<exists>s' \<in> set t. status_of s' k = RUNNING)"
  using assms
proof (induction rs arbitrary: b s)
  case Nil
  then show ?case by simp
next
  case (Cons r rs)
  have r: "ready b s" "b < 2 ^ 64" "unat (r_core r) < ncores s" using Cons.prems by auto
  show ?case
    unfolding timer_ticks.simps
  proof (rule holds_bind [OF ready_scheduled [OF r]], clarify)
    fix q s' "next"
    assume sch: "scheduled r s q s' next"
    note n = scheduled_ready [OF this r]
    note adv = scheduled_advances [OF sch r Cons.prems(4-6)]
    have rdy: "ready (b + 1) s'" "(b + 1) + length rs < 2 ^ 64" "\<forall>r \<in> set rs. unat (r_core r) < ncores s'"
      using n Cons.prems by auto
    have "holds (timer_ticks rs s') (\<lambda>t. \<exists>s'' \<in> set t. status_of s'' k = RUNNING)"
    proof (cases "status_of s' k = RUNNING")
      case True
      have "holds (timer_ticks rs s') (\<lambda>t. s' \<in> set t)"
        using timer_ticks_ready [OF rdy] by (rule holds_mono) blast
      then show ?thesis using True by (auto elim!: holds_mono)
    next
      case False
      then have "card (queue_before s' k) < card (queue_before s k)" "status_of s' k = WAITING"
        using adv by (auto intro!: psubset_card_mono)
      then show ?thesis using adv n Cons.prems by (intro Cons.IH [OF rdy]) auto
    qed
    then show "holds (and_then (timer_ticks rs s') (\<lambda>t. Inr (s # t)))
        (\<lambda>t. \<exists>s' \<in> set t. status_of s' k = RUNNING)"
      by (auto simp: holds_and_then elim!: holds_mono)
  qed
qed

section \<open>New tasks\<close>

lemma vmm_more_tasks:
  "vmm_state.more s' = vmm_state.more s \<Longrightarrow> tasks s' = tasks s \<and> numberOfTasks s' = numberOfTasks s \<and>
     cpuInfo s' = cpuInfo s \<and> maxNumberOfTasks s' = maxNumberOfTasks s"
  by (cases s; cases s') simp

lemmas tasks_frame = physicalPageAlloc_pmm_more [THEN heap_more_vmm(1), THEN vmm_more_tasks]
  kmalloc_more [THEN heap_more_vmm(2), THEN vmm_more_tasks]
  krealloc_more [THEN heap_more_vmm(2), THEN vmm_more_tasks]
  createNewAddressSpace_more [THEN vmm_more_tasks]

lemma findFreeIndex_hit:
  assumes "k < unat (maxNumberOfTasks s)" and "k < length (tasks s)" and "kernelStack (tasks s ! k) = 0"
    and "\<forall>j < k. kernelStack (tasks s ! j) \<noteq> 0"
  shows "findFreeIndex s = Inr (of_nat k)"
  using search_hit [OF assms(1,2), of "\<lambda>t. kernelStack t = 0"] assms(3,4) by (simp add: findFreeIndex_def)

lemma findFreeIndex_full:
  assumes "unat (maxNumberOfTasks s) \<le> length (tasks s)"
    and "\<forall>j < unat (maxNumberOfTasks s). kernelStack (tasks s ! j) \<noteq> 0"
  shows "findFreeIndex s = Inr (- 1)"
  using search_miss [OF assms(1), of "\<lambda>t. kernelStack t = 0"] assms(2) by (simp add: findFreeIndex_def)

text \<open>The entry before the table does not exist, however large \<open>krealloc\<close> made the table.\<close>

lemma store_before_table:
  assumes "length ts < 2 ^ 48"
  shows "store (resized_object 248 2480 fresh ts) (- 1) t = Inl OutOfBounds"
proof -
  have "(248 * length ts + 31) div 32 + 2480 < 248 * (2 ^ 64 - 1)" using assms by simp
  then have "((248 * length ts + 31) div 32 + 2480) div 248 < 2 ^ 64 - 1"
    by (simp only: less_mult_imp_div_less mult.commute)
  then show ?thesis by (simp add: store_def length_resized_object unat_max)
qed

lemma createNewTask_full:
  fixes s :: "'a sched_state_scheme"
  assumes "length (tasks s) = unat (maxNumberOfTasks s)" and "length (tasks s) < 2 ^ 48"
    and "\<forall>j < unat (maxNumberOfTasks s). kernelStack (tasks s ! j) \<noteq> 0"
    and calls: "krealloc (tasksAddr s) 2480 s = Inr (a, s0)"
      "createNewAddressSpace pages 7 (s0\<lparr>tasksAddr := a, tasks := resized_object 248 2480 fresh (tasks s0),
         maxNumberOfTasks := maxNumberOfTasks s0 + 10\<rparr>) = Inr (space, s1)"
      "kmalloc 2160 s1 = Inr (thr, s2)" "physicalPageAlloc 2 s2 = Inr (p, s3)"
  shows "createNewTask fresh freshThreads junk ss stack cs entryAddr pages s = Inl OutOfBounds"
proof -
  have find: "findFreeIndex s = Inr (- 1)" by (rule findFreeIndex_full) (use assms in auto)
  have flags: "push_bit 2 1 OR 3 = (7 :: u64)" by code_simp
  have "tasks s0 = tasks s" using calls(1) by (auto dest!: tasks_frame)
  moreover have "tasks s3 = tasks s1" using calls(3,4) by (auto dest!: tasks_frame)
  moreover have "tasks s1 = resized_object 248 2480 fresh (tasks s0)" using calls(2) by (auto dest!: tasks_frame)
  ultimately have "store (tasks s3) (- 1) t = Inl OutOfBounds" for t
    using store_before_table [OF assms(2)] by simp
  then show ?thesis
    unfolding createNewTask_def find
    using calls flags by (simp add: Let_def)
qed

section \<open>Properties\<close>

text \<open>
  C10: a call of \<open>schedulerMain\<close> on a core returns. It picks the first task that has not
  started, or else the waiting task with the longest \<open>idleTime\<close> (the first of them), and ages the
  waiting tasks it passed; if there is none, that is all. Otherwise the registers of the core's last
  task are saved and it waits, the chosen task is the core's current one, runs, has its
  \<open>idleTime\<close> reset, \<open>cr3\<close> holds its tables and \<open>tss[core].rsp0\<close> its kernel stack, and control goes
  to its entry point or to where it was interrupted. The lock is free again.
\<close>

theorem schedulerMain_switches:
  fixes s :: "'a sched_state_scheme"
  assumes "sched_ok s" and "spaces_ok s" and "unat (r_core regs) < ncores s"
    and "\<forall>j < ntasks s. idleTime (tasks s ! j) \<noteq> - 1"
  shows "\<exists>r s' next. schedulerMain regs s = Inr (r, s') \<and> scheduled regs s r s' next"
  using schedulerMain_scheduled [OF assms(1-3)] assms(4) by (auto elim!: holdsE)

text \<open>
  C11: in every state of a sequence of timer interrupts, on any cores in any order, no task is the
  current task of two cores, the current task of a core is running, every running task is the current
  task of a core, and the lock is free between the interrupts.
\<close>

theorem one_core_per_task:
  fixes s :: "'a sched_state_scheme"
  assumes "sched_ok s" and "spaces_ok s" and "\<forall>r \<in> set rs. unat (r_core r) < ncores s"
    and "\<forall>j < ntasks s. unat (idleTime (tasks s ! j)) < b" and "b + length rs < 2 ^ 64"
  shows "\<exists>t. timer_ticks rs s = Inr t \<and> (\<forall>s' \<in> set t. \<not> schedulerLock s' \<and>
    (\<forall>c < ncores s. \<forall>k. current s' c = Some k \<longrightarrow> k < ntasks s' \<and> status_of s' k = RUNNING \<and>
       (\<forall>d < ncores s. current s' d = Some k \<longrightarrow> d = c)) \<and>
    (\<forall>k < ntasks s'. status_of s' k = RUNNING \<longrightarrow> (\<exists>c < ncores s. current s' c = Some k)))"
proof -
  have "ready b s" using assms by (simp add: ready_def idle_below_def)
  then have "holds (timer_ticks rs s) (\<lambda>t. s \<in> set t \<and> (\<forall>s' \<in> set t. sched_ok s' \<and> ncores s' = ncores s))"
    by (rule timer_ticks_ready) (rule assms)+
  then show ?thesis unfolding sched_ok_def by (elim holdsE) (intro exI conjI ballI; fastforce)
qed

text \<open>
  C12: when every task has started, a waiting task runs after at most one more timer interrupt than
  there are waiting tasks with a longer \<open>idleTime\<close> (or the same and a smaller index), on whichever
  cores the interrupts are taken: the aging keeps a task that is switched out from overtaking it.
\<close>

theorem waiting_bounded:
  fixes s :: "'a sched_state_scheme"
  assumes "sched_ok s" and "spaces_ok s" and "\<forall>r \<in> set rs. unat (r_core r) < ncores s"
    and "\<forall>j < ntasks s. unat (idleTime (tasks s ! j)) < b" and "b + length rs < 2 ^ 64"
    and "\<forall>j < ntasks s. status_of s j \<noteq> WAITING_TO_START"
    and "k < ntasks s" and "status_of s k = WAITING" and "card (queue_before s k) < length rs"
  shows "\<exists>t. timer_ticks rs s = Inr t \<and> (\<exists>s' \<in> set t. status_of s' k = RUNNING)"
proof -
  have "ready b s" using assms by (simp add: ready_def idle_below_def)
  then have "holds (timer_ticks rs s) (\<lambda>t. \<exists>s' \<in> set t. status_of s' k = RUNNING)"
    by (rule timer_ticks_reach) (use assms in \<open>simp_all add: all_started_def\<close>)
  then show ?thesis by (auto elim!: holdsE)
qed

text \<open>
  C39: \<open>createNewTask\<close> on a table with a free entry (\<open>kernelStack\<close> 0) fills the first one, once
  its allocations have returned: waiting to start, in the new address space, on the top of the new
  kernel stack. On a full table \<open>krealloc\<close> enlarges the table, but \<open>index\<close> stays \<open>-1\<close>: the task is not stored
  in any entry of it, the store goes to \<open>tasks[-1]\<close>, in front of the table, which the model reports as \<open>OutOfBounds\<close>
  (the kernel overwrites the memory there, counts the task and returns).
\<close>

theorem createNewTask_cases:
  fixes s :: "'a sched_state_scheme"
  assumes "length (tasks s) = unat (maxNumberOfTasks s)" and "length (tasks s) < 2 ^ 48"
  shows "if \<exists>k < length (tasks s). kernelStack (tasks s ! k) = 0
    then \<forall>space s1 thr s2 p s3. createNewAddressSpace pages 7 s = Inr (space, s1) \<longrightarrow>
      kmalloc 2160 s1 = Inr (thr, s2) \<longrightarrow> physicalPageAlloc 2 s2 = Inr (p, s3) \<longrightarrow>
      (\<exists>k < length (tasks s). kernelStack (tasks s ! k) = 0 \<and> (\<forall>j < k. kernelStack (tasks s ! j) \<noteq> 0) \<and>
        createNewTask fresh freshThreads junk ss stack cs entryAddr pages s =
          Inr (s3\<lparr>tasks := (tasks s)[k := \<lparr>status = WAITING_TO_START, pml4Index = space,
              t_regs = junk\<lparr>rsp := stack, r_ss := ucast ss, r_cs := ucast cs\<rparr>,
              threads = map freshThreads [0..<10], threadsAddr = thr,
              kernelStack = p + 0x2000 + HIGH_VMA, entryPoint = entryAddr, idleTime = 0,
              numberOfThreads = 0, maxNumberOfThreads = 10\<rparr>],
            numberOfTasks := numberOfTasks s + 1\<rparr>))
    else \<forall>a s0 space s1 thr s2 p s3. krealloc (tasksAddr s) 2480 s = Inr (a, s0) \<longrightarrow>
      createNewAddressSpace pages 7 (s0\<lparr>tasksAddr := a, tasks := resized_object 248 2480 fresh (tasks s0),
        maxNumberOfTasks := maxNumberOfTasks s0 + 10\<rparr>) = Inr (space, s1) \<longrightarrow>
      kmalloc 2160 s1 = Inr (thr, s2) \<longrightarrow> physicalPageAlloc 2 s2 = Inr (p, s3) \<longrightarrow>
      createNewTask fresh freshThreads junk ss stack cs entryAddr pages s = Inl OutOfBounds"
proof (cases "\<exists>k < length (tasks s). kernelStack (tasks s ! k) = 0")
  case True
  define k where "k = (LEAST k. k < length (tasks s) \<and> kernelStack (tasks s ! k) = 0)"
  have k: "k < length (tasks s) \<and> kernelStack (tasks s ! k) = 0"
    unfolding k_def by (rule LeastI_ex) (use True in blast)
  have first: "kernelStack (tasks s ! j) \<noteq> 0" if "j < k" for j
    using not_less_Least [of j "\<lambda>k. k < length (tasks s) \<and> kernelStack (tasks s ! k) = 0"] that k
    by (auto simp: k_def)
  have find: "findFreeIndex s = Inr (of_nat k)"
    by (rule findFreeIndex_hit) (use assms k first in auto)
  have nk: "(of_nat k :: u64) \<noteq> - 1" "unat (of_nat k :: u64) = k"
    using assms(2) k by (simp_all add: not_max unat_of_nat_u64)
  have flags: "push_bit 2 1 OR 3 = (7 :: u64)" by code_simp
  show ?thesis
    unfolding if_P [OF True]
  proof (intro allI impI exI [of _ k] conjI, goal_cases)
    case (4 space s1 thr s2 p s3)
    have "tasks s3 = tasks s" "numberOfTasks s3 = numberOfTasks s"
      using 4 by (auto dest!: tasks_frame)
    then show ?case
      unfolding createNewTask_def find
      using 4 k nk flags by (simp add: store_def fresh_object_def Let_def)
  qed (use k first in auto)
next
  case False
  then have "\<forall>j < unat (maxNumberOfTasks s). kernelStack (tasks s ! j) \<noteq> 0" using assms(1) by simp
  from createNewTask_full [OF assms this] show ?thesis
    unfolding if_not_P [OF False] by blast
qed

section \<open>Witnesses\<close>

definition zero_regs :: regs_t where
  "zero_regs = \<lparr>r15 = 0, r14 = 0, r13 = 0, r12 = 0, r11 = 0, r10 = 0, r9 = 0, r8 = 0, rsi = 0, rdi = 0,
     rbp = 0, rdx = 0, rcx = 0, rbx = 0, rax = 0, r_core = 0, isrNumber = 32, errorCode = 0, rip = 0,
     r_cs = 8, rflags = 0, rsp = 0, r_ss = 16\<rparr>"

definition example_task :: "u8 \<Rightarrow> u64 \<Rightarrow> u64 \<Rightarrow> u64 \<Rightarrow> task_t" where
  "example_task st space stack idle = \<lparr>status = st, pml4Index = space, t_regs = zero_regs, threads = [],
     threadsAddr = 0x9000, kernelStack = stack, entryPoint = 0x7000, idleTime = idle,
     numberOfThreads = 0, maxNumberOfThreads = 10\<rparr>"

definition example_thread :: thread_t where
  "example_thread = \<lparr>th_status = 0, th_regs = zero_regs, th_kernelStack = 0, th_entryPoint = 0, th_idleTime = 0\<rparr>"

text \<open>One core that runs task 0, and two waiting tasks of which task 2 has waited longer.\<close>

definition example_sched :: sched_state where
  "example_sched = desc_state.extend (example_desc\<lparr>
       pageDirectoryTables := [\<lparr>d_pml4 = 0x5000, d_pml3 = 0, d_pml2 = 0, d_pml1 = 0, d_flags = 7\<rparr>],
       pageDirectoryCount := 1\<rparr>)
     \<lparr>cpuInfo = [\<lparr>coreID = 0, c_numberOfTasks = 0, currentTask = 0\<rparr>], cpuInfoAddr = 0x3000,
      tasks = [example_task RUNNING 0 0x4000 0, example_task WAITING 0 0x5000 1,
        example_task WAITING 0 0x6000 7],
      tasksAddr = 0x8000, numberOfTasks = 3, maxNumberOfTasks = 3, schedulerLock = False\<rparr>"

lemma all_below_3: "(\<forall>k < 3. P k) \<longleftrightarrow> P 0 \<and> P 1 \<and> P (2 :: nat)"
  by (auto simp: less_Suc_eq numeral_3_eq_3 numeral_2_eq_2)

lemma example_sched_sizes: "ntasks example_sched = 3" "ncores example_sched = 1"
  by (simp_all add: ntasks_def ncores_def example_sched_def desc_state.defs)

lemma example_sched_ok: "sched_ok example_sched" "spaces_ok example_sched"
    "\<forall>j < ntasks example_sched. unat (idleTime (tasks example_sched ! j)) < 8"
    "\<forall>j < ntasks example_sched. status_of example_sched j \<noteq> WAITING_TO_START"
    "status_of example_sched 1 = WAITING"
  unfolding sched_ok_def spaces_ok_def example_sched_sizes all_below_3
  by (simp_all add: status_of_def current_def example_sched_def desc_state.defs example_task_def
      all_below_3 example_desc_def pci_state.defs)

lemma example_queue: "queue_before example_sched 1 = {2}"
proof -
  have "j = 2" if "j < 3" "waits (tasks example_sched) j" "before (tasks example_sched) j 1" for j
  proof -
    have "j = 0 \<or> j = 1 \<or> j = 2" using that(1) by auto
    then show ?thesis
      using that(2,3) by (auto simp: waits_def before_def example_sched_def desc_state.defs example_task_def)
  qed
  then show ?thesis
    by (auto simp: queue_before_def example_sched_sizes)
      (auto simp: waits_def before_def example_sched_def desc_state.defs example_task_def)
qed

theorem schedulerMain_switches_witness:
  "\<exists>r s' next. schedulerMain zero_regs example_sched = Inr (r, s') \<and> scheduled zero_regs example_sched r s' next"
proof (rule schedulerMain_switches [OF example_sched_ok(1,2)])
  show "unat (r_core zero_regs) < ncores example_sched" by (simp add: example_sched_sizes zero_regs_def)
  show "\<forall>j < ntasks example_sched. idleTime (tasks example_sched ! j) \<noteq> - 1"
    unfolding example_sched_sizes all_below_3
    by (simp add: example_sched_def desc_state.defs example_task_def)
qed

theorem one_core_per_task_witness:
  "\<exists>t. timer_ticks [zero_regs, zero_regs, zero_regs] example_sched = Inr t \<and> (\<forall>s' \<in> set t. \<not> schedulerLock s')"
  using one_core_per_task [OF example_sched_ok(1,2), of "[zero_regs, zero_regs, zero_regs]" 8] example_sched_ok(3)
  by (auto simp: example_sched_sizes zero_regs_def)

theorem waiting_bounded_witness:
  "\<exists>t. timer_ticks [zero_regs, zero_regs] example_sched = Inr t \<and> (\<exists>s' \<in> set t. status_of s' 1 = RUNNING)"
proof (rule waiting_bounded [OF example_sched_ok(1,2) _ example_sched_ok(3) _ example_sched_ok(4) _ example_sched_ok(5)])
  show "\<forall>r \<in> set [zero_regs, zero_regs]. unat (r_core r) < ncores example_sched"
    by (simp add: example_sched_sizes zero_regs_def)
  show "card (queue_before example_sched 1) < length [zero_regs, zero_regs]"
    by (simp only: example_queue) simp
qed (simp_all add: example_sched_sizes)

text \<open>The calls of \<open>createNewTask\<close> return when the heap and the pages are in order.\<close>

lemma new_task_calls:
  fixes s :: sched_state
  assumes heap: "heap_ok s" "console_ready s" "\<not> {..<32768} \<subseteq> bits (kbitmap s)" "\<exists>e \<in> set (allocationBitmap s). a_size e = 0"
    and pages: "page_runs_ok s []" "findFirstFreeSlot s = Inr 0" "pageDirectoryTables s \<noteq> []"
  shows "\<exists>space s1 thr s2 p s3. createNewAddressSpace 2 7 s = Inr (space, s1) \<and> kmalloc 2160 s1 = Inr (thr, s2) \<and>
    physicalPageAlloc 2 s2 = Inr (p, s3)"
proof -
  have "holds (createNewAddressSpace 2 7 s) (\<lambda>(i, s'). vmm_changed s s' \<and> page_runs_ok s' [])"
    by (rule createNewAddressSpace_changes [OF pages(1,2)]) (use pages(3) in \<open>simp_all add: bit_7_iff\<close>)
  then obtain space s1 where s1: "createNewAddressSpace 2 7 s = Inr (space, s1)" "vmm_changed s s1" "page_runs_ok s1 []"
    by (auto elim!: holdsE)
  obtain bm m ds where "s1 = s\<lparr>bitmap := bm, mem := m, pageDirectoryTables := ds\<rparr>"
    using s1(2) unfolding vmm_changed_def by blast
  then have "heap_ok s1" "console_ready s1" "kbitmap s1 = kbitmap s" "allocationBitmap s1 = allocationBitmap s"
    using heap(1,2) by (simp_all add: heap_ok_def console_ready_def)
  then have "holds (kmalloc 2160 s1) (\<lambda>(a, s'). heap_ok s' \<and> console_ready s' \<and> heap_changed s1 s')"
    using heap(3,4) by (intro kmalloc_changes) simp_all
  then obtain thr s2 where s2: "kmalloc 2160 s1 = Inr (thr, s2)" "heap_changed s1 s2" by (auto elim!: holdsE)
  then have "page_runs_ok s2 []"
    using s1(3) by (auto simp: heap_changed_def page_runs_ok_def pmm_ok_def npages_def)
  then obtain p s3 where "physicalPageAlloc 2 s2 = Inr (p, s3)"
    using physicalPageAlloc_fit [of s2 2] by (auto elim!: holdsE)
  then show ?thesis using s1(1) s2(1) by blast
qed

text \<open>A table of three tasks in an allocation of eight blocks at block 8, with 24 pages of memory; the kernel stack of
  the second task is a parameter: 0 for a free entry.\<close>

definition example_tasks :: "u64 \<Rightarrow> sched_state" where
  "example_tasks stack = example_sched\<lparr>bitmap := [1, 0, 0], totalDetectedMemory := 0x18000, pageAllocLock := False,
     kprintDSLock := False, itobBuffer := replicate 50 NUL,
     kbitmap := kbitmap (example_live 1), kbitmapSize := 32768,
     allocationBitmap := allocationBitmap (example_live 1), allocationBitmapSize := 262144,
     pageDirectoryTables := replicate 2 zero_directory, pageDirectoryCount := 2,
     tasks := [example_task RUNNING 0 0x4000 0, example_task WAITING 0 stack 1, example_task WAITING 0 0x6000 7],
     tasksAddr := 32 * 8 + kHeapBegin example_sched + HIGH_VMA\<rparr>"

lemma example_tasks_ok:
  "heap_ok (example_tasks a)" "console_ready (example_tasks a)" "page_runs_ok (example_tasks a) []"
  "findFirstFreeSlot (example_tasks a) = Inr 0" "pageDirectoryTables (example_tasks a) = replicate 2 zero_directory"
  "bits (kbitmap (example_tasks a)) = {8..<16}" "allocationBitmap (example_tasks a) ! 1 = \<lparr>a_block = 8, a_size = 8\<rparr>"
  "allocationBitmap (example_tasks a) ! 0 = \<lparr>a_block = 0, a_size = 0\<rparr>"
  "length (tasks (example_tasks a)) = unat (maxNumberOfTasks (example_tasks a))" "length (tasks (example_tasks a)) < 2 ^ 48"
  "kernelStack (tasks (example_tasks a) ! 0) = 0x4000" "kernelStack (tasks (example_tasks a) ! 1) = a"
  "kernelStack (tasks (example_tasks a) ! 2) = 0x6000" "length (tasks (example_tasks a)) = 3"
proof -
  show "heap_ok (example_tasks a)" "bits (kbitmap (example_tasks a)) = {8..<16}"
    "allocationBitmap (example_tasks a) ! 1 = \<lparr>a_block = 8, a_size = 8\<rparr>"
    using example_live_ok [of 1] by (simp_all add: example_tasks_def heap_ok_def)
  show "allocationBitmap (example_tasks a) ! 0 = \<lparr>a_block = 0, a_size = 0\<rparr>"
    by (simp add: example_tasks_def example_live_def)
  show "findFirstFreeSlot (example_tasks a) = Inr 0"
    by (simp add: findFirstFreeSlot_def example_tasks_def search_def for_u64_step search_body_def fetch_def zero_directory_def)
  have "0 \<in> bits [1, 0, 0 :: u8]" by (simp add: in_bits_iff)
  then show "page_runs_ok (example_tasks a) []"
    by (simp add: example_tasks_def page_runs_ok_def pmm_ok_def npages_def unat_div runs_marked_def example_sched_def
        desc_state.defs example_desc_def pci_state.defs example_pci_def)
qed (simp_all add: example_tasks_def example_sched_def desc_state.defs example_desc_def pci_state.defs example_task_def console_ready_def)

lemma example_tasks_full:
  "\<exists>a s0. krealloc (tasksAddr (example_tasks 0x5000)) 2480 (example_tasks 0x5000) = Inr (a, s0) \<and>
     heap_ok s0 \<and> moved 1 (example_tasks 0x5000) s0 \<and> bits (kbitmap s0) = {0..<78}"
proof -
  let ?s = "example_tasks 0x5000" and ?e = "\<lparr>a_block = 8, a_size = 8\<rparr> :: allocation_t"
  note e = example_tasks_ok(7) [of "0x5000"]
  have addr: "tasksAddr ?s = block_addr ?s (unat (a_block ?e))"
    by (simp add: block_addr_def example_tasks_def)
  have q: "78 = unat (ROUNDUP (ucast (a_size ?e) + 2480) 32)" by (simp add: ROUNDUP_def)
  have fit: "first_fit (bits (kbitmap ?s) - entry_blocks ?e) 32768 78 = Some 0"
    by (simp add: example_tasks_ok entry_blocks_def first_fit_empty)
  have "a_block (allocationBitmap ?s ! 1) \<noteq> 0" by (simp only: e) simp
  from krealloc_holds [OF example_tasks_ok(1,2) _ this e [symmetric] q fit] show ?thesis
    unfolding addr by (auto simp: example_tasks_ok entry_blocks_def elim!: holdsE)
qed

lemma free_entry_moved:
  assumes "moved 1 s s'" and "allocationBitmap s ! 0 = \<lparr>a_block = 0, a_size = 0\<rparr>" and "1 < length (allocationBitmap s)"
  shows "\<exists>e \<in> set (allocationBitmap s'). a_size e = 0"
proof -
  obtain j e where tab: "allocationBitmap s' = (allocationBitmap s)[1 := \<lparr>a_block = 0, a_size = 0\<rparr>, j := e]"
    using assms(1) by (auto simp: moved_def)
  let ?i = "if j = 0 then 1 else 0 :: nat"
  have "?i < length (allocationBitmap s')" "a_size (allocationBitmap s' ! ?i) = 0"
    unfolding tab using assms(2,3) by (auto simp: nth_list_update)
  then show ?thesis using nth_mem by blast
qed

theorem createNewTask_cases_witness:
  "(\<exists>s'. createNewTask (\<lambda>_. example_task 0 0 0 0) (\<lambda>_. example_thread) zero_regs 0x23 0x1000 0x1b 0x7000 2 (example_tasks 0) = Inr s' \<and>
      status (tasks s' ! 1) = WAITING_TO_START \<and> entryPoint (tasks s' ! 1) = 0x7000) \<and>
   createNewTask (\<lambda>_. example_task 0 0 0 0) (\<lambda>_. example_thread) zero_regs 0x23 0x1000 0x1b 0x7000 2 (example_tasks 0x5000) = Inl OutOfBounds"
proof (rule conjI)
  have below_3: "k = 0 \<or> k = 1 \<or> k = 2" if "k < 3" for k :: nat using that by auto
  let ?s = "example_tasks 0" and ?f = "example_tasks 0x5000" and ?fresh = "\<lambda>_ :: nat. example_task 0 0 0 0"
  have empty: "\<not> {..<32768 :: nat} \<subseteq> {8..<16}" "\<not> {..<32768 :: nat} \<subseteq> {0..<78}"
    by (auto simp: subset_iff intro: exI [of _ 100])
  have len: "1 < length (allocationBitmap (example_tasks a))" for a
    using example_tasks_ok(1) [of a] by (simp add: heap_ok_def table_ok_def)
  have entry0: "\<exists>e \<in> set (allocationBitmap ?s). a_size e = 0"
    using example_tasks_ok(8) [of 0] len [of 0] by (metis nth_mem allocation_t.select_convs(2) less_trans zero_less_one)
  obtain space s1 thr s2 p s3 where calls: "createNewAddressSpace 2 7 ?s = Inr (space, s1)"
    "kmalloc 2160 s1 = Inr (thr, s2)" "physicalPageAlloc 2 s2 = Inr (p, s3)"
    using new_task_calls [OF example_tasks_ok(1,2) empty(1)[folded example_tasks_ok(6) [of 0]] entry0 example_tasks_ok(3,4)]
      example_tasks_ok(5) [of 0] by auto
  have three: "k = 1" if "k < 3" "kernelStack (tasks ?s ! k) = 0" for k
    using below_3 [OF that(1)] that(2) example_tasks_ok(11,13) [of 0] by (elim disjE) simp_all
  have free: "\<exists>k < length (tasks ?s). kernelStack (tasks ?s ! k) = 0"
    unfolding example_tasks_ok(14) using example_tasks_ok(12) [of 0] by (intro exI [of _ 1]) simp
  from createNewTask_cases [OF example_tasks_ok(9,10), of 0 2 ?fresh "\<lambda>_. example_thread" zero_regs "0x23" "0x1000" "0x1b" "0x7000",
      unfolded if_P [OF free], rule_format, OF calls]
  show "\<exists>s'. createNewTask ?fresh (\<lambda>_. example_thread) zero_regs 0x23 0x1000 0x1b 0x7000 2 ?s = Inr s' \<and>
      status (tasks s' ! 1) = WAITING_TO_START \<and> entryPoint (tasks s' ! 1) = 0x7000"
    using three example_tasks_ok(14) [of 0] by (auto simp: nth_list_update)
  obtain a s0 where re: "krealloc (tasksAddr ?f) 2480 ?f = Inr (a, s0)" "heap_ok s0" "moved 1 ?f s0" "bits (kbitmap s0) = {0..<78}"
    using example_tasks_full by blast
  let ?t = "s0\<lparr>tasksAddr := a, tasks := resized_object 248 2480 ?fresh (tasks s0), maxNumberOfTasks := maxNumberOfTasks s0 + 10\<rparr>"
  have t: "heap_ok ?t" "bits (kbitmap ?t) = {0..<78}" "\<exists>e \<in> set (allocationBitmap ?t). a_size e = 0"
    using re(2,4) free_entry_moved [OF re(3) example_tasks_ok(8) len] by (simp_all add: heap_ok_def)
  have r: "console_ready ?t" "page_runs_ok ?t []" "findFirstFreeSlot ?t = findFirstFreeSlot ?f" "pageDirectoryTables ?t = pageDirectoryTables ?f"
    using re(3) example_tasks_ok(2,3) [of "0x5000"]
    by (auto simp: moved_def console_ready_def page_runs_ok_def pmm_ok_def npages_def findFirstFreeSlot_def)
  have slot: "findFirstFreeSlot ?t = Inr 0" "pageDirectoryTables ?t \<noteq> []"
    unfolding r(3,4) example_tasks_ok(4,5) by simp_all
  obtain space s1 thr s2 p s3 where full: "createNewAddressSpace 2 7 ?t = Inr (space, s1)"
    "kmalloc 2160 s1 = Inr (thr, s2)" "physicalPageAlloc 2 s2 = Inr (p, s3)"
    using new_task_calls [OF t(1) r(1) empty(2)[folded t(2)] t(3) r(2) slot] by blast
  have "kernelStack (tasks ?f ! k) \<noteq> 0" if "k < 3" for k
    using below_3 [OF that] example_tasks_ok(11-13) [of "0x5000"] by (elim disjE) simp_all
  then have none: "\<not> (\<exists>k < length (tasks ?f). kernelStack (tasks ?f ! k) = 0)" unfolding example_tasks_ok(14) by blast
  show "createNewTask ?fresh (\<lambda>_. example_thread) zero_regs 0x23 0x1000 0x1b 0x7000 2 ?f = Inl OutOfBounds"
    by (rule createNewTask_cases [OF example_tasks_ok(9,10), of "0x5000" 2 ?fresh, unfolded if_not_P [OF none], rule_format, OF re(1) full])
qed

end
