(* ===== verification/Acpi.thy ===== *)
theory Acpi
  imports Scheduler
begin

text \<open>
  The tables of the firmware: \<^verbatim>\<open>kernel/acpi/rsdp.c\<close> (the search for a table by its signature),
  \<^verbatim>\<open>kernel/acpi/madt.c\<close> (the interrupt controllers) and \<^verbatim>\<open>kernel/sched/hpet.c\<close> (the timer).
  The tables are packed structures in memory the firmware wrote: \<open>firmware s\<close> is that memory, byte
  by byte, \<open>None\<close> where nothing is mapped; a field is read at its offset. The memory is not assumed
  to be well formed: that is a hypothesis of the theorems that need it.
\<close>

type_synonym bytes = "u64 \<Rightarrow> u8 option"

section \<open>Structures in memory\<close>

text \<open>A little endian integer of \<open>k\<close> bytes.\<close>

primrec fw_read :: "nat \<Rightarrow> u64 \<Rightarrow> bytes \<Rightarrow> u64 result" where
  "fw_read 0 a m = Inr 0"
| "fw_read (Suc k) a m =
     (case m a of
        None \<Rightarrow> Inl OutOfBounds
      | Some b \<Rightarrow> and_then (fw_read k (a + 1) m) (\<lambda>hi. Inr (push_bit 8 hi OR ucast b)))"

primrec fw_chars :: "nat \<Rightarrow> u64 \<Rightarrow> bytes \<Rightarrow> string result" where
  "fw_chars 0 a m = Inr []"
| "fw_chars (Suc k) a m =
     (case m a of
        None \<Rightarrow> Inl OutOfBounds
      | Some b \<Rightarrow> and_then (fw_chars k (a + 1) m) (\<lambda>cs. Inr (char_of (unat b) # cs)))"

text \<open>The offsets of the fields that are read, and \<open>sizeof(acpihdr_t)\<close>.\<close>

definition acpihdr_length :: u64 where [simp]: "acpihdr_length = 4"
definition sizeof_acpihdr :: u64 where [simp]: "sizeof_acpihdr = 4 + 4 + 1 + 1 + 6 + 8 + 4 + 4 + 4"
definition rsdp_rsdtAddr :: u64 where [simp]: "rsdp_rsdtAddr = 8 + 1 + 6 + 1"
definition rsdp_xsdtAddr :: u64 where [simp]: "rsdp_xsdtAddr = 8 + 1 + 6 + 1 + 4 + 4"
definition madt_lapicAddr :: u64 where [simp]: "madt_lapicAddr = sizeof_acpihdr"
definition madt_entries :: u64 where [simp]: "madt_entries = sizeof_acpihdr + 4 + 4"
definition hpetTable_address :: u64 where [simp]: "hpetTable_address = sizeof_acpihdr + 1 + 1 + 2 + 1 + 1 + 1 + 1"
definition hpet_generalConfig :: u64 where [simp]: "hpet_generalConfig = 8 + 8"
definition hpet_counterValue :: u64 where [simp]: "hpet_counterValue = 6 * 8 + 24 * 8"

record madtEntry0_t =
  acpiProcessorID :: u8
  apicID :: u8
  e0_flags :: u32

record madtEntry1_t =
  ioapicID :: u8
  e1_reserved :: u8
  ioapicAddr :: u32
  gsiBase :: u32

record madtEntry2_t =
  busSrc :: u8
  irqSrc :: u8
  e2_gsi :: u32
  e2_flags :: u16

record madtEntry4_t =
  e4_acpiProcessorID :: u8
  e4_flags :: u16
  lint :: u8

record madtEntry5_t =
  e5_reserved :: u16
  lapicOverride :: u8

text \<open>The arrays stand for the objects the pointers of the structure point to.\<close>

record madtInfo_t =
  madtEntry0Count :: u8
  madtEntry1Count :: u8
  madtEntry2Count :: u8
  madtEntry4Count :: u8
  madtEntry5Count :: u8
  madtEntry0 :: "madtEntry0_t list"
  madtEntry1 :: "madtEntry1_t list"
  madtEntry2 :: "madtEntry2_t list"
  madtEntry4 :: "madtEntry4_t list"
  madtEntry5 :: "madtEntry5_t list"
  lapicAddr :: u32

record acpi_state = sched_state +
  firmware :: bytes
  rsdp :: u64
  rsdt :: u64
  xsdt :: u64
  madtInfo :: madtInfo_t
  hpetTable :: u64
  hpet :: u64

section \<open>rsdp.c\<close>

text \<open>\<open>rsdtAddr\<close> is at offset 16 of the packed \<open>rsdp_t\<close>, \<open>xsdtAddr\<close> at offset 24.\<close>

definition rsdpInit :: "u64 \<Rightarrow> 'a acpi_state_scheme \<Rightarrow> 'a acpi_state_scheme result" where
  "rsdpInit rsdpAddr s0 =
     (let s = s0\<lparr>rsdp := rsdpAddr\<rparr> in
      and_then (fw_read 8 (rsdp s + rsdp_xsdtAddr) (firmware s)) (\<lambda>xsdtAddr.
      if xsdtAddr \<noteq> 0 then
        let s = s\<lparr>xsdt := xsdtAddr\<rparr> in
        kprintDS (cstr ''[ACPI]'') (cstr ''xsdt located at %x'') [VaLong (xsdt s)] s
      else
        and_then (fw_read 4 (rsdp s + rsdp_rsdtAddr) (firmware s)) (\<lambda>rsdtAddr.
        if rsdtAddr \<noteq> 0 then
          let s = s\<lparr>rsdt := rsdtAddr + HIGH_VMA\<rparr> in
          kprintDS (cstr ''[ACPI]'') (cstr ''rsdt located at %x'') [VaLong (rsdt s)] s
        else Inr s)))"

text \<open>The loop of \<open>findSDT\<close> over a table whose pointers are \<open>width\<close> bytes wide and start at offset
  36, \<open>sizeof(acpihdr_t)\<close>. The bound is the number of bytes after the header.\<close>

definition sdt_probe :: "nat \<Rightarrow> u64 \<Rightarrow> string \<Rightarrow> bytes \<Rightarrow> u64 \<Rightarrow> (unit, u64) flow result" where
  "sdt_probe width tab signature m i =
     and_then (fw_read width (tab + sizeof_acpihdr + of_nat width * i) m) (\<lambda>p.
     let acpihdr = p + HIGH_VMA in
     and_then (fw_chars 4 acpihdr m) (\<lambda>sig.
     and_then (strncmp sig signature 4) (\<lambda>r. Inr (if r = 0 then Exit acpihdr else Next ()))))"

definition sdt_loop :: "nat \<Rightarrow> u64 \<Rightarrow> string \<Rightarrow> bytes \<Rightarrow> (unit, u64) flow result" where
  "sdt_loop width tab signature m =
     and_then (fw_read 4 (tab + acpihdr_length) m) (\<lambda>len.
       for_u64 (\<lambda>i _. sdt_probe width tab signature m i) 0 (len - sizeof_acpihdr) ())"

definition findSDT :: "string \<Rightarrow> 'a acpi_state_scheme \<Rightarrow> (u64 \<times> 'a acpi_state_scheme) result" where
  "findSDT signature s =
     (let found = (\<lambda>acpihdr. and_then (kprintDS (cstr ''[ACPI]'') (cstr ''%s located at %x'')
            [VaStr signature, VaLong acpihdr] s) (\<lambda>s. Inr (acpihdr, s)));
          lost = and_then (kprintDS (cstr ''[ACPI]'') (cstr ''%s could not be found :('')
            [VaStr signature] s) (\<lambda>s. Inr (0, s)) in
      and_then (if xsdt s \<noteq> 0 then sdt_loop 8 (xsdt s) signature (firmware s) else Inr (Next ())) (\<lambda>f.
      case f of
        Exit acpihdr \<Rightarrow> found acpihdr
      | Next _ \<Rightarrow>
          and_then (if rsdt s \<noteq> 0 then sdt_loop 4 (rsdt s) signature (firmware s) else Inr (Next ())) (\<lambda>f.
          case f of Exit acpihdr \<Rightarrow> found acpihdr | Next _ \<Rightarrow> lost)))"

section \<open>madt.c\<close>

definition read_entry0 :: "u64 \<Rightarrow> bytes \<Rightarrow> madtEntry0_t result" where
  "read_entry0 a m =
     and_then (fw_read 1 a m) (\<lambda>p. and_then (fw_read 1 (a + 1) m) (\<lambda>i. and_then (fw_read 4 (a + 2) m) (\<lambda>fl.
       Inr \<lparr>acpiProcessorID = ucast p, apicID = ucast i, e0_flags = ucast fl\<rparr>)))"

definition read_entry1 :: "u64 \<Rightarrow> bytes \<Rightarrow> madtEntry1_t result" where
  "read_entry1 a m =
     and_then (fw_read 1 a m) (\<lambda>i. and_then (fw_read 1 (a + 1) m) (\<lambda>r. and_then (fw_read 4 (a + 2) m) (\<lambda>ad.
     and_then (fw_read 4 (a + 6) m) (\<lambda>g.
       Inr \<lparr>ioapicID = ucast i, e1_reserved = ucast r, ioapicAddr = ucast ad, gsiBase = ucast g\<rparr>))))"

definition read_entry2 :: "u64 \<Rightarrow> bytes \<Rightarrow> madtEntry2_t result" where
  "read_entry2 a m =
     and_then (fw_read 1 a m) (\<lambda>b. and_then (fw_read 1 (a + 1) m) (\<lambda>i. and_then (fw_read 4 (a + 2) m) (\<lambda>g.
     and_then (fw_read 2 (a + 6) m) (\<lambda>fl.
       Inr \<lparr>busSrc = ucast b, irqSrc = ucast i, e2_gsi = ucast g, e2_flags = ucast fl\<rparr>))))"

definition read_entry4 :: "u64 \<Rightarrow> bytes \<Rightarrow> madtEntry4_t result" where
  "read_entry4 a m =
     and_then (fw_read 1 a m) (\<lambda>p. and_then (fw_read 2 (a + 1) m) (\<lambda>fl. and_then (fw_read 1 (a + 3) m) (\<lambda>l.
       Inr \<lparr>e4_acpiProcessorID = ucast p, e4_flags = ucast fl, lint = ucast l\<rparr>)))"

definition read_entry5 :: "u64 \<Rightarrow> bytes \<Rightarrow> madtEntry5_t result" where
  "read_entry5 a m =
     and_then (fw_read 2 a m) (\<lambda>r. and_then (fw_read 1 (a + 2) m) (\<lambda>l.
       Inr \<lparr>e5_reserved = ucast r, lapicOverride = ucast l\<rparr>))"

text \<open>The \<open>switch\<close>: \<open>a\<close> is the address after the type and the size of the entry.\<close>

definition add_entry :: "u64 \<Rightarrow> u64 \<Rightarrow> bytes \<Rightarrow> madtInfo_t \<Rightarrow> madtInfo_t result" where
  "add_entry entryType a m info =
     (if entryType = 0 then
        and_then (read_entry0 a m) (\<lambda>e.
        and_then (store (madtEntry0 info) (ucast (madtEntry0Count info)) e) (\<lambda>es.
          Inr (info\<lparr>madtEntry0Count := madtEntry0Count info + 1, madtEntry0 := es\<rparr>)))
      else if entryType = 1 then
        and_then (read_entry1 a m) (\<lambda>e.
        and_then (store (madtEntry1 info) (ucast (madtEntry1Count info)) e) (\<lambda>es.
          Inr (info\<lparr>madtEntry1Count := madtEntry1Count info + 1, madtEntry1 := es\<rparr>)))
      else if entryType = 2 then
        and_then (read_entry2 a m) (\<lambda>e.
        and_then (store (madtEntry2 info) (ucast (madtEntry2Count info)) e) (\<lambda>es.
          Inr (info\<lparr>madtEntry2Count := madtEntry2Count info + 1, madtEntry2 := es\<rparr>)))
      else if entryType = 4 then
        and_then (read_entry4 a m) (\<lambda>e.
        and_then (store (madtEntry4 info) (ucast (madtEntry4Count info)) e) (\<lambda>es.
          Inr (info\<lparr>madtEntry4Count := madtEntry4Count info + 1, madtEntry4 := es\<rparr>)))
      else if entryType = 5 then
        and_then (read_entry5 a m) (\<lambda>e.
        and_then (store (madtEntry5 info) (ucast (madtEntry5Count info)) e) (\<lambda>es.
          Inr (info\<lparr>madtEntry5Count := madtEntry5Count info + 1, madtEntry5 := es\<rparr>)))
      else Inr info)"

text \<open>The loop over the entries, which start at \<open>a\<close> and take \<open>n\<close> bytes: it adds \<open>entrySize\<close> to \<open>i\<close>
  in each round, so it need not end; the fuel bounds the rounds.\<close>

primrec madt_loop :: "nat \<Rightarrow> u64 \<Rightarrow> u64 \<Rightarrow> bytes \<Rightarrow> u64 \<Rightarrow> madtInfo_t \<Rightarrow> madtInfo_t result" where
  "madt_loop 0 a n m i info = Inl OutOfFuel"
| "madt_loop (Suc fuel) a n m i info =
     (if i < n then
        and_then (fw_read 1 (a + i) m) (\<lambda>entryType.
        and_then (fw_read 1 (a + i + 1) m) (\<lambda>entrySize.
        and_then (add_entry entryType (a + i + 2) m info) (\<lambda>info.
          madt_loop fuel a n m (i + 2 + (entrySize - 3) + 1) info)))
      else Inr info)"

text \<open>\<open>fresh\<close> is what the five arrays of fifty entries contain when \<open>kmalloc\<close> returns them.\<close>

definition madtInit :: "nat \<Rightarrow> madtInfo_t \<Rightarrow> 'a acpi_state_scheme \<Rightarrow> 'a acpi_state_scheme result" where
  "madtInit fuel fresh s =
     and_then (findSDT (cstr ''APIC'') s) (\<lambda>(madt, s).
     and_then (fw_read 4 (madt + madt_lapicAddr) (firmware s)) (\<lambda>lapic.
     and_then (kmalloc (6 * 50) s) (\<lambda>(_, s).
     and_then (kmalloc (10 * 50) s) (\<lambda>(_, s).
     and_then (kmalloc (8 * 50) s) (\<lambda>(_, s).
     and_then (kmalloc (4 * 50) s) (\<lambda>(_, s).
     and_then (kmalloc (3 * 50) s) (\<lambda>(_, s).
     let info = (madtInfo s)\<lparr>lapicAddr := ucast lapic, madtEntry0 := madtEntry0 fresh,
           madtEntry1 := madtEntry1 fresh, madtEntry2 := madtEntry2 fresh,
           madtEntry4 := madtEntry4 fresh, madtEntry5 := madtEntry5 fresh\<rparr> in
     and_then (fw_read 4 (madt + acpihdr_length) (firmware s)) (\<lambda>len.
     and_then (madt_loop fuel (madt + madt_entries) (len - (sizeof_acpihdr + 4 + 4)) (firmware s) 0 info) (\<lambda>info.
       kprintDS (cstr ''[ACPI]'') (cstr ''Parsing MADT'') [VaInt (ucast (madtEntry0Count info))]
         (s\<lparr>madtInfo := info\<rparr>))))))))))"

definition grabMadt :: "'a acpi_state_scheme \<Rightarrow> madtInfo_t" where
  "grabMadt s = madtInfo s"

text \<open>\<open>printMADT\<close> is not called.\<close>

definition apic_line :: "string \<Rightarrow> va_value \<Rightarrow> 'a acpi_state_scheme \<Rightarrow> 'a acpi_state_scheme result" where
  "apic_line str v = kprintDS (cstr ''[APIC]'') (cstr str) [v]"

definition printMADT :: "'a acpi_state_scheme \<Rightarrow> 'a acpi_state_scheme result" where
  "printMADT s =
     and_then (each_u64 (\<lambda>i s.
       and_then (apic_line ''Parsing madt0 entry %d'' (VaLong i) s) (\<lambda>s.
       and_then (apic_line ''Processor %ds lapic'' (VaLong i) s) (\<lambda>s.
       and_then (fetch (madtEntry0 (madtInfo s)) i) (\<lambda>e.
       and_then (apic_line ''ACPI processor ID: %x'' (VaInt (ucast (acpiProcessorID e))) s) (\<lambda>s.
       and_then (apic_line ''APIC ID: %x'' (VaInt (ucast (apicID e))) s)
       (apic_line ''Flags: %x'' (VaInt (e0_flags e))))))))
       0 (ucast (madtEntry0Count (madtInfo s))) s) (\<lambda>s.
     and_then (each_u64 (\<lambda>i s.
       and_then (apic_line ''Parsing madt1 entry %d'' (VaLong i) s) (\<lambda>s.
       and_then (fetch (madtEntry1 (madtInfo s)) i) (\<lambda>e.
       and_then (apic_line ''I/O APIC ID: %x'' (VaInt (ucast (ioapicID e))) s) (\<lambda>s.
       and_then (apic_line ''I/O APIC address: %x'' (VaInt (ioapicAddr e)) s)
       (apic_line ''GSI base %x'' (VaInt (gsiBase e)))))))
       0 (ucast (madtEntry1Count (madtInfo s))) s) (\<lambda>s.
     and_then (each_u64 (\<lambda>i s.
       and_then (apic_line ''Parsing madt2 entry %d'' (VaLong i) s) (\<lambda>s.
       and_then (fetch (madtEntry2 (madtInfo s)) i) (\<lambda>e.
       and_then (apic_line ''bus source: %x'' (VaInt (ucast (busSrc e))) s) (\<lambda>s.
       and_then (apic_line ''irq source: %x'' (VaInt (ucast (irqSrc e))) s) (\<lambda>s.
       and_then (apic_line ''gsi %x'' (VaInt (e2_gsi e)) s)
       (apic_line ''flags %x'' (VaInt (ucast (e2_flags e)))))))))
       0 (ucast (madtEntry2Count (madtInfo s))) s) (\<lambda>s.
     and_then (each_u64 (\<lambda>i s.
       and_then (apic_line ''Parsing madt4 entry %d'' (VaLong i) s) (\<lambda>s.
       and_then (fetch (madtEntry4 (madtInfo s)) i) (\<lambda>e.
       and_then (apic_line ''ACPI processor ID %x'' (VaInt (ucast (e4_acpiProcessorID e))) s) (\<lambda>s.
       and_then (apic_line ''flags %x'' (VaInt (ucast (e4_flags e))) s)
       (apic_line ''lint %x'' (VaInt (ucast (lint e))))))))
       0 (ucast (madtEntry4Count (madtInfo s))) s) (\<lambda>s.
     each_u64 (\<lambda>i s.
       and_then (apic_line ''Parsing madt5 entry %d'' (VaLong i) s) (\<lambda>s.
       and_then (fetch (madtEntry5 (madtInfo s)) i) (\<lambda>e.
       apic_line ''lapic override %x'' (VaInt (ucast (lapicOverride e))) s)))
       0 (ucast (madtEntry5Count (madtInfo s))) s))))"

section \<open>hpet.c\<close>

text \<open>\<open>address\<close> is at offset 44 of \<open>hpetTable_t\<close>; \<open>capabilities\<close>, \<open>generalConfig\<close> and \<open>counterValue\<close>
  are at offsets 0, 0x10 and 0xf0 of the device's registers.\<close>

definition initHPET :: "'a acpi_state_scheme \<Rightarrow> 'a acpi_state_scheme result" where
  "initHPET s =
     and_then (findSDT (cstr ''HPET'') s) (\<lambda>(tab, s).
     let s = s\<lparr>hpetTable := tab\<rparr> in
     and_then (fw_read 8 (hpetTable s + hpetTable_address) (firmware s)) (\<lambda>address.
     let s = mmio_write64 (address + HIGH_VMA + hpet_generalConfig) 1 s in
     and_then (fw_read 8 (hpetTable s + hpetTable_address) (firmware s)) (\<lambda>address.
       Inr (s\<lparr>hpet := address + HIGH_VMA\<rparr>))))"

definition counterValue :: "'a acpi_state_scheme \<Rightarrow> u64 \<times> 'a acpi_state_scheme" where
  "counterValue s = mmio_read64 (hpet s + hpet_counterValue) s"

definition ksleep :: "nat \<Rightarrow> u64 \<Rightarrow> 'a acpi_state_scheme \<Rightarrow> 'a acpi_state_scheme result" where
  "ksleep fuel ms s =
     (let (counter, s) = counterValue s;
          (capabilities, s) = mmio_read64 (hpet s) s;
          period = drop_bit 32 capabilities AND 0xffffffff in
      if period = 0 then Inl DivByZero
      else
        let ticks = counter + (ms * 1000000000000) div period in
        and_then (poll fuel (\<lambda>counter. \<not> counter < ticks) counterValue s) (\<lambda>(_, s). Inr s))"

section \<open>The search for a table\<close>

text \<open>What a table of \<open>n\<close> pointers holds: the addresses and the signatures of other tables.\<close>

definition sdt_entry :: "nat \<Rightarrow> u64 \<Rightarrow> bytes \<Rightarrow> nat \<Rightarrow> u64 \<Rightarrow> string \<Rightarrow> bool" where
  "sdt_entry width tab m j p sig \<longleftrightarrow>
     fw_read width (tab + 36 + of_nat width * of_nat j) m = Inr p \<and>
     fw_chars 4 (p + HIGH_VMA) m = Inr sig"

text \<open>The pointer at index \<open>j\<close>, or the signature it points to, lies in memory that is not mapped.\<close>

definition sdt_unreadable :: "nat \<Rightarrow> u64 \<Rightarrow> bytes \<Rightarrow> nat \<Rightarrow> bool" where
  "sdt_unreadable width tab m j \<longleftrightarrow>
     fw_read width (tab + 36 + of_nat width * of_nat j) m = Inl OutOfBounds \<or>
     (\<exists>p. fw_read width (tab + 36 + of_nat width * of_nat j) m = Inr p \<and> fw_chars 4 (p + HIGH_VMA) m = Inl OutOfBounds)"

lemma fw_read_None: "m a = None \<Longrightarrow> 0 < k \<Longrightarrow> fw_read k a m = Inl OutOfBounds"
  by (cases k) auto

lemma fw_chars_length: "fw_chars k a m = Inr cs \<Longrightarrow> length cs = k"
  by (induction k arbitrary: a cs) (auto simp: and_then_eq_Inr_iff split: option.splits)

lemma strncmp_4:
  assumes "length a = 4" and "length b = 4"
  shows "strncmp a (cstr b) 4 = Inr (if a = b then 0 else 1)"
proof -
  obtain a0 a1 a2 a3 where a: "a = [a0, a1, a2, a3]"
    using assms(1) by (auto simp: numeral_eq_Suc length_Suc_conv)
  obtain b0 b1 b2 b3 where b: "b = [b0, b1, b2, b3]"
    using assms(2) by (auto simp: numeral_eq_Suc length_Suc_conv)
  show ?thesis
    unfolding a b cstr_def
    by (simp add: strncmp_def for_u64_step for_u64_stop fetch_def)
qed

lemma sdt_probe_eq:
  assumes "sdt_entry width tab m j p sig" and "length s = 4"
  shows "sdt_probe width tab (cstr s) m (of_nat j) = Inr (if sig = s then Exit (p + HIGH_VMA) else Next ())"
proof -
  have "length sig = 4" using assms(1) by (auto simp: sdt_entry_def dest: fw_chars_length)
  from strncmp_4 [OF this assms(2)] show ?thesis using assms(1) by (simp add: sdt_probe_def sdt_entry_def)
qed

lemma sdt_loop_hit:
  assumes len: "fw_read 4 (tab + 4) m = Inr len" "36 \<le> len" and k: "k < unat len - 36"
    and entries: "\<forall>j \<le> k. sdt_entry width tab m j (p j) (sg j)"
    and "length sig = 4" and "sg k = sig" and "\<forall>j < k. sg j \<noteq> sig"
  shows "sdt_loop width tab (cstr sig) m = Inr (Exit (p k + HIGH_VMA))"
proof -
  have n: "unat (len - 36) = unat len - 36" using len(2) by (simp add: unat_sub)
  have probe: "sdt_probe width tab (cstr sig) m (of_nat j) = Inr (Next ())" if "j < k" for j
    using sdt_probe_eq [of width tab m j "p j" "sg j" sig] assms that by simp
  have "for_u64 (\<lambda>i _. sdt_probe width tab (cstr sig) m i) 0 (len - 36) () =
      for_u64 (\<lambda>i _. sdt_probe width tab (cstr sig) m i) (of_nat k) (len - 36) ()"
    by (rule for_u64_skip) (use probe k n in simp_all)
  also have "(of_nat k :: u64) < len - 36"
    using k unat_less_u64 [of len] by (simp add: word_less_nat_alt n unat_of_nat_u64)
  then have "for_u64 (\<lambda>i _. sdt_probe width tab (cstr sig) m i) (of_nat k) (len - 36) () =
      Inr (Exit (p k + HIGH_VMA))"
    using sdt_probe_eq [OF entries [rule_format, of k] assms(5)] assms(6) by (simp add: for_u64_step)
  finally show ?thesis by (simp add: sdt_loop_def len(1))
qed

text \<open>When none of the entries has the signature, the loop goes on behind them, as its bound is
  eight times (or four times) too large.\<close>

lemma sdt_loop_overrun:
  assumes len: "fw_read 4 (tab + 4) m = Inr len" "36 \<le> len" and k: "k < unat len - 36"
    and entries: "\<forall>j < k. sdt_entry width tab m j (p j) (sg j) \<and> sg j \<noteq> sig"
    and "length sig = 4" and behind: "sdt_unreadable width tab m k"
  shows "sdt_loop width tab (cstr sig) m = Inl OutOfBounds"
proof -
  have n: "unat (len - 36) = unat len - 36" using len(2) by (simp add: unat_sub)
  have probe: "sdt_probe width tab (cstr sig) m (of_nat j) = Inr (Next ())" if "j < k" for j
    using sdt_probe_eq [of width tab m j "p j" "sg j" sig] assms that by simp
  have "for_u64 (\<lambda>i _. sdt_probe width tab (cstr sig) m i) 0 (len - 36) () =
      for_u64 (\<lambda>i _. sdt_probe width tab (cstr sig) m i) (of_nat k) (len - 36) ()"
    by (rule for_u64_skip) (use probe k n in simp_all)
  also have "(of_nat k :: u64) < len - 36"
    using k unat_less_u64 [of len] by (simp add: word_less_nat_alt n unat_of_nat_u64)
  then have "for_u64 (\<lambda>i _. sdt_probe width tab (cstr sig) m i) (of_nat k) (len - 36) () = Inl OutOfBounds"
    using behind by (auto simp: for_u64_step sdt_probe_def sdt_unreadable_def)
  finally show ?thesis by (simp add: sdt_loop_def len(1))
qed

lemma sdt_loop_miss:
  assumes len: "fw_read 4 (tab + 4) m = Inr len" "36 \<le> len"
    and entries: "\<forall>j < unat len - 36. sdt_entry width tab m j (p j) (sg j) \<and> sg j \<noteq> sig"
    and "length sig = 4"
  shows "sdt_loop width tab (cstr sig) m = Inr (Next ())"
proof -
  let ?k = "unat len - 36"
  have n: "unat (len - 36) = ?k" using len(2) by (simp add: unat_sub)
  have probe: "sdt_probe width tab (cstr sig) m (of_nat j) = Inr (Next ())" if "j < ?k" for j
    using sdt_probe_eq [of width tab m j "p j" "sg j" sig] assms that by simp
  have "for_u64 (\<lambda>i _. sdt_probe width tab (cstr sig) m i) 0 (len - 36) () =
      for_u64 (\<lambda>i _. sdt_probe width tab (cstr sig) m i) (of_nat ?k) (len - 36) ()"
    by (rule for_u64_skip) (use probe n in simp_all)
  also have "(of_nat ?k :: u64) = len - 36" unfolding n [symmetric] by simp
  finally show ?thesis by (simp add: sdt_loop_def len(1) for_u64_stop)
qed

lemma located_message:
  fixes s :: "'a acpi_state_scheme"
  assumes "console_ready s" and "no_nul sig" and "length sig = 4"
  shows "\<exists>s'. kprintDS (cstr ''[ACPI]'') (cstr ''%s located at %x'') [VaStr (cstr sig), VaLong p] s = Inr s' \<and>
    console_state.more s' = console_state.more s"
proof -
  have "render ''%s located at %x'' [VaStr (cstr sig), VaLong p] =
      Some (sig @ '' located at '' @ numeral_of 16 (unat p))"
    using cchars_cstr [OF assms(2)] assms(2,3) by (simp add: cstr_def)
  then have "holds (kprintDS (cstr ''[ACPI]'') (cstr ''%s located at %x'') [VaStr (cstr sig), VaLong p] s)
      (\<lambda>s'. console_state.more s' = console_state.more s)"
    by (intro kprintDS_keeps) (use assms(1) in \<open>simp_all add: message_def\<close>)
  then show ?thesis by (auto elim!: holdsE)
qed

lemma lost_message:
  fixes s :: "'a acpi_state_scheme"
  assumes "console_ready s" and "no_nul sig" and "length sig = 4"
  shows "\<exists>s'. kprintDS (cstr ''[ACPI]'') (cstr ''%s could not be found :('') [VaStr (cstr sig)] s = Inr s' \<and>
    console_state.more s' = console_state.more s"
proof -
  have "render ''%s could not be found :('' [VaStr (cstr sig)] = Some (sig @ '' could not be found :('')"
    using cchars_cstr [OF assms(2)] assms(2,3) by (simp add: cstr_def)
  then have "holds (kprintDS (cstr ''[ACPI]'') (cstr ''%s could not be found :('') [VaStr (cstr sig)] s)
      (\<lambda>s'. console_state.more s' = console_state.more s)"
    by (intro kprintDS_keeps) (use assms(1) in \<open>simp_all add: message_def\<close>)
  then show ?thesis by (auto elim!: holdsE)
qed

text \<open>The table that is searched first: the extended one, or the plain one when there is no extended one.\<close>

definition first_table :: "'a acpi_state_scheme \<Rightarrow> nat \<times> u64" where
  "first_table s = (if xsdt s \<noteq> 0 then (8, xsdt s) else (4, rsdt s))"

lemma findSDT_hit:
  fixes s :: "'a acpi_state_scheme"
  assumes "first_table s = (w, tab)" and "tab \<noteq> 0" and "sdt_loop w tab sig (firmware s) = Inr (Exit a)"
  shows "findSDT sig s = and_then (kprintDS (cstr ''[ACPI]'') (cstr ''%s located at %x'') [VaStr sig, VaLong a] s) (\<lambda>s. Inr (a, s))"
  using assms by (auto simp: findSDT_def first_table_def Let_def simp del: cstr_simps split: if_splits)

lemma findSDT_fault:
  fixes s :: "'a acpi_state_scheme"
  assumes "first_table s = (w, tab)" and "tab \<noteq> 0" and "sdt_loop w tab sig (firmware s) = Inl e"
  shows "findSDT sig s = Inl e"
  using assms by (auto simp: findSDT_def first_table_def Let_def simp del: cstr_simps split: if_splits)

lemma findSDT_miss:
  fixes s :: "'a acpi_state_scheme"
  assumes "first_table s = (w, tab)" and "tab \<noteq> 0" and "sdt_loop w tab sig (firmware s) = Inr (Next ())"
    and "xsdt s = 0 \<or> rsdt s = 0"
  shows "findSDT sig s = and_then (kprintDS (cstr ''[ACPI]'') (cstr ''%s could not be found :('') [VaStr sig] s) (\<lambda>s. Inr (0, s))"
  using assms by (auto simp: findSDT_def first_table_def Let_def simp del: cstr_simps split: if_splits)

text \<open>
  C29: \<open>findSDT\<close> in the table it searches first, the extended one (\<open>w\<close> = 8 bytes per pointer) or, without one, the
  plain one (\<open>w\<close> = 4), of \<open>n\<close> pointers; \<open>r\<close> pointers, the \<open>n\<close> of the table and maybe more that lie behind it, point to
  readable signatures. It returns the address of the first of them with the signature and prints it, and nothing else is
  changed. It takes the number of bytes for the number of pointers: when no pointer of the table has the signature, it
  goes on behind the table, returns what a word there happens to point to, or reads memory that is not mapped; it reports
  that the table is missing, with a null pointer, only after \<open>w * n\<close> pointers.
\<close>

theorem findSDT_cases:
  fixes s :: "'a acpi_state_scheme"
  assumes "console_ready s" and "no_nul sig" and "length sig = 4"
    and "first_table s = (w, tab)" and "tab \<noteq> 0"
    and "fw_read 4 (tab + 4) (firmware s) = Inr (36 + of_nat w * of_nat n)" and "n < 2 ^ 28"
    and "n \<le> r" and "r \<le> w * n"
    and "\<forall>j < r. sdt_entry w tab (firmware s) j (p j) (sg j)"
  shows "if \<exists>k < r. sg k = sig
    then \<exists>k < r. sg k = sig \<and> (\<forall>j < k. sg j \<noteq> sig) \<and>
      (\<exists>s'. findSDT (cstr sig) s = Inr (p k + HIGH_VMA, s') \<and> console_state.more s' = console_state.more s)
    else (r < w * n \<longrightarrow> sdt_unreadable w tab (firmware s) r \<longrightarrow> findSDT (cstr sig) s = Inl OutOfBounds) \<and>
      (r = w * n \<longrightarrow> xsdt s = 0 \<or> rsdt s = 0 \<longrightarrow>
        (\<exists>s'. findSDT (cstr sig) s = Inr (0, s') \<and> console_state.more s' = console_state.more s))"
proof -
  have "w \<le> 8" using assms(4) by (auto simp: first_table_def split: if_splits)
  then have "36 + w * n \<le> 36 + 8 * n" by simp
  also have "36 + 8 * n < 2 ^ 64" using assms(7) by simp
  finally have "unat (of_nat (36 + w * n) :: u64) = 36 + w * n" by (rule unat_of_nat_u64)
  then have len: "unat (36 + of_nat w * of_nat n :: u64) = 36 + w * n" by simp
  have len36: "(36 :: u64) \<le> 36 + of_nat w * of_nat n"
    unfolding word_le_nat_alt len by simp
  note table = assms(4,5)
  show ?thesis
  proof (cases "\<exists>k < r. sg k = sig")
    case True
    define k where "k = (LEAST k. k < r \<and> sg k = sig)"
    have k: "k < r \<and> sg k = sig" unfolding k_def by (rule LeastI_ex) (use True in blast)
    have "sg j \<noteq> sig" if "j < k" for j
      using not_less_Least [of j "\<lambda>k. k < r \<and> sg k = sig"] k that by (simp add: k_def)
    then have first: "\<forall>j < k. sg j \<noteq> sig" by blast
    have "sdt_loop w tab (cstr sig) (firmware s) = Inr (Exit (p k + HIGH_VMA))"
    proof (rule sdt_loop_hit [OF assms(6) len36])
      show "k < unat (36 + of_nat w * of_nat n :: u64) - 36" unfolding len using k assms(9) by simp
      show "\<forall>j \<le> k. sdt_entry w tab (firmware s) j (p j) (sg j)"
        using assms(10) k by auto
    qed (use assms(3) k first in simp_all)
    from findSDT_hit [OF table this] show ?thesis
      using True k first located_message [OF assms(1,2,3), of "p k + HIGH_VMA"]
      by (auto simp del: cstr_simps)
  next
    case False
    have fault: "findSDT (cstr sig) s = Inl OutOfBounds" if "r < w * n" "sdt_unreadable w tab (firmware s) r"
    proof (rule findSDT_fault [OF table], rule sdt_loop_overrun [OF assms(6) len36, of r])
      show "r < unat (36 + of_nat w * of_nat n :: u64) - 36" using that(1) by (simp only: len)
      show "\<forall>j < r. sdt_entry w tab (firmware s) j (p j) (sg j) \<and> sg j \<noteq> sig"
        using assms(10) False by blast
    qed (use assms(3) that(2) in simp_all)
    have lost: "\<exists>s'. findSDT (cstr sig) s = Inr (0, s') \<and> console_state.more s' = console_state.more s"
      if "r = w * n" "xsdt s = 0 \<or> rsdt s = 0"
    proof -
      have "sdt_loop w tab (cstr sig) (firmware s) = Inr (Next ())"
        by (rule sdt_loop_miss [OF assms(6) len36 _ assms(3)]) (use assms(10) False that(1) len in auto)
      from findSDT_miss [OF table this that(2)] show ?thesis
        using lost_message [OF assms(1,2,3)] by (auto simp del: cstr_simps)
    qed
    from fault lost show ?thesis unfolding if_not_P [OF False] by blast
  qed
qed

section \<open>The entries of the MADT\<close>

text \<open>The reference: the structures as the ACPI specification lays them out.\<close>

primrec le_bytes :: "nat \<Rightarrow> u64 \<Rightarrow> u8 list" where
  "le_bytes 0 x = []"
| "le_bytes (Suc k) x = ucast x # le_bytes k (drop_bit 8 x)"

datatype madt_struct =
    LocalApic madtEntry0_t
  | IOApic madtEntry1_t
  | SourceOverride madtEntry2_t
  | LocalNmi madtEntry4_t
  | LapicAddress u16 u64
  | OtherStruct u8 "u8 list"

fun struct_tag :: "madt_struct \<Rightarrow> u8" where
  "struct_tag (LocalApic e) = 0"
| "struct_tag (IOApic e) = 1"
| "struct_tag (SourceOverride e) = 2"
| "struct_tag (LocalNmi e) = 4"
| "struct_tag (LapicAddress r x) = 5"
| "struct_tag (OtherStruct t bs) = t"

fun struct_body :: "madt_struct \<Rightarrow> u8 list" where
  "struct_body (LocalApic e) = le_bytes 1 (ucast (acpiProcessorID e)) @ le_bytes 1 (ucast (apicID e)) @
     le_bytes 4 (ucast (e0_flags e))"
| "struct_body (IOApic e) = le_bytes 1 (ucast (ioapicID e)) @ le_bytes 1 (ucast (e1_reserved e)) @
     le_bytes 4 (ucast (ioapicAddr e)) @ le_bytes 4 (ucast (gsiBase e))"
| "struct_body (SourceOverride e) = le_bytes 1 (ucast (busSrc e)) @ le_bytes 1 (ucast (irqSrc e)) @
     le_bytes 4 (ucast (e2_gsi e)) @ le_bytes 2 (ucast (e2_flags e))"
| "struct_body (LocalNmi e) = le_bytes 1 (ucast (e4_acpiProcessorID e)) @ le_bytes 2 (ucast (e4_flags e)) @
     le_bytes 1 (ucast (lint e))"
| "struct_body (LapicAddress r x) = le_bytes 2 (ucast r) @ le_bytes 8 x"
| "struct_body (OtherStruct t bs) = bs"

definition encode_struct :: "madt_struct \<Rightarrow> u8 list" where
  "encode_struct st = struct_tag st # of_nat (2 + length (struct_body st)) # struct_body st"

fun struct_ok :: "madt_struct \<Rightarrow> bool" where
  "struct_ok (OtherStruct t bs) \<longleftrightarrow> t \<notin> {0, 1, 2, 4, 5} \<and> length bs \<le> 253"
| "struct_ok st \<longleftrightarrow> True"

definition placed :: "u8 list \<Rightarrow> u64 \<Rightarrow> bytes \<Rightarrow> bool" where
  "placed bs a m \<longleftrightarrow> (\<forall>j < length bs. m (a + of_nat j) = Some (bs ! j))"

lemma placed_simps [simp]:
  "placed [] a m"
  "placed (b # bs) a m \<longleftrightarrow> m a = Some b \<and> placed bs (a + 1) m"
  "placed (xs @ ys) a m \<longleftrightarrow> placed xs a m \<and> placed ys (a + of_nat (length xs)) m"
proof -
  show "placed [] a m" by (simp add: placed_def)
  show cons: "placed (b # bs) a m \<longleftrightarrow> m a = Some b \<and> placed bs (a + 1) m" for b bs a
    by (auto simp: placed_def All_less_Suc2 algebra_simps)
  show "placed (xs @ ys) a m \<longleftrightarrow> placed xs a m \<and> placed ys (a + of_nat (length xs)) m"
    by (induction xs arbitrary: a) (simp_all add: cons, simp add: placed_def, simp add: algebra_simps)
qed

lemma length_le_bytes [simp]: "length (le_bytes k x) = k"
  by (induction k arbitrary: x) simp_all

lemma le_step: "push_bit 8 (take_bit (8 * k) (drop_bit 8 x)) OR ucast (ucast x :: u8) = take_bit (8 * Suc k) x"
  for x :: u64
  by (rule bit_word_eqI) (auto simp: bit_simps)

lemma fw_read_placed: "placed (le_bytes k x) a m \<Longrightarrow> fw_read k a m = Inr (take_bit (8 * k) x)"
proof (induction k arbitrary: x a)
  case (Suc k)
  then have "fw_read k (a + 1) m = Inr (take_bit (8 * k) (drop_bit 8 x))" by simp
  then show ?case using Suc.prems le_step [of k x] by simp
qed simp

lemma ucast_fields: "take_bit 8 (ucast b :: u64) = ucast b" "take_bit 16 (ucast h :: u64) = ucast h"
    "take_bit 32 (ucast w :: u64) = ucast w" "ucast (ucast b :: u64) = b" "ucast (ucast h :: u64) = h"
    "ucast (ucast w :: u64) = w"
  for b :: u8 and h :: u16 and w :: u32
  by (rule bit_word_eqI, auto simp: bit_simps dest: bit_imp_le_length)+

lemma fw_read_fields:
  fixes b :: u8 and h :: u16 and w :: u32
  shows "placed (le_bytes 1 (ucast b)) a m \<Longrightarrow> fw_read 1 a m = Inr (ucast b)"
    "placed (le_bytes 2 (ucast h)) a m \<Longrightarrow> fw_read 2 a m = Inr (ucast h)"
    "placed (le_bytes 4 (ucast w)) a m \<Longrightarrow> fw_read 4 a m = Inr (ucast w)"
  using fw_read_placed [of 1 "ucast b" a m] fw_read_placed [of 2 "ucast h" a m]
    fw_read_placed [of 4 "ucast w" a m]
  by (simp_all add: ucast_fields)

lemma read_entries:
  "placed (struct_body (LocalApic e0)) a m \<Longrightarrow> read_entry0 a m = Inr e0"
  "placed (struct_body (IOApic e1)) a m \<Longrightarrow> read_entry1 a m = Inr e1"
  "placed (struct_body (SourceOverride e2)) a m \<Longrightarrow> read_entry2 a m = Inr e2"
  "placed (struct_body (LocalNmi e4)) a m \<Longrightarrow> read_entry4 a m = Inr e4"
  by (auto simp: read_entry0_def read_entry1_def read_entry2_def read_entry4_def ucast_fields add.assoc
      dest!: fw_read_fields)

text \<open>What one more structure adds.\<close>

fun record_struct :: "madt_struct \<Rightarrow> madtInfo_t \<Rightarrow> madtInfo_t" where
  "record_struct (LocalApic e) info = info\<lparr>madtEntry0Count := madtEntry0Count info + 1,
     madtEntry0 := (madtEntry0 info)[unat (madtEntry0Count info) := e]\<rparr>"
| "record_struct (IOApic e) info = info\<lparr>madtEntry1Count := madtEntry1Count info + 1,
     madtEntry1 := (madtEntry1 info)[unat (madtEntry1Count info) := e]\<rparr>"
| "record_struct (SourceOverride e) info = info\<lparr>madtEntry2Count := madtEntry2Count info + 1,
     madtEntry2 := (madtEntry2 info)[unat (madtEntry2Count info) := e]\<rparr>"
| "record_struct (LocalNmi e) info = info\<lparr>madtEntry4Count := madtEntry4Count info + 1,
     madtEntry4 := (madtEntry4 info)[unat (madtEntry4Count info) := e]\<rparr>"
| "record_struct (LapicAddress r x) info = info\<lparr>madtEntry5Count := madtEntry5Count info + 1,
     madtEntry5 := (madtEntry5 info)[unat (madtEntry5Count info) := \<lparr>e5_reserved = r, lapicOverride = ucast x\<rparr>]\<rparr>"
| "record_struct (OtherStruct t bs) info = info"

definition counted :: "u8 \<Rightarrow> 'x list \<Rightarrow> 'x list \<Rightarrow> bool" where
  "counted c xs ys \<longleftrightarrow> length xs = 50 \<and> length ys \<le> 50 \<and> unat c = length ys \<and> take (length ys) xs = ys"

lemma counted_snoc:
  assumes "counted c xs ys" and "length ys < 50"
  shows "counted (c + 1) (xs[unat c := e]) (ys @ [e])" "unat c < length xs"
proof -
  have "unat (c + 1) = unat c + 1" using assms by (simp add: counted_def unat_word_ariths)
  then show "counted (c + 1) (xs[unat c := e]) (ys @ [e])" "unat c < length xs"
    using assms by (auto simp: counted_def take_Suc_conv_app_nth)
qed

definition lapics :: "madt_struct list \<Rightarrow> madtEntry0_t list" where
  "lapics es = [e. LocalApic e \<leftarrow> es]"
definition ioapics :: "madt_struct list \<Rightarrow> madtEntry1_t list" where
  "ioapics es = [e. IOApic e \<leftarrow> es]"
definition overrides :: "madt_struct list \<Rightarrow> madtEntry2_t list" where
  "overrides es = [e. SourceOverride e \<leftarrow> es]"
definition nmis :: "madt_struct list \<Rightarrow> madtEntry4_t list" where
  "nmis es = [e. LocalNmi e \<leftarrow> es]"
definition lapic_addresses :: "madt_struct list \<Rightarrow> madtEntry5_t list" where
  "lapic_addresses es = [\<lparr>e5_reserved = r, lapicOverride = ucast x\<rparr>. LapicAddress r x \<leftarrow> es]"

lemmas kinds_def = lapics_def ioapics_def overrides_def nmis_def lapic_addresses_def

definition contents :: "madtInfo_t \<Rightarrow> madt_struct list \<Rightarrow> bool" where
  "contents info es \<longleftrightarrow>
     counted (madtEntry0Count info) (madtEntry0 info) (lapics es) \<and>
     counted (madtEntry1Count info) (madtEntry1 info) (ioapics es) \<and>
     counted (madtEntry2Count info) (madtEntry2 info) (overrides es) \<and>
     counted (madtEntry4Count info) (madtEntry4 info) (nmis es) \<and>
     counted (madtEntry5Count info) (madtEntry5 info) (lapic_addresses es)"

definition fits :: "madt_struct list \<Rightarrow> bool" where
  "fits es \<longleftrightarrow> (\<forall>st \<in> set es. struct_ok st) \<and> length (lapics es) \<le> 50 \<and> length (ioapics es) \<le> 50 \<and>
     length (overrides es) \<le> 50 \<and> length (nmis es) \<le> 50 \<and> length (lapic_addresses es) \<le> 50"

lemma kinds_append: "lapics (xs @ ys) = lapics xs @ lapics ys" "ioapics (xs @ ys) = ioapics xs @ ioapics ys"
  "overrides (xs @ ys) = overrides xs @ overrides ys" "nmis (xs @ ys) = nmis xs @ nmis ys"
  "lapic_addresses (xs @ ys) = lapic_addresses xs @ lapic_addresses ys"
  by (simp_all add: kinds_def)

lemma ucast_tag: "(ucast t = (0 :: u64)) = (t = 0)" "(ucast t = (1 :: u64)) = (t = 1)" "(ucast t = (2 :: u64)) = (t = 2)"
    "(ucast t = (4 :: u64)) = (t = 4)" "(ucast t = (5 :: u64)) = (t = 5)" for t :: u8
proof -
  have inj: "(ucast t = (ucast u :: u64)) = (t = u)" for u :: u8
    using ucast_fields(4) by metis
  show "(ucast t = (0 :: u64)) = (t = 0)" "(ucast t = (1 :: u64)) = (t = 1)" "(ucast t = (2 :: u64)) = (t = 2)"
    "(ucast t = (4 :: u64)) = (t = 4)" "(ucast t = (5 :: u64)) = (t = 5)"
    using inj [of 0] inj [of 1] inj [of 2] inj [of 4] inj [of 5] by simp_all
qed

lemma add_struct:
  assumes "placed (struct_body st) a m" and "contents info es" and "fits (es @ [st])"
  shows "add_entry (ucast (struct_tag st)) a m info = Inr (record_struct st info)"
    "contents (record_struct st info) (es @ [st])"
proof -
  have read5: "read_entry5 a m = Inr \<lparr>e5_reserved = r, lapicOverride = ucast x\<rparr>" if "st = LapicAddress r x" for r x
  proof -
    have "placed (le_bytes 2 (ucast r)) a m" "m (a + 2) = Some (ucast x)"
      using assms(1) that le_bytes.simps(2) [of 7 x] by simp_all
    then show ?thesis by (auto simp: read_entry5_def ucast_fields dest!: fw_read_fields)
  qed
  show "add_entry (ucast (struct_tag st)) a m info = Inr (record_struct st info)"
    "contents (record_struct st info) (es @ [st])"
    using assms read5
    by (cases st; auto simp: add_entry_def contents_def fits_def kinds_append ucast_tag store_def
        kinds_def read_entries unat_ucast_up intro: counted_snoc dest: counted_snoc(2))+
qed

lemma body_small: "struct_ok st \<Longrightarrow> length (struct_body st) \<le> 253"
  by (cases st) auto

lemma madt_loop_structs:
  assumes "placed (concat (map encode_struct es)) (a + i) m"
    and "unat i + length (concat (map encode_struct es)) = unat n"
    and "contents info ds" and "fits (ds @ es)"
  shows "\<exists>info'. madt_loop (Suc (length es)) a n m i info = Inr info' \<and> contents info' (ds @ es) \<and>
    lapicAddr info' = lapicAddr info"
  using assms
proof (induction es arbitrary: i info ds)
  case Nil
  then show ?case by (simp add: word_less_nat_alt)
next
  case (Cons st es)
  let ?len = "2 + length (struct_body st)"
  have ok: "struct_ok st" using Cons.prems(4) by (simp add: fits_def)
  have fits: "fits (ds @ [st])"
    using Cons.prems(4) kinds_append [of "[st]" es] by (auto simp: fits_def kinds_append)
  have st: "m (a + i) = Some (struct_tag st)" "m (a + i + 1) = Some (of_nat ?len)"
      "placed (struct_body st) (a + i + 2) m"
      "placed (concat (map encode_struct es)) (a + i + of_nat ?len) m"
    using Cons.prems(1) by (simp_all add: encode_struct_def [of st] add.assoc)
  have n: "unat i + ?len + length (concat (map encode_struct es)) = unat n"
    using Cons.prems(2) by (simp add: encode_struct_def [of st])
  have lt: "i < n" using n by (simp add: word_less_nat_alt)
  have len: "unat (of_nat ?len :: u8) = ?len" by (rule unat_of_nat_small) (use body_small [OF ok] in simp)
  have size: "(ucast (of_nat ?len :: u8) :: u64) = of_nat ?len"
    unfolding word_unat_eq_iff unat_ucast_up [where 'a = 8 and 'b = 64, simplified] len
    using body_small [OF ok] by (intro unat_of_nat_u64 [symmetric]) simp
  have next_i: "i + 2 + (of_nat ?len - 3) + 1 = i + of_nat ?len" by simp
  have u: "unat (of_nat ?len :: u64) = ?len" by (rule unat_of_nat_u64) (use body_small [OF ok] in simp)
  have "unat i + unat (of_nat ?len :: u64) < 2 ^ 64" unfolding u using n unat_less_u64 [of n] by linarith
  then have ui: "unat (i + of_nat ?len) = unat i + ?len" by (simp only: unat_add_u64 u)
  note add = add_struct [OF st(3) Cons.prems(3) fits]
  have "madt_loop (Suc (length (st # es))) a n m i info =
      madt_loop (Suc (length es)) a n m (i + of_nat ?len) (record_struct st info)"
    using lt st(1,2) add(1) size next_i by simp
  moreover have "lapicAddr (record_struct st info) = lapicAddr info" by (cases st) simp_all
  moreover have "\<exists>info'. madt_loop (Suc (length es)) a n m (i + of_nat ?len) (record_struct st info) = Inr info' \<and>
      contents info' ((ds @ [st]) @ es) \<and> lapicAddr info' = lapicAddr (record_struct st info)"
    by (rule Cons.IH) (use st(4) n ui add(2) Cons.prems(4) in \<open>simp_all add: add.assoc\<close>)
  ultimately show ?case by simp
qed

text \<open>
  C28: the loop of \<open>madtInit\<close> over memory that holds any sequence of interrupt controller structures
  of the ACPI specification, none of the five kinds more than fifty times, ends after one round for each,
  and finds exactly the structures of each kind, with their fields, in their order; structures of other
  kinds are skipped. (Of a local APIC address override it keeps the low byte.)
\<close>

theorem madt_loop_parses:
  assumes "placed (concat (map encode_struct es)) a m"
    and "unat n = length (concat (map encode_struct es))" and "fits es" and "contents info []"
  shows "\<exists>info'. madt_loop (Suc (length es)) a n m 0 info = Inr info' \<and>
    take (unat (madtEntry0Count info')) (madtEntry0 info') = lapics es \<and>
    take (unat (madtEntry1Count info')) (madtEntry1 info') = ioapics es \<and>
    take (unat (madtEntry2Count info')) (madtEntry2 info') = overrides es \<and>
    take (unat (madtEntry4Count info')) (madtEntry4 info') = nmis es \<and>
    take (unat (madtEntry5Count info')) (madtEntry5 info') = lapic_addresses es"
proof -
  have "\<exists>info'. madt_loop (Suc (length es)) a n m 0 info = Inr info' \<and> contents info' ([] @ es) \<and>
      lapicAddr info' = lapicAddr info"
    by (rule madt_loop_structs) (use assms in simp_all)
  then show ?thesis by (auto simp: contents_def counted_def)
qed

text \<open>An entry of another kind with the size 0 is never passed.\<close>

lemma madt_loop_stuck:
  assumes "i < n" and "m (a + i) = Some t" and "t \<notin> {0, 1, 2, 4, 5}" and "m (a + i + 1) = Some 0"
  shows "madt_loop fuel a n m i info = Inl OutOfFuel"
  using assms by (induction fuel) (simp_all add: add_entry_def ucast_tag)

section \<open>Sleeping\<close>

lemma poll_first:
  assumes "\<And>j. j < k \<Longrightarrow> \<not> P (fst (rd (((snd \<circ> rd) ^^ j) s)))" and "P (fst (rd (((snd \<circ> rd) ^^ k) s)))"
    and "k < n"
  shows "poll n P rd s = Inr (rd (((snd \<circ> rd) ^^ k) s))"
  using assms
proof (induction k arbitrary: n s)
  case 0
  then show ?case by (cases n) (auto simp: split_beta)
next
  case (Suc k)
  obtain n' where n: "n = Suc n'" "k < n'" using Suc.prems(3) by (cases n) auto
  have shift: "((snd \<circ> rd) ^^ j) (snd (rd s)) = ((snd \<circ> rd) ^^ Suc j) s" for j
    by (induction j) simp_all
  have "poll n' P rd (snd (rd s)) = Inr (rd (((snd \<circ> rd) ^^ k) (snd (rd s))))"
  proof (rule Suc.IH)
    show "\<not> P (fst (rd (((snd \<circ> rd) ^^ j) (snd (rd s)))))" if "j < k" for j
      unfolding shift by (rule Suc.prems(1)) (use that in simp)
    show "P (fst (rd (((snd \<circ> rd) ^^ k) (snd (rd s)))))"
      unfolding shift by (rule Suc.prems(2))
  qed (rule n(2))
  then show ?case using Suc.prems(1) [of 0] n shift [of k] by (simp add: split_beta comp_def del: funpow.simps)
qed

definition counter_event :: "'a acpi_state_scheme \<Rightarrow> io_event" where
  "counter_event s = MmioRead64 (hpet s + hpet_counterValue)"

text \<open>What the counter shows at the start, and at read \<open>j\<close> of the loop.\<close>

definition counter_start :: "'a acpi_state_scheme \<Rightarrow> u64" where
  "counter_start s = io_device s (io_log s @ [counter_event s])"

definition hpet_period :: "'a acpi_state_scheme \<Rightarrow> u64" where
  "hpet_period s = drop_bit 32 (io_device s (io_log s @ [counter_event s, MmioRead64 (hpet s)])) AND 0xffffffff"

definition counter_at :: "nat \<Rightarrow> 'a acpi_state_scheme \<Rightarrow> u64" where
  "counter_at j s = io_device s (io_log s @ [counter_event s, MmioRead64 (hpet s)] @
     replicate (Suc j) (counter_event s))"

lemma counterValue_iterate:
  fixes s :: "'a acpi_state_scheme"
  shows "((snd \<circ> counterValue) ^^ j) s = s\<lparr>io_log := io_log s @ replicate j (counter_event s)\<rparr>"
  by (induction j)
    (simp_all add: counterValue_def mmio_read64_def io_read_def counter_event_def replicate_append_same)

definition wake_time :: "u64 \<Rightarrow> 'a acpi_state_scheme \<Rightarrow> u64" where
  "wake_time ms s = counter_start s + ms * 1000000000000 div hpet_period s"

text \<open>
  C31: if the counter reaches the target at read \<open>k\<close> of the loop and not before, \<open>ksleep\<close> returns
  after exactly that read, and (while the multiplication does not wrap) at least \<open>ms\<close> milliseconds
  of counter periods have passed, less than one period short. A device whose
  period reads as 0 raises the divide exception instead.
\<close>

theorem ksleep_waits:
  fixes s :: "'a acpi_state_scheme"
  assumes "\<forall>j < k. counter_at j s < wake_time ms s" and "wake_time ms s \<le> counter_at k s" and "k < fuel"
    and "ms \<le> 18446744" and "unat (counter_start s) + unat (ms * 1000000000000 div hpet_period s) < 2 ^ 64"
  shows "if hpet_period s = 0 then ksleep fuel ms s = Inl DivByZero
    else ksleep fuel ms s = Inr (s\<lparr>io_log := io_log s @ [counter_event s, MmioRead64 (hpet s)] @
        replicate (Suc k) (counter_event s)\<rparr>) \<and>
      unat ms * 1000000000000 < (unat (counter_at k s) - unat (counter_start s) + 1) * unat (hpet_period s)"
proof (cases "hpet_period s = 0")
  case True
  then show ?thesis
    by (simp add: ksleep_def counterValue_def mmio_read64_def io_read_def hpet_period_def counter_event_def Let_def)
next
  case False
  let ?s = "s\<lparr>io_log := io_log s @ [counter_event s, MmioRead64 (hpet s)]\<rparr>"
  have ev: "counter_event ?s = counter_event s" by (simp add: counter_event_def)
  have at: "counterValue (((snd \<circ> counterValue) ^^ j) ?s) =
      (counter_at j s, s\<lparr>io_log := io_log s @ [counter_event s, MmioRead64 (hpet s)] @ replicate (Suc j) (counter_event s)\<rparr>)"
    for j
    unfolding counterValue_iterate ev
    by (simp add: counterValue_def mmio_read64_def io_read_def counter_at_def counter_event_def replicate_append_same)
  have "poll fuel (\<lambda>counter. \<not> counter < wake_time ms s) counterValue ?s = Inr (counterValue (((snd \<circ> counterValue) ^^ k) ?s))"
    by (rule poll_first) (use assms(1-3) in \<open>auto simp only: at fst_conv not_less\<close>)
  then have "ksleep fuel ms s = Inr (s\<lparr>io_log := io_log s @ [counter_event s, MmioRead64 (hpet s)] @
      replicate (Suc k) (counter_event s)\<rparr>)"
    using False unfolding at wake_time_def
    by (simp add: ksleep_def counterValue_def mmio_read64_def io_read_def hpet_period_def
        counter_start_def counter_event_def Let_def)
  moreover have "unat ms * 1000000000000 < (unat (counter_at k s) - unat (counter_start s) + 1) * unat (hpet_period s)"
  proof -
    let ?q = "unat ms * 1000000000000 div unat (hpet_period s)"
    have "unat ms \<le> 18446744" using assms(4) by (simp add: word_le_nat_alt)
    then have "unat (ms * 1000000000000) = unat ms * 1000000000000" by (simp add: unat_word_ariths)
    then have q: "unat (ms * 1000000000000 div hpet_period s) = ?q" by (simp add: unat_div)
    have "unat (wake_time ms s) = unat (counter_start s) + ?q"
      unfolding wake_time_def q [symmetric] by (rule unat_add_u64) (rule assms(5))
    then have "?q + 1 \<le> unat (counter_at k s) - unat (counter_start s) + 1"
      using assms(2) by (simp add: word_le_nat_alt)
    moreover have "0 < unat (hpet_period s)" using False by (simp add: unat_gt_0)
    then have "unat ms * 1000000000000 < (?q + 1) * unat (hpet_period s)"
      by (metis dividend_less_times_div mult.commute Suc_eq_plus1 mult_Suc_right add.commute)
    ultimately show ?thesis by (meson less_le_trans mult_le_mono1)
  qed
  ultimately show ?thesis using False by simp
qed

section \<open>Witnesses\<close>

definition place :: "u8 list \<Rightarrow> u64 \<Rightarrow> bytes" where
  "place bs base a = (if a - base < of_nat (length bs) then Some (bs ! unat (a - base)) else None)"

lemma placed_place: "length bs < 2 ^ 64 \<Longrightarrow> placed bs a (place bs a)"
  by (simp add: placed_def place_def unat_of_nat_u64 word_less_nat_alt)

text \<open>An extended system table with one pointer, to a table with the signature \<open>APIC\<close>.\<close>

definition example_xsdt :: "u8 list" where
  "example_xsdt = [88, 83, 68, 84] @ le_bytes 4 44 @ replicate 28 0 @ le_bytes 8 (0x200000 - HIGH_VMA)"

definition example_firmware :: bytes where
  "example_firmware a = (case place example_xsdt 0x100000 a of
     Some b \<Rightarrow> Some b | None \<Rightarrow> place [65, 80, 73, 67] 0x200000 a)"

definition empty_madt :: madtInfo_t where
  "empty_madt = \<lparr>madtEntry0Count = 0, madtEntry1Count = 0, madtEntry2Count = 0, madtEntry4Count = 0,
     madtEntry5Count = 0, madtEntry0 = replicate 50 \<lparr>acpiProcessorID = 0, apicID = 0, e0_flags = 0\<rparr>,
     madtEntry1 = replicate 50 \<lparr>ioapicID = 0, e1_reserved = 0, ioapicAddr = 0, gsiBase = 0\<rparr>,
     madtEntry2 = replicate 50 \<lparr>busSrc = 0, irqSrc = 0, e2_gsi = 0, e2_flags = 0\<rparr>,
     madtEntry4 = replicate 50 \<lparr>e4_acpiProcessorID = 0, e4_flags = 0, lint = 0\<rparr>,
     madtEntry5 = replicate 50 \<lparr>e5_reserved = 0, lapicOverride = 0\<rparr>, lapicAddr = 0\<rparr>"

text \<open>A counter that advances by 500 with every access, with a period of a nanosecond.\<close>

definition example_clock :: "io_event list \<Rightarrow> u64" where
  "example_clock es = (if last es = MmioRead64 0xf0 then of_nat (length es) * 500 else push_bit 32 1000000000)"

definition example_acpi :: acpi_state where
  "example_acpi = sched_state.extend (example_sched\<lparr>io_log := [], io_device := example_clock\<rparr>)
     \<lparr>firmware = example_firmware, rsdp = 0, rsdt = 0, xsdt = 0x100000, madtInfo = empty_madt,
      hpetTable = 0, hpet = 0\<rparr>"

lemma example_tables:
  "fw_read 4 (0x100000 + 4) example_firmware = Inr (36 + of_nat 8 * of_nat 1)"
  "sdt_entry 8 0x100000 example_firmware 0 (0x200000 - HIGH_VMA) ''APIC''"
  "fw_read 8 (0x100000 + 36 + of_nat 8 * of_nat 1) example_firmware = Inl OutOfBounds"
  by code_simp+

text \<open>The same with a plain table of one pointer, which three words follow that point to no signature of a table.\<close>

definition example_rsdt :: "u8 list" where
  "example_rsdt = [82, 83, 68, 84] @ le_bytes 4 40 @ replicate 28 0 @ le_bytes 4 0x200000 @ replicate 12 0"

definition example_plain :: bytes where
  "example_plain a = (case place example_rsdt 0x100000 a of
     Some b \<Rightarrow> Some b | None \<Rightarrow> (case place [65, 80, 73, 67] (0x200000 + HIGH_VMA) a of
     Some b \<Rightarrow> Some b | None \<Rightarrow> place [0, 0, 0, 0] HIGH_VMA a))"

lemma example_plain_tables:
  "fw_read 4 (0x100000 + 4) example_plain = Inr (36 + of_nat 4 * of_nat 1)"
  "sdt_entry 4 0x100000 example_plain 0 0x200000 ''APIC''"
  "sdt_entry 4 0x100000 example_plain 1 0 [NUL, NUL, NUL, NUL]"
  "sdt_entry 4 0x100000 example_plain 2 0 [NUL, NUL, NUL, NUL]"
  "sdt_entry 4 0x100000 example_plain 3 0 [NUL, NUL, NUL, NUL]"
  by code_simp+

theorem findSDT_cases_witness:
  "(\<exists>s'. findSDT (cstr ''APIC'') example_acpi = Inr (0x200000, s')) \<and>
   findSDT (cstr ''HPET'') example_acpi = Inl OutOfBounds \<and>
   (\<exists>s'. findSDT (cstr ''APIC'') (example_acpi\<lparr>xsdt := 0, rsdt := 0x100000, firmware := example_plain\<rparr>) = Inr (0x200000 + HIGH_VMA, s')) \<and>
   (\<exists>s'. findSDT (cstr ''HPET'') (example_acpi\<lparr>xsdt := 0, rsdt := 0x100000, firmware := example_plain\<rparr>) = Inr (0, s'))"
proof -
  have s: "console_ready example_acpi" "first_table example_acpi = (8, 0x100000)" "firmware example_acpi = example_firmware"
    by (simp_all add: example_acpi_def sched_state.defs console_ready_def example_sched_def desc_state.defs
        example_desc_def pci_state.defs example_pci_def screen_state.defs io_state.defs example_screen_def vmm_state.defs
        example_vmm_def example_space_def first_table_def)
  let ?t = "example_acpi\<lparr>xsdt := 0, rsdt := 0x100000, firmware := example_plain\<rparr>"
  have t: "console_ready ?t" "first_table ?t = (4, 0x100000)" "firmware ?t = example_plain" "xsdt ?t = 0"
    using s(1) by (simp_all add: console_ready_def first_table_def)
  have none: "sdt_unreadable 8 0x100000 example_firmware 1" unfolding sdt_unreadable_def using example_tables(3) by simp
  have x: "if \<exists>k < (1 :: nat). ''APIC'' = sig
    then \<exists>k < (1 :: nat). ''APIC'' = sig \<and> (\<forall>j < k. ''APIC'' \<noteq> sig) \<and>
      (\<exists>s'. findSDT (cstr sig) example_acpi = Inr (0x200000 - HIGH_VMA + HIGH_VMA, s') \<and> console_state.more s' = console_state.more example_acpi)
    else (1 < (8 :: nat) * 1 \<longrightarrow> sdt_unreadable 8 0x100000 (firmware example_acpi) 1 \<longrightarrow> findSDT (cstr sig) example_acpi = Inl OutOfBounds) \<and>
      (1 = (8 :: nat) * 1 \<longrightarrow> xsdt example_acpi = 0 \<or> rsdt example_acpi = 0 \<longrightarrow>
        (\<exists>s'. findSDT (cstr sig) example_acpi = Inr (0, s') \<and> console_state.more s' = console_state.more example_acpi))"
    if "no_nul sig" "length sig = 4" for sig
    by (rule findSDT_cases [OF s(1) that s(2), of 1 1 "\<lambda>_. 0x200000 - HIGH_VMA" "\<lambda>_. ''APIC''"])
      (use s(3) example_tables(1,2) in simp_all)
  have apic: "\<exists>s'. findSDT (cstr ''APIC'') example_acpi = Inr (0x200000, s')"
    using x [of "''APIC''"] by (auto simp: no_nul_def simp del: cstr_simps)
  have hpet: "findSDT (cstr ''HPET'') example_acpi = Inl OutOfBounds"
    using x [of "''HPET''"] none s(3) by (simp add: no_nul_def del: cstr_simps)
  let ?p = "\<lambda>j. if j = (0 :: nat) then 0x200000 else 0" and ?sg = "\<lambda>j. if j = (0 :: nat) then ''APIC'' else [NUL, NUL, NUL, NUL]"
  have entries: "\<forall>j < 4. sdt_entry 4 0x100000 example_plain j (?p j) (?sg j)"
  proof (intro allI impI)
    fix j :: nat
    assume "j < 4"
    then have "j = 0 \<or> j = 1 \<or> j = 2 \<or> j = 3" by auto
    then show "sdt_entry 4 0x100000 example_plain j (?p j) (?sg j)"
      using example_plain_tables(2-5) by (elim disjE) simp_all
  qed
  have y: "if \<exists>k < 4. ?sg k = sig
    then \<exists>k < 4. ?sg k = sig \<and> (\<forall>j < k. ?sg j \<noteq> sig) \<and>
      (\<exists>s'. findSDT (cstr sig) ?t = Inr (?p k + HIGH_VMA, s') \<and> console_state.more s' = console_state.more ?t)
    else (4 < (4 :: nat) * 1 \<longrightarrow> sdt_unreadable 4 0x100000 (firmware ?t) 4 \<longrightarrow> findSDT (cstr sig) ?t = Inl OutOfBounds) \<and>
      (4 = (4 :: nat) * 1 \<longrightarrow> xsdt ?t = 0 \<or> rsdt ?t = 0 \<longrightarrow>
        (\<exists>s'. findSDT (cstr sig) ?t = Inr (0, s') \<and> console_state.more s' = console_state.more ?t))"
    if "no_nul sig" "length sig = 4" for sig
    by (rule findSDT_cases [OF t(1) that t(2), of 1 4 ?p ?sg]) (use entries example_plain_tables(1) t(3) in simp_all)
  have apic': "\<exists>s'. findSDT (cstr ''APIC'') ?t = Inr (0x200000 + HIGH_VMA, s')"
  proof -
    have "\<exists>k < 4. ?sg k = ''APIC''" by (intro exI [of _ 0]) simp
    from y [of "''APIC''", unfolded if_P [OF this]] obtain k s' where "?sg k = ''APIC''" "findSDT (cstr ''APIC'') ?t = Inr (?p k + HIGH_VMA, s')"
      by (auto simp: no_nul_def simp del: cstr_simps)
    then show ?thesis by (cases "k = 0") (auto simp del: cstr_simps)
  qed
  have hpet': "\<exists>s'. findSDT (cstr ''HPET'') ?t = Inr (0, s')"
  proof -
    have "\<not> (\<exists>k < 4. ?sg k = ''HPET'')" by simp
    from y [of "''HPET''", unfolded if_not_P [OF this]] show ?thesis
      using t(4) by (auto simp: no_nul_def simp del: cstr_simps)
  qed
  from apic hpet apic' hpet' show ?thesis by (intro conjI)
qed

definition example_structs :: "madt_struct list" where
  "example_structs = [IOApic \<lparr>ioapicID = 2, e1_reserved = 0, ioapicAddr = 0xfec00000, gsiBase = 0\<rparr>,
     OtherStruct 3 [7, 7], LocalApic \<lparr>acpiProcessorID = 1, apicID = 1, e0_flags = 1\<rparr>]"

theorem madt_loop_parses_witness:
  "\<exists>info'. madt_loop (Suc (length example_structs)) 0x1000 24
     (place (concat (map encode_struct example_structs)) 0x1000) 0 empty_madt = Inr info' \<and>
     take (unat (madtEntry0Count info')) (madtEntry0 info') = lapics example_structs"
proof -
  have len: "length (concat (map encode_struct example_structs)) = 24"
    by (simp add: example_structs_def encode_struct_def)
  have "fits example_structs" by (simp add: fits_def kinds_def example_structs_def)
  moreover have "contents empty_madt []" by (simp add: contents_def counted_def empty_madt_def kinds_def)
  ultimately show ?thesis
    using madt_loop_parses [OF placed_place, of example_structs 24 empty_madt "0x1000"] by (auto simp: len)
qed

theorem ksleep_waits_witness:
  "\<exists>s'. ksleep 5 1 example_acpi = Inr s' \<and> length (io_log s') = 3"
proof -
  have dev: "io_log example_acpi = []" "io_device example_acpi = example_clock" "hpet example_acpi = 0"
    by (simp_all add: example_acpi_def sched_state.defs)
  have "drop_bit 32 (push_bit 32 1000000000 :: u64) AND 0xffffffff = 1000000000" by code_simp
  then have s: "counter_start example_acpi = 500" "counter_at 0 example_acpi = 1500" "hpet_period example_acpi = 1000000000"
    by (simp_all add: counter_start_def counter_at_def hpet_period_def counter_event_def dev example_clock_def)
  have "wake_time 1 example_acpi = 1500" unfolding wake_time_def s by simp
  then show ?thesis
    using ksleep_waits [where s = example_acpi and k = 0 and ms = 1 and fuel = 5] s by (simp add: dev)
qed

end
