(* ===== verification/Apic.thy ===== *)
theory Apic
  imports Acpi
begin

text \<open>
  The interrupt controllers, \<^verbatim>\<open>kernel/int/apic.c\<close>: the local APIC of a core and the I/O APICs of the
  MADT. The registers are events of \<open>Machine_IO\<close>; the documented behaviour of an I/O APIC, two windows
  to an indexed register file, is \<open>ioapic_state\<close>, against which \<open>ioapicWrite\<close> and \<open>ioapicRead\<close> are
  judged.
\<close>

record apic_state = acpi_state +
  cr8 :: u64

definition LAPIC_ID_REG :: u16 where "LAPIC_ID_REG = 0x20"
definition LAPIC_EOI :: u16 where "LAPIC_EOI = 0xb0"
definition LAPIC_SINT :: u16 where "LAPIC_SINT = 0xf0"
definition LAPIC_ICRL :: u16 where "LAPIC_ICRL = 0x300"
definition LAPIC_ICRH :: u16 where "LAPIC_ICRH = 0x310"
definition LAPIC_TIMER_LVT :: u16 where "LAPIC_TIMER_LVT = 0x320"
definition LAPIC_TIMER_INITAL_COUNT :: u16 where "LAPIC_TIMER_INITAL_COUNT = 0x380"
definition LAPIC_TIMER_CURRENT_COUNT :: u16 where "LAPIC_TIMER_CURRENT_COUNT = 0x390"
definition LAPIC_TIMER_DIVIDE_CONF :: u16 where "LAPIC_TIMER_DIVIDE_CONF = 0x3e0"
definition MSR_APIC_BASE :: u64 where "MSR_APIC_BASE = 0x1b"
definition ERROR :: u64 where "ERROR = 69420"

section \<open>The registers\<close>

definition lapic_reg :: "u16 \<Rightarrow> 'a acpi_state_scheme \<Rightarrow> u64" where
  "lapic_reg offset s = ucast (lapicAddr (madtInfo s)) + HIGH_VMA + ucast offset"

definition lapicRead :: "u16 \<Rightarrow> 'a acpi_state_scheme \<Rightarrow> u32 \<times> 'a acpi_state_scheme" where
  "lapicRead offset s = mmio_read (lapic_reg offset s) s"

definition lapicWrite :: "u16 \<Rightarrow> u32 \<Rightarrow> 'a acpi_state_scheme \<Rightarrow> 'a acpi_state_scheme" where
  "lapicWrite offset data s = mmio_write (lapic_reg offset s) data s"

text \<open>\<open>ap << 24\<close> is computed in \<open>int\<close>; the compiler defines a shift into the sign bit by the bit pattern.\<close>

definition sendIPI :: "u8 \<Rightarrow> u32 \<Rightarrow> 'a acpi_state_scheme \<Rightarrow> 'a acpi_state_scheme" where
  "sendIPI ap ipi s = lapicWrite LAPIC_ICRL ipi (lapicWrite LAPIC_ICRH (push_bit 24 (ucast ap)) s)"

definition ioapicRead :: "u64 \<Rightarrow> u32 \<Rightarrow> 'a acpi_state_scheme \<Rightarrow> u32 \<times> 'a acpi_state_scheme" where
  "ioapicRead base reg s = mmio_read (base + 18 + HIGH_VMA) (mmio_write (base + 16 + HIGH_VMA) reg s)"

definition ioapicWrite :: "u64 \<Rightarrow> u32 \<Rightarrow> u32 \<Rightarrow> 'a acpi_state_scheme \<Rightarrow> 'a acpi_state_scheme" where
  "ioapicWrite base reg data s = mmio_write (base + 16 + HIGH_VMA) data (mmio_write (base + HIGH_VMA) reg s)"

definition getMaxGSIs :: "u64 \<Rightarrow> 'a acpi_state_scheme \<Rightarrow> u32 \<times> 'a acpi_state_scheme" where
  "getMaxGSIs ioapic_base s =
     (let (v, s) = ioapicRead ioapic_base 1 s; data = drop_bit 16 v in (data AND NOT (push_bit 7 1), s))"

section \<open>Redirection\<close>

text \<open>The test for the error inside the loop is never true: the loop has ended by then, and the
  index behind the last entry is returned.\<close>

definition findVaildIOAPIC :: "u64 \<Rightarrow> 'a acpi_state_scheme \<Rightarrow> (u64 \<times> 'a acpi_state_scheme) result" where
  "findVaildIOAPIC gsi s =
     (let n = ucast (madtEntry1Count (madtInfo s)) in
      and_then
        (for_u64 (\<lambda>i s.
           and_then (fetch (madtEntry1 (madtInfo s)) i) (\<lambda>e.
           let (m, s) = getMaxGSIs (ucast (ioapicAddr e)) s;
               maxGSIs = m + gsiBase e in
           if ucast (gsiBase e) \<le> gsi \<and> gsi \<le> ucast maxGSIs then Inr (Exit (i, s))
           else if i = n then Inr (Exit (ERROR, s))
           else Inr (Next s)))
         0 n s)
        (\<lambda>f. case f of Exit (i, s) \<Rightarrow> Inr (i, s) | Next s \<Rightarrow> Inr (n, s)))"

definition writeRedirectionTable ::
  "u32 \<Rightarrow> u64 \<Rightarrow> 'a acpi_state_scheme \<Rightarrow> (u64 \<times> 'a acpi_state_scheme) result"
where
  "writeRedirectionTable gsi data s =
     and_then (findVaildIOAPIC (ucast gsi) s) (\<lambda>(ioapicIndex, s).
     if ioapicIndex = ERROR then
       and_then (kprintDS (cstr ''[APIC]'') (cstr ''Bad GSI'') [] s) (\<lambda>s. Inr (0, s))
     else
       and_then (fetch (madtEntry1 (madtInfo s)) ioapicIndex) (\<lambda>e.
       let reg = (gsi - gsiBase e) * 2 + 16;
           s = ioapicWrite (ucast (ioapicAddr e)) reg (ucast data) s;
           s = ioapicWrite (ucast (ioapicAddr e)) (reg + 1) (ucast (drop_bit 32 data)) s in
       Inr (1, s)))"

definition readRedirectionTable :: "u32 \<Rightarrow> 'a acpi_state_scheme \<Rightarrow> (u64 \<times> 'a acpi_state_scheme) result" where
  "readRedirectionTable gsi s =
     and_then (findVaildIOAPIC (ucast gsi) s) (\<lambda>(ioapicIndex, s).
     if ioapicIndex = ERROR then
       and_then (kprintDS (cstr ''[APIC]'') (cstr ''Bad GSI'') [] s) (\<lambda>s. Inr (69420, s))
     else
       and_then (fetch (madtEntry1 (madtInfo s)) ioapicIndex) (\<lambda>e.
       let reg = (gsi - gsiBase e) * 2 + 16;
           (lo, s) = ioapicRead (ucast (ioapicAddr e)) reg s; data = ucast lo;
           (hi, s) = ioapicRead (ucast (ioapicAddr e)) (reg + 1) s in
       Inr (data OR push_bit 32 (ucast hi), s)))"

definition maskGSI :: "u32 \<Rightarrow> 'a acpi_state_scheme \<Rightarrow> 'a acpi_state_scheme result" where
  "maskGSI gsi s =
     and_then (readRedirectionTable gsi s) (\<lambda>(redirectionTable, s).
     if redirectionTable = ERROR then
       kprintDS (cstr ''[APIC]'') (cstr ''Bad redirection table : unable to mask GSI %x'') [VaInt gsi] s
     else and_then (writeRedirectionTable gsi (redirectionTable OR push_bit 16 1) s) (\<lambda>(_, s). Inr s))"

section \<open>The timer and the initialisation\<close>

definition lapicTimerInit :: "nat \<Rightarrow> u64 \<Rightarrow> 'a acpi_state_scheme \<Rightarrow> 'a acpi_state_scheme result" where
  "lapicTimerInit fuel ticksPerMS s =
     (let ticksPerMS = ticksPerMS - 10 in
      and_then (ksleep fuel 10 (lapicWrite LAPIC_TIMER_DIVIDE_CONF 0x3 s)) (\<lambda>s.
      and_then (ksleep fuel ticksPerMS (lapicWrite LAPIC_TIMER_INITAL_COUNT 0xffffffff s)) (\<lambda>s.
      let (count, s) = lapicRead LAPIC_TIMER_CURRENT_COUNT s;
          ticks = 0xffffffff - count;
          s = lapicWrite LAPIC_TIMER_LVT (32 OR 0x20000) s;
          s = lapicWrite LAPIC_TIMER_DIVIDE_CONF 0x3 s in
      Inr (lapicWrite LAPIC_TIMER_INITAL_COUNT ticks s))))"

text \<open>The loop that masks the interrupts of one I/O APIC asks the device for its bound in every
  round; the fuel bounds the rounds.\<close>

primrec mask_all :: "nat \<Rightarrow> madtEntry1_t \<Rightarrow> u64 \<Rightarrow> 'a acpi_state_scheme \<Rightarrow> 'a acpi_state_scheme result" where
  "mask_all 0 e j s = Inl OutOfFuel"
| "mask_all (Suc fuel) e j s =
     (let (m, s) = getMaxGSIs (ucast (ioapicAddr e)) s in
      if j < ucast m then and_then (maskGSI (ucast j) s) (mask_all fuel e (j + 1)) else Inr s)"

definition pic_setup :: "(u16 \<times> u8) list" where
  "pic_setup = [(0x20, 0x11), (0xa0, 0x11), (0x21, 0x20), (0xa1, 0x28), (0x21, 0x4), (0xa1, 0x2),
     (0x21, 0x1), (0xa1, 0x1), (0x21, 0x0), (0xa1, 0x0), (0xa1, 0xff), (0x21, 0xff)]"

definition initAPIC :: "nat \<Rightarrow> 'a apic_state_scheme \<Rightarrow> 'a apic_state_scheme result" where
  "initAPIC fuel s =
     (let s = fold (\<lambda>(port, data). outb port data) pic_setup s in
      and_then (kprintVS (cstr (''Detected cpu cores %d'' @ [CHR 0x0A])) [VaInt (ucast (madtEntry0Count (madtInfo s)))] s) (\<lambda>s.
      and_then (each_u64 (\<lambda>i s.
        and_then (fetch (madtEntry1 (madtInfo s)) i) (\<lambda>e. mask_all fuel e (ucast (gsiBase e)) s))
        0 (ucast (madtEntry1Count (madtInfo s))) s) (\<lambda>s.
      and_then (each_u64 (\<lambda>i s.
        and_then (writeRedirectionTable (ucast i) (i + 32) s) (\<lambda>(_, s). Inr s)) 0 16 s) (\<lambda>s.
      let (spurious, s) = lapicRead LAPIC_SINT s;
          s = lapicWrite LAPIC_SINT (spurious OR 0x1ff) s;
          (base, s) = rdmsr MSR_APIC_BASE s in
      and_then
        (if base AND push_bit 11 1 \<noteq> 0 then kprintVS (cstr (''lapic enabled'' @ [CHR 0x0A])) [] s
         else kprintVS (cstr (''A full bruh momento just occoured, we could not make your lapic to work :('' @ [CHR 0x0A])) [] s)
        (\<lambda>s. Inr (s\<lparr>cr8 := 0\<rparr>))))))"

section \<open>The device behind the windows\<close>

text \<open>The documented I/O APIC: a write to the first window selects a register, accesses to the
  second, 16 bytes on, go to the selected register.\<close>

type_synonym ioapic = "u32 \<times> (u32 \<Rightarrow> u32)"

fun ioapic_step :: "u64 \<Rightarrow> io_event \<Rightarrow> ioapic \<Rightarrow> ioapic" where
  "ioapic_step base (MmioWrite a v) (sel, regs) =
     (if a = base + HIGH_VMA then (v, regs)
      else if a = base + 16 + HIGH_VMA then (sel, regs(sel := v))
      else (sel, regs))"
| "ioapic_step base e d = d"

definition ioapic_state :: "u64 \<Rightarrow> io_event list \<Rightarrow> ioapic" where
  "ioapic_state base es = fold (ioapic_step base) es (0, \<lambda>_. 0)"

lemma ioapic_windows: "base + 16 + HIGH_VMA \<noteq> base + HIGH_VMA"
  by simp

lemma ioapicWrite_log:
  "ioapicWrite base reg data s = s\<lparr>io_log := io_log s @ [MmioWrite (base + HIGH_VMA) reg, MmioWrite (base + 16 + HIGH_VMA) data]\<rparr>"
  by (simp add: ioapicWrite_def mmio_write_def io_write_def)

lemma ioapicRead_log:
  "io_log (snd (ioapicRead base reg s)) = io_log s @ [MmioWrite (base + 16 + HIGH_VMA) reg, MmioRead (base + 18 + HIGH_VMA)]"
  by (simp add: ioapicRead_def mmio_write_def mmio_read_def io_write_def io_read_def Let_def)

text \<open>
  \<open>ioapicWrite\<close> stores the value in the register it names and in no other. \<open>ioapicRead\<close> does
  not select the register: it writes the register's number into the register that was selected
  last, so that reading back what was just written destroys it.
\<close>

theorem ioapic_write_read:
  fixes s :: "'a acpi_state_scheme"
  shows "(let (sel, regs) = ioapic_state base (io_log s);
        s1 = ioapicWrite base reg data s; (v, s2) = ioapicRead base reg s1 in
      ioapic_state base (io_log s1) = (reg, regs(reg := data)) \<and>
      ioapic_state base (io_log s2) = (reg, regs(reg := reg)))"
  by (cases "ioapic_state base (io_log s)")
    (simp add: ioapicWrite_log ioapicRead_def mmio_write_def mmio_read_def io_write_def io_read_def
      ioapic_state_def Let_def split_beta)

end
