(* ===== verification/Interrupts.thy ===== *)
theory Interrupts
  imports Apic
begin

text \<open>
  Interrupts: the gates of \<^verbatim>\<open>kernel/int/idt.c\<close> and the dispatch \<open>isrHandlerMain\<close>, the system
  calls of \<^verbatim>\<open>kernel/int/syscall.c\<close>, and \<open>printf\<close> of \<^verbatim>\<open>lib/libu/logs.c\<close>, which prints by a system
  call for every character: \<open>userspace\<close>, the interpretation of \<open>char_device\<close> on that call, carries
  the correctness of the format loop through the interrupt path. The stubs of \<^verbatim>\<open>isr.asm\<close> are
  symbols; what they push is the argument of \<open>isrHandlerMain\<close>.
\<close>

section \<open>State\<close>

record idtEntry_t =
  offsetLow :: u16
  selector :: u16
  zero8 :: u8
  gateAttributes :: u8
  offsetMid :: u16
  offsetHigh :: u32
  zero32 :: u32

record idtr_t =
  idtr_limit :: u16
  idtr_offset :: u64

text \<open>The symbols of the stubs.\<close>

datatype isr_symbol = Isr nat | ErrorIsr nat

definition isr_symbols :: "isr_symbol list" where
  "isr_symbols = map (\<lambda>i. if i \<in> {8, 10, 11, 12, 13, 14} then ErrorIsr i else Isr i) [0..<256]"

text \<open>The functions in the table of handlers.\<close>

datatype eventHandler = SchedulerMain | SyscallMain

record int_state = apic_state +
  idt :: "idtEntry_t list"
  idtAddr :: u64
  idtr :: idtr_t
  eventHandlers :: "eventHandler option list"
  cr2 :: u64
  syscallLock :: bool
  printfLock :: bool

definition initial_eventHandlers :: "eventHandler option list" where
  "initial_eventHandlers = (replicate 256 None)[32 := Some SchedulerMain]"

definition exceptionMessages :: "string list" where
  "exceptionMessages = [''Divide by zero'', ''Debug'', ''NMI'', ''Breakpoint'', ''Overflow'',
     ''Bound Range Exceeded'', ''Invaild Opcode'', ''Device Not Available'', ''Double fault'',
     ''Co-processor Segment Overrun'', ''Invaild TSS'', ''Segment not present'', ''Stack-Segment Fault'',
     ''GPF'', ''Page Fault'', ''Reserved'', ''x87 Floating Point Exception'', ''allignement check'',
     ''Machine check'', ''SIMD floating-point exception'', ''Virtualization Excpetion'', ''Deadlock'',
     ''Reserved'', ''Reserved'', ''Reserved'', ''Reserved'', ''Reserved'', ''Reserved'', ''Reserved'',
     ''Reserved'', ''Reserved'', ''Security Exception'', ''Reserved'', ''Triple Fault'', ''FPU error'']"

section \<open>The gates\<close>

definition setIDTentry ::
  "u8 \<Rightarrow> u8 \<Rightarrow> u8 \<Rightarrow> u64 \<Rightarrow> 'a int_state_scheme \<Rightarrow> 'a int_state_scheme result"
where
  "setIDTentry codeSelector i typesAndAttributes offset s =
     and_then (store (idt s) (ucast i)
       \<lparr>offsetLow = ucast offset, selector = ucast codeSelector, zero8 = 0,
        gateAttributes = typesAndAttributes, offsetMid = ucast (drop_bit 16 offset),
        offsetHigh = ucast (drop_bit 32 offset), zero32 = 0\<rparr>)
       (\<lambda>gs. Inr (s\<lparr>idt := gs\<rparr>))"

fun set_gates ::
  "(isr_symbol \<Rightarrow> u64) \<Rightarrow> (nat \<times> u8 \<times> isr_symbol) list \<Rightarrow> 'a int_state_scheme \<Rightarrow> 'a int_state_scheme result"
where
  "set_gates addr [] s = Inr s"
| "set_gates addr ((i, attr, stub) # gs) s =
     and_then (setIDTentry 8 (of_nat i) attr (addr stub) s) (set_gates addr gs)"

text \<open>The exceptions: six of the stubs expect the processor to have pushed an error code.\<close>

definition exception_gates :: "(nat \<times> u8 \<times> isr_symbol) list" where
  "exception_gates = [(0, 0x8f, Isr 0), (1, 0x8f, Isr 1), (2, 0x8f, Isr 2), (3, 0x8f, Isr 3),
     (4, 0x8f, Isr 4), (5, 0x8f, Isr 5), (6, 0x8f, Isr 6), (7, 0x8f, Isr 7), (8, 0x8f, ErrorIsr 8),
     (9, 0x8f, Isr 9), (10, 0x8f, ErrorIsr 10), (11, 0x8f, ErrorIsr 11), (12, 0x8f, ErrorIsr 12),
     (13, 0x8f, ErrorIsr 13), (14, 0x8f, ErrorIsr 14)] @ map (\<lambda>i. (i, 0x8f, Isr i)) [15..<32]"

text \<open>The interrupts of devices up to the system call, and the rest; 255 is not among them.\<close>

definition device_gates :: "(nat \<times> u8 \<times> isr_symbol) list" where
  "device_gates = map (\<lambda>i. (i, 0x8f, Isr i)) [32..<105]"

definition syscall_gate :: "nat \<times> u8 \<times> isr_symbol" where
  "syscall_gate = (105, 0xef, Isr 105)"

definition upper_gates :: "(nat \<times> u8 \<times> isr_symbol) list" where
  "upper_gates = map (\<lambda>i. (i, 0x8f, Isr i)) [106..<255]"

definition idtInit :: "(isr_symbol \<Rightarrow> u64) \<Rightarrow> 'a int_state_scheme \<Rightarrow> 'a int_state_scheme result" where
  "idtInit addr s =
     and_then (store (eventHandlers s) 0x69 (Some SyscallMain)) (\<lambda>hs.
     and_then (set_gates addr (exception_gates @ device_gates @ [syscall_gate] @ upper_gates)
       (s\<lparr>eventHandlers := hs\<rparr>)) (\<lambda>s.
       Inr (s\<lparr>idtr := \<lparr>idtr_limit = 256 * 16 - 1, idtr_offset = idtAddr s\<rparr>\<rparr>)))"

section \<open>System calls\<close>

definition OUTPUT :: u64 where "OUTPUT = 0"
definition INPUT :: u64 where "INPUT = 1"
definition CALLS :: u64 where "CALLS = 2"
definition SERIAL :: u64 where "SERIAL = 0"
definition VIDEO :: u64 where "VIDEO = 1"
definition PTHREAD :: u64 where "PTHREAD = 0"

lemmas syscall_numbers = OUTPUT_def INPUT_def CALLS_def SERIAL_def VIDEO_def PTHREAD_def

text \<open>\<open>fresh\<close> and \<open>junk\<close> are the uninitialised memory \<open>createThread\<close> reads.\<close>

definition syscallMain ::
  "(nat \<Rightarrow> thread_t) \<Rightarrow> regs_t \<Rightarrow> regs_t \<Rightarrow> 'a int_state_scheme \<Rightarrow> 'a int_state_scheme result"
where
  "syscallMain fresh junk regs s =
     and_then (spinLock (syscallLock s)) (\<lambda>l.
     let s = s\<lparr>syscallLock := l\<rparr> in
     and_then
       (if rax regs = OUTPUT then
          if rcx regs = SERIAL then Inr (serialWrite (char_of (unat (ucast (rdx regs) :: u8))) s)
          else Inr s
        else if rax regs = INPUT then Inr s
        else if rax regs = CALLS then
          if rcx regs = PTHREAD then createThread fresh junk (rdx regs) (rbx regs) s
          else Inr s
        else Inr s)
       (\<lambda>s. Inr (s\<lparr>syscallLock := spinRelease (syscallLock s)\<rparr>)))"

section \<open>The dispatch\<close>

definition call_handler ::
  "(nat \<Rightarrow> thread_t) \<Rightarrow> regs_t \<Rightarrow> eventHandler \<Rightarrow> regs_t \<Rightarrow> 'a int_state_scheme \<Rightarrow>
   (resumption \<times> 'a int_state_scheme) result"
where
  "call_handler fresh junk h regs s =
     (case h of
        SchedulerMain \<Rightarrow> schedulerMain regs s
      | SyscallMain \<Rightarrow> and_then (syscallMain fresh junk regs s) (\<lambda>s. Inr (Return, s)))"

definition exception_report :: "regs_t \<Rightarrow> 'a int_state_scheme \<Rightarrow> 'a int_state_scheme result" where
  "exception_report r s =
     and_then (fetch exceptionMessages (isrNumber r)) (\<lambda>message.
     and_then (kprintVS (cstr (''Congrats: you fucked up with a nice <%s> on core %d and error code %x, have fun debugging this'' @ [CHR 0x0A]))
       [VaStr (cstr message), VaLong (r_core r), VaLong (errorCode r)] s) (\<lambda>s.
     and_then (kprintVS (cstr (''RAX: %a | RBX: %a | RCX: %a | RDX: %a'' @ [CHR 0x0A]))
       [VaLong (rax r), VaLong (rbx r), VaLong (rcx r), VaLong (rdx r)] s) (\<lambda>s.
     and_then (kprintVS (cstr (''RSI: %a | RDI: %a | RBP: %a | RSP: %a'' @ [CHR 0x0A]))
       [VaLong (rsi r), VaLong (rdi r), VaLong (rbp r), VaLong (rsp r)] s) (\<lambda>s.
     and_then (kprintVS (cstr (''r8:  %a | r9:  %a | r10: %a | r11: %a'' @ [CHR 0x0A]))
       [VaLong (r8 r), VaLong (r9 r), VaLong (r10 r), VaLong (r11 r)] s) (\<lambda>s.
     and_then (kprintVS (cstr (''r12: %a | r13: %a | r14: %a | r15: %a'' @ [CHR 0x0A]))
       [VaLong (r12 r), VaLong (r13 r), VaLong (r14 r), VaLong (r15 r)] s) (\<lambda>s.
       kprintVS (cstr (''cs:  %a | ss:  %a | cr2: %a | rip: %a'' @ [CHR 0x0A]))
         [VaLong (r_cs r), VaLong (r_ss r), VaLong (cr2 s), VaLong (rip r)] s))))))"

text \<open>A handler that starts or resumes a task does not return; an exception stops the core.\<close>

definition isrHandlerMain ::
  "(nat \<Rightarrow> thread_t) \<Rightarrow> regs_t \<Rightarrow> regs_t \<Rightarrow> 'a int_state_scheme \<Rightarrow> (resumption \<times> 'a int_state_scheme) result"
where
  "isrHandlerMain fresh junk regs s =
     (let s = lapicWrite LAPIC_EOI 0 s in
      and_then (fetch (eventHandlers s) (isrNumber regs)) (\<lambda>h.
      and_then (case h of Some h \<Rightarrow> call_handler fresh junk h regs s | None \<Rightarrow> Inr (Return, s)) (\<lambda>(r, s).
        if r \<noteq> Return then Inr (r, s)
        else if isrNumber regs < 32 then and_then (exception_report regs s) (\<lambda>_. Inl Halt)
        else Inr (Return, s))))"

section \<open>printf\<close>

text \<open>\<open>printSerial\<close> of \<^verbatim>\<open>syscalls.asm\<close>: interrupt 0x69 with the type and the device 0 and the
  character, sign extended from \<open>char\<close>, in \<open>rdx\<close>; \<open>regs\<close> is what the other registers hold.\<close>

definition printSerial ::
  "(nat \<Rightarrow> thread_t) \<Rightarrow> regs_t \<Rightarrow> regs_t \<Rightarrow> char \<Rightarrow> 'a int_state_scheme \<Rightarrow> 'a int_state_scheme result"
where
  "printSerial fresh junk regs c s =
     and_then (isrHandlerMain fresh junk
       (regs\<lparr>rax := 0, rcx := 0, rdx := scast (of_nat (of_char c) :: u8), isrNumber := 0x69, errorCode := 0\<rparr>) s)
       (\<lambda>(_, s). Inr s)"

definition printf ::
  "(nat \<Rightarrow> thread_t) \<Rightarrow> regs_t \<Rightarrow> regs_t \<Rightarrow> string \<Rightarrow> va_value list \<Rightarrow> 'a int_state_scheme \<Rightarrow>
   'a int_state_scheme result"
where
  "printf fresh junk regs str args s =
     and_then (spinLock (printfLock s)) (\<lambda>l.
     and_then (strlen str) (\<lambda>n.
     and_then (format_out (printSerial fresh junk regs) (take (unat n) str) args (s\<lparr>printfLock := l\<rparr>)) (\<lambda>s.
     and_then (printSerial fresh junk regs CHR 0x0A s) (\<lambda>s.
       Inr (s\<lparr>printfLock := spinRelease (printfLock s)\<rparr>)))))"

section \<open>What the processor reads from a gate\<close>

definition gate_offset :: "idtEntry_t \<Rightarrow> u64" where
  "gate_offset e = ucast (offsetLow e) OR push_bit 16 (ucast (offsetMid e)) OR push_bit 32 (ucast (offsetHigh e))"

definition gate_present :: "idtEntry_t \<Rightarrow> bool" where "gate_present e \<longleftrightarrow> bit (gateAttributes e) 7"
definition gate_dpl :: "idtEntry_t \<Rightarrow> nat" where "gate_dpl e = unat (drop_bit 5 (gateAttributes e) AND 3)"
definition gate_type :: "idtEntry_t \<Rightarrow> nat" where "gate_type e = unat (gateAttributes e AND 0xf)"

definition gate :: "u8 \<Rightarrow> u64 \<Rightarrow> idtEntry_t" where
  "gate attr offset = \<lparr>offsetLow = ucast offset, selector = 8, zero8 = 0, gateAttributes = attr,
     offsetMid = ucast (drop_bit 16 offset), offsetHigh = ucast (drop_bit 32 offset), zero32 = 0\<rparr>"

lemma gate_offset_gate: "gate_offset (gate attr offset) = offset"
proof (rule bit_word_eqI)
  fix n
  assume "n < LENGTH(64)"
  then consider "n < 16" | "16 \<le> n" "n < 32" | "32 \<le> n" "n < 64" by fastforce
  then show "bit (gate_offset (gate attr offset)) n \<longleftrightarrow> bit offset n"
    by cases (auto simp: gate_offset_def gate_def bit_simps dest: bit_imp_le_length)
qed

lemma gate_attributes:
  "gate_present (gate 0x8f a)" "gate_dpl (gate 0x8f a) = 0" "gate_type (gate 0x8f a) = 15"
  "gate_present (gate 0xef a)" "gate_dpl (gate 0xef a) = 3" "gate_type (gate 0xef a) = 15"
proof -
  have "bit (0x8f :: u8) 7" "unat (drop_bit 5 (0x8f :: u8) AND 3) = 0" "unat ((0x8f :: u8) AND 0xf) = 15"
    "bit (0xef :: u8) 7" "unat (drop_bit 5 (0xef :: u8) AND 3) = 3" "unat ((0xef :: u8) AND 0xf) = 15"
    by code_simp+
  then show "gate_present (gate 0x8f a)" "gate_dpl (gate 0x8f a) = 0" "gate_type (gate 0x8f a) = 15"
    "gate_present (gate 0xef a)" "gate_dpl (gate 0xef a) = 3" "gate_type (gate 0xef a) = 15"
    by (simp_all add: gate_present_def gate_dpl_def gate_type_def gate_def)
qed

lemma setIDTentry_gate:
  "length (idt s) = 256 \<Longrightarrow> i < 256 \<Longrightarrow> setIDTentry 8 (of_nat i) attr offset s = Inr (s\<lparr>idt := (idt s)[i := gate attr offset]\<rparr>)"
  by (simp add: setIDTentry_def store_def gate_def unat_ucast_up unat_of_nat_small)

lemma set_gates_eq:
  assumes "length (idt s) = 256" and "\<forall>(i, _) \<in> set gs. i < 256" and "distinct (map fst gs)"
  shows "\<exists>t. set_gates addr gs s = Inr (s\<lparr>idt := t\<rparr>) \<and> length t = 256 \<and>
    (\<forall>(i, attr, stub) \<in> set gs. t ! i = gate attr (addr stub)) \<and>
    (\<forall>j. j \<notin> fst ` set gs \<longrightarrow> t ! j = idt s ! j)"
  using assms
proof (induction gs arbitrary: s)
  case Nil
  then show ?case by (intro exI [of _ "idt s"]) simp
next
  case (Cons g gs)
  obtain i attr stub where g: "g = (i, attr, stub)" by (cases g)
  let ?s = "s\<lparr>idt := (idt s)[i := gate attr (addr stub)]\<rparr>"
  have i: "i < 256" "i \<notin> fst ` set gs" using Cons.prems g by auto
  obtain t where t: "set_gates addr gs ?s = Inr (?s\<lparr>idt := t\<rparr>)" "length t = 256"
    "\<forall>(i, attr, stub) \<in> set gs. t ! i = gate attr (addr stub)" "\<forall>j. j \<notin> fst ` set gs \<longrightarrow> t ! j = idt ?s ! j"
    using Cons.IH [of ?s] Cons.prems by auto
  have "t ! i = gate attr (addr stub)" using t(4) i Cons.prems(1) by simp
  then show ?case
    using t i g setIDTentry_gate [OF Cons.prems(1) i(1)]
    by (intro exI [of _ t]) (auto simp: nth_list_update)
qed

definition gate_attr :: "nat \<Rightarrow> u8" where
  "gate_attr v = (if v = 105 then 0xef else 0x8f)"

definition all_gates :: "(nat \<times> u8 \<times> isr_symbol) list" where
  "all_gates = map (\<lambda>v. (v, gate_attr v, isr_symbols ! v)) [0..<255]"

lemma all_gates_eq: "exception_gates @ device_gates @ [syscall_gate] @ upper_gates = all_gates"
proof -
  have split: "[0..<255] = [0..<15] @ [15..<32] @ [32..<105] @ [105] @ [106..<255 :: nat]"
    using upt_add_eq_append [of 0 15 240] upt_add_eq_append [of 15 32 223] upt_add_eq_append [of 32 105 150]
      upt_conv_Cons [of 105 255] by simp
  have nth: "isr_symbols ! v = (if v \<in> {8, 10, 11, 12, 13, 14} then ErrorIsr v else Isr v)" if "v < 255" for v
    using that by (simp add: isr_symbols_def)
  have low: "map (\<lambda>v. (v, gate_attr v, isr_symbols ! v)) [0..<15] =
      [(0, 0x8f, Isr 0), (1, 0x8f, Isr 1), (2, 0x8f, Isr 2), (3, 0x8f, Isr 3),
     (4, 0x8f, Isr 4), (5, 0x8f, Isr 5), (6, 0x8f, Isr 6), (7, 0x8f, Isr 7), (8, 0x8f, ErrorIsr 8),
     (9, 0x8f, Isr 9), (10, 0x8f, ErrorIsr 10), (11, 0x8f, ErrorIsr 11), (12, 0x8f, ErrorIsr 12),
     (13, 0x8f, ErrorIsr 13), (14, 0x8f, ErrorIsr 14)]"
    by (simp add: upt_rec nth gate_attr_def)
  show ?thesis
    unfolding all_gates_def split map_append low exception_gates_def device_gates_def syscall_gate_def upper_gates_def
    by (simp add: nth gate_attr_def)
qed

text \<open>
  C24: \<open>idtInit\<close> makes 255 present trap gates: the offset that can be read back from the three fields of
  gate \<open>v\<close> is the address of the stub for \<open>v\<close> (with an error code for 8 and 10 to 14), and only the
  gate of the system call, 0x69, can be used from privilege level 3. Gate 255 stays as it
  was. The handler of the system call is entered, and the table loaded with its full size.
\<close>

theorem idtInit_gates:
  assumes "length (idt s) = 256" and "length (eventHandlers s) = 256"
  shows "\<exists>s'. idtInit addr s = Inr s' \<and>
    (\<forall>v < 255. gate_offset (idt s' ! v) = addr (isr_symbols ! v) \<and> selector (idt s' ! v) = 8 \<and>
       gate_present (idt s' ! v) \<and> gate_type (idt s' ! v) = 15 \<and>
       gate_dpl (idt s' ! v) = (if v = 105 then 3 else 0)) \<and>
    idt s' ! 255 = idt s ! 255 \<and> eventHandlers s' = (eventHandlers s)[105 := Some SyscallMain] \<and>
    idtr s' = \<lparr>idtr_limit = 4095, idtr_offset = idtAddr s\<rparr>"
proof -
  let ?s = "s\<lparr>eventHandlers := (eventHandlers s)[105 := Some SyscallMain]\<rparr>"
  have "\<exists>t. set_gates addr all_gates ?s = Inr (?s\<lparr>idt := t\<rparr>) \<and> length t = 256 \<and>
    (\<forall>(i, attr, stub) \<in> set all_gates. t ! i = gate attr (addr stub)) \<and>
    (\<forall>j. j \<notin> fst ` set all_gates \<longrightarrow> t ! j = idt ?s ! j)"
    by (rule set_gates_eq) (use assms in \<open>auto simp: all_gates_def comp_def\<close>)
  then obtain t where t: "set_gates addr all_gates ?s = Inr (?s\<lparr>idt := t\<rparr>)"
    "\<forall>(i, attr, stub) \<in> set all_gates. t ! i = gate attr (addr stub)"
    "\<forall>j. j \<notin> fst ` set all_gates \<longrightarrow> t ! j = idt s ! j" by auto
  have v: "t ! v = gate (gate_attr v) (addr (isr_symbols ! v))" if "v < 255" for v
    using t(2) that by (auto simp: all_gates_def)
  have last: "t ! 255 = idt s ! 255" using t(3) by (auto simp: all_gates_def)
  have "idtInit addr s = Inr (?s\<lparr>idt := t, idtr := \<lparr>idtr_limit = 4095, idtr_offset = idtAddr s\<rparr>\<rparr>)"
    using assms t(1) unfolding idtInit_def all_gates_eq by (simp add: store_def)
  then show ?thesis
    using v last by (auto simp: gate_attr_def gate_offset_gate gate_attributes) (auto simp: gate_def)
qed

section \<open>The interrupt path\<close>

definition eoi :: "'a int_state_scheme \<Rightarrow> 'a int_state_scheme" where
  "eoi s = lapicWrite LAPIC_EOI 0 s"

lemma eoi_simps [simp]:
  "eventHandlers (eoi s) = eventHandlers s" "syscallLock (eoi s) = syscallLock s" "serial (eoi s) = serial s"
  "madtInfo (eoi s) = madtInfo s" "printfLock (eoi s) = printfLock s"
  "io_log (eoi s) = io_log s @ [MmioWrite (lapic_reg LAPIC_EOI s) 0]" "itobBuffer (eoi s) = itobBuffer s"
  "eoi (s\<lparr>itobBuffer := b\<rparr>) = (eoi s)\<lparr>itobBuffer := b\<rparr>" "lapic_reg i (eoi s) = lapic_reg i s"
  by (simp_all add: eoi_def lapicWrite_def mmio_write_def io_write_def lapic_reg_def)

definition handlers_set :: "'a int_state_scheme \<Rightarrow> bool" where
  "handlers_set s \<longleftrightarrow> eventHandlers s = initial_eventHandlers[105 := Some SyscallMain]"

lemma handlers:
  assumes "handlers_set s" and "unat n < 256"
  shows "fetch (eventHandlers s) n = Inr (if n = 32 then Some SchedulerMain else if n = 105 then Some SyscallMain else None)"
  using assms
  by (auto simp: handlers_set_def initial_eventHandlers_def fetch_def nth_list_update word_unat_eq_iff)

lemma isrHandlerMain_eq:
  fixes s :: "'a int_state_scheme"
  assumes "handlers_set s" and "unat (isrNumber regs) < 256"
  shows "isrHandlerMain fresh junk regs s =
    (if isrNumber regs < 32 then and_then (exception_report regs (eoi s)) (\<lambda>_. Inl Halt)
     else if isrNumber regs = 32 then schedulerMain regs (eoi s)
     else if isrNumber regs = 105 then and_then (syscallMain fresh junk regs (eoi s)) (\<lambda>s'. Inr (Return, s'))
     else Inr (Return, eoi s))"
proof -
  have "handlers_set (eoi s)" using assms by (simp add: handlers_set_def)
  note h = handlers [OF this assms(2)]
  have same: "and_then m (\<lambda>(r, s). if r \<noteq> Return then Inr (r, s)
      else if isrNumber regs < 32 then and_then (exception_report regs s) (\<lambda>_. Inl Halt)
      else Inr (Return, s)) = m" if "isrNumber regs = 32" for m :: "(resumption \<times> 'a int_state_scheme) result"
    using that by (cases m) auto
  show ?thesis
    unfolding isrHandlerMain_def Let_def eoi_def [symmetric] h
    by (auto simp: call_handler_def and_then_assoc word_less_nat_alt same)
qed

text \<open>
  C23: every interrupt is first acknowledged. Vector 32 is then the scheduler's, whatever it does; vector 0x69
  is a system call, after which the interrupt returns; an exception never returns; every other
  vector of the table does nothing more.
\<close>

theorem isrHandlerMain_dispatch:
  assumes "handlers_set s"
  shows "if isrNumber regs < 32 then \<forall>x. isrHandlerMain fresh junk regs s \<noteq> Inr x
    else if isrNumber regs = 32 then isrHandlerMain fresh junk regs s = schedulerMain regs (eoi s)
    else if isrNumber regs = 105 then isrHandlerMain fresh junk regs s =
      and_then (syscallMain fresh junk regs (eoi s)) (\<lambda>s'. Inr (Return, s'))
    else if isrNumber regs < 256 then isrHandlerMain fresh junk regs s = Inr (Return, eoi s)
    else isrHandlerMain fresh junk regs s = Inl OutOfBounds"
proof (cases "unat (isrNumber regs) < 256")
  case True
  then show ?thesis
    unfolding isrHandlerMain_eq [OF assms True] by (auto simp: and_then_eq_Inr_iff word_less_nat_alt)
next
  case False
  then have "\<not> isrNumber regs < 256" "\<not> isrNumber regs < 32" "isrNumber regs \<noteq> 32" "isrNumber regs \<noteq> 105"
    by (auto simp: word_less_nat_alt)
  moreover have "fetch (eventHandlers (eoi s)) (isrNumber regs) = Inl OutOfBounds"
    using assms False by (simp add: handlers_set_def initial_eventHandlers_def fetch_def)
  ultimately show ?thesis unfolding isrHandlerMain_def Let_def eoi_def [symmetric] by simp
qed

section \<open>Printing by system calls\<close>

definition put_by_call :: "char \<Rightarrow> 'a int_state_scheme \<Rightarrow> 'a int_state_scheme" where
  "put_by_call c s = serialWrite c (eoi s)"

definition calls_ready :: "'a int_state_scheme \<Rightarrow> bool" where
  "calls_ready s \<longleftrightarrow> handlers_set s \<and> \<not> syscallLock s"

lemma syscall_char: "char_of (unat (ucast (scast (of_nat (of_char c) :: u8) :: u64) :: u8)) = c"
proof -
  have "(ucast (scast b :: u64) :: u8) = b" for b :: u8
    by (rule bit_word_eqI) (auto simp: bit_simps)
  moreover have "unat (of_nat (of_char c) :: u8) = of_char c" by (rule unat_of_nat_small) simp
  ultimately show ?thesis by simp
qed

lemma syscallLock_twice: "\<not> syscallLock s \<Longrightarrow> (serialWrite c (s\<lparr>syscallLock := True\<rparr>))\<lparr>syscallLock := False\<rparr> = serialWrite c s"
  by (cases s) (simp add: serialWrite_def)

lemma printSerial_eq:
  assumes "calls_ready s"
  shows "printSerial fresh junk regs c s = Inr (put_by_call c s)"
proof -
  have "\<not> syscallLock (eoi s)" using assms by (simp add: calls_ready_def)
  then have "syscallMain fresh junk (regs\<lparr>rax := 0, rcx := 0, rdx := scast (of_nat (of_char c) :: u8), isrNumber := 0x69, errorCode := 0\<rparr>) (eoi s) =
      Inr (put_by_call c s)"
    by (simp add: syscallMain_def syscall_numbers syscall_char put_by_call_def spinRelease_def
        syscallLock_twice Let_def)
  then show ?thesis
    using isrHandlerMain_eq [of s "regs\<lparr>rax := 0, rcx := 0, rdx := scast (of_nat (of_char c) :: u8), isrNumber := 0x69, errorCode := 0\<rparr>"] assms
    by (simp add: printSerial_def calls_ready_def)
qed

lemma put_by_call_simps:
  "serial (put_by_call c s) = serial s @ [c]" "printfLock (put_by_call c s) = printfLock s"
  "syscallLock (put_by_call c s) = syscallLock s" "eventHandlers (put_by_call c s) = eventHandlers s"
  "io_log (put_by_call c s) = io_log s @ [MmioWrite (lapic_reg LAPIC_EOI s) 0]"
  "lapic_reg i (put_by_call c s) = lapic_reg i s"
  by (simp_all add: put_by_call_def serialWrite_def) (simp_all add: lapic_reg_def eoi_simps(4) [unfolded lapic_reg_def])

interpretation userspace: char_device "printSerial fresh junk regs" put_by_call "\<lambda>_. True" calls_ready
proof unfold_locales
  fix s :: "'a int_state_scheme" and b c
  show "calls_ready s \<Longrightarrow> printSerial fresh junk regs c s = Inr (put_by_call c s)" by (rule printSerial_eq)
  show "calls_ready s \<Longrightarrow> calls_ready (put_by_call c s)"
    by (simp add: calls_ready_def handlers_set_def put_by_call_simps)
  show "calls_ready (s\<lparr>itobBuffer := b\<rparr>) = calls_ready s" by (simp add: calls_ready_def handlers_set_def)
  show "put_by_call c (s\<lparr>itobBuffer := b\<rparr>) = (put_by_call c s)\<lparr>itobBuffer := b\<rparr>"
    by (simp add: put_by_call_def serialWrite_def)
qed

lemma fold_calls:
  "serial (fold put_by_call t s) = serial s @ t \<and> printfLock (fold put_by_call t s) = printfLock s \<and>
   io_log (fold put_by_call t s) = io_log s @ replicate (length t) (MmioWrite (lapic_reg LAPIC_EOI s) 0) \<and>
   lapic_reg LAPIC_EOI (fold put_by_call t s) = lapic_reg LAPIC_EOI s"
  by (induction t arbitrary: s) (simp_all add: put_by_call_simps)

text \<open>
  C21: \<open>printf\<close> of a format and arguments of the types the format asks for prints the rendered text and a
  newline on the serial port, through one system call for each character, which is acknowledged at the local APIC,
  and leaves its lock and the lock of the system calls free.
\<close>

theorem printf_prints:
  assumes "handlers_set s" and "\<not> syscallLock s" and "\<not> printfLock s" and "length (itobBuffer s) = 50"
    and "no_nul str" and "length str < 2 ^ 64" and "render str args = Some out"
  shows "\<exists>s'. printf fresh junk regs (cstr str) args s = Inr s' \<and> serial s' = serial s @ out @ [CHR 0x0A] \<and>
    io_log s' = io_log s @ replicate (length out + 1) (MmioWrite (lapic_reg LAPIC_EOI s) 0) \<and>
    \<not> printfLock s' \<and> \<not> syscallLock s'"
proof -
  let ?s = "s\<lparr>printfLock := True\<rparr>"
  have ready: "calls_ready ?s" using assms by (simp add: calls_ready_def handlers_set_def)
  have "holds (format_out (printSerial fresh junk regs) str args ?s) (shown put_by_call out ?s)"
    using assms ready by (intro userspace.format_out) (simp_all add: list_all_iff)
  then obtain s1 where s1: "format_out (printSerial fresh junk regs) str args ?s = Inr s1" "shown put_by_call out ?s s1"
    by (auto elim!: holdsE)
  have r1: "calls_ready s1" using userspace.shown_ready [OF s1(2) ready] by (simp add: list_all_iff)
  obtain b where b: "s1 = (fold put_by_call out ?s)\<lparr>itobBuffer := b\<rparr>" using s1(2) by (auto simp: shown_def)
  have reg: "lapic_reg LAPIC_EOI ?s = lapic_reg LAPIC_EOI s" "lapic_reg LAPIC_EOI s1 = lapic_reg LAPIC_EOI (fold put_by_call out ?s)"
    unfolding b by (simp_all add: lapic_reg_def)
  have sel: "serial s1 = serial s @ out"
    "io_log s1 = io_log s @ replicate (length out) (MmioWrite (lapic_reg LAPIC_EOI s) 0)"
    "lapic_reg LAPIC_EOI s1 = lapic_reg LAPIC_EOI s"
    using fold_calls [of out ?s] reg unfolding b by simp_all
  have "printf fresh junk regs (cstr str) args s =
      Inr ((put_by_call CHR 0x0A s1)\<lparr>printfLock := False\<rparr>)"
    using assms s1(1) printSerial_eq [OF r1]
    by (simp add: printf_def strlen_eq unat_of_nat_small take_cstr spinRelease_def)
  then show ?thesis
    using sel r1 by (simp add: put_by_call_simps calls_ready_def replicate_append_same [symmetric])
qed

section \<open>Witnesses\<close>

definition example_int :: int_state where
  "example_int = apic_state.extend (acpi_state.extend example_acpi \<lparr>cr8 = 0\<rparr>)
     \<lparr>idt = replicate 256 (gate 0 0), idtAddr = 0x10000, idtr = \<lparr>idtr_limit = 0, idtr_offset = 0\<rparr>,
      eventHandlers = initial_eventHandlers[105 := Some SyscallMain], cr2 = 0, syscallLock = False,
      printfLock = False\<rparr>"

lemma example_int_handlers: "handlers_set example_int"
  by (simp add: handlers_set_def example_int_def apic_state.defs)

fun example_addr :: "isr_symbol \<Rightarrow> u64" where
  "example_addr (Isr n) = 0xffffffff80000000 + 16 * of_nat n"
| "example_addr (ErrorIsr n) = 0xffffffff80010000"

theorem idtInit_gates_witness:
  "\<exists>s'. idtInit example_addr example_int = Inr s' \<and>
     gate_offset (idt s' ! 33) = 0xffffffff80000210 \<and> gate_dpl (idt s' ! 105) = 3 \<and> \<not> gate_present (idt s' ! 255)"
proof -
  have "length (idt example_int) = 256" "length (eventHandlers example_int) = 256"
    by (simp_all add: example_int_def apic_state.defs initial_eventHandlers_def)
  from idtInit_gates [OF this, of example_addr] obtain s' where s': "idtInit example_addr example_int = Inr s'"
    "\<forall>v < 255. gate_offset (idt s' ! v) = example_addr (isr_symbols ! v) \<and> gate_dpl (idt s' ! v) = (if v = 105 then 3 else 0)"
    "idt s' ! 255 = idt example_int ! 255" by blast
  have "idt example_int ! 255 = gate 0 0" by (simp add: example_int_def apic_state.defs)
  then have "\<not> gate_present (idt s' ! 255)" using s'(3) by (simp add: gate_present_def gate_def)
  moreover have "isr_symbols ! 33 = Isr 33" by (simp add: isr_symbols_def)
  ultimately show ?thesis using s'(1) s'(2) [rule_format, of 33] s'(2) [rule_format, of 105] by auto
qed

theorem isrHandlerMain_dispatch_witness:
  "isrHandlerMain (\<lambda>_. example_thread) zero_regs zero_regs example_int = schedulerMain zero_regs (eoi example_int) \<and>
   (\<forall>x. isrHandlerMain (\<lambda>_. example_thread) zero_regs (zero_regs\<lparr>isrNumber := 14\<rparr>) example_int \<noteq> Inr x)"
  using isrHandlerMain_dispatch [OF example_int_handlers, of zero_regs "\<lambda>_. example_thread" zero_regs]
    isrHandlerMain_dispatch [OF example_int_handlers, of "zero_regs\<lparr>isrNumber := 14\<rparr>" "\<lambda>_. example_thread" zero_regs]
  by (simp add: zero_regs_def)

theorem printf_prints_witness:
  "\<exists>s'. printf (\<lambda>_. example_thread) zero_regs zero_regs (cstr ''hi from userspace %d'') [VaLong 7] example_int = Inr s' \<and>
     serial s' = serial example_int @ ''hi from userspace 7'' @ [CHR 0x0A]"
proof -
  have r: "render ''hi from userspace %d'' [VaLong 7] = Some ''hi from userspace 7''"
    by (simp add: numeral_of.simps digit_char_def)
  have "length (itobBuffer example_int) = 50" "\<not> syscallLock example_int" "\<not> printfLock example_int"
    by (simp_all add: example_int_def apic_state.defs acpi_state.defs example_acpi_def sched_state.defs
        example_sched_def desc_state.defs example_desc_def pci_state.defs example_pci_def screen_state.defs
        io_state.defs example_screen_def vmm_state.defs example_vmm_def example_space_def)
  then show ?thesis
    using printf_prints [OF example_int_handlers _ _ _ _ _ r, of "\<lambda>_. example_thread" zero_regs zero_regs]
    by (auto simp: no_nul_def simp del: cstr_simps)
qed

end
