(* ===== verification/Smp.thy ===== *)
theory Smp
  imports Interrupts
begin

text \<open>
  Bringing up the other cores, \<^verbatim>\<open>kernel/sched/smp.c\<close>: \<open>initSMP\<close> on the first core, and
  \<open>kernelMainSMP\<close>, which a started core runs, up to the loop it ends in. The properties relate the task state
  segment a core loads to the one that was made for it and to the ones the scheduler writes.
\<close>

record smp_state = int_state +
  cpuInfoIndex :: u64
  numberOfCores :: u64

text \<open>The five arguments of the trampoline, at 0x500.\<close>

definition prepTrampoline ::
  "u64 \<Rightarrow> u64 \<Rightarrow> u64 \<Rightarrow> u64 \<Rightarrow> 'a smp_state_scheme \<Rightarrow> 'a smp_state_scheme"
where
  "prepTrampoline stack pml4 entryPt idtPtr s =
     (let arguments = 0x500 + HIGH_VMA in
      s\<lparr>mem := (mem s)(arguments := stack, arguments + 8 := pml4, arguments + 16 := entryPt,
          arguments + 24 := idtPtr, arguments + 32 := numberOfCores s),
        numberOfCores := numberOfCores s + 1\<rparr>)"

text \<open>The descriptors of a started core: the segment made for it goes to the next free entry, the one
  it loads is the entry \<open>cpuInfoIndex\<close>, which has been incremented before.\<close>

definition smp_descriptors ::
  "(nat \<Rightarrow> tss_t) \<Rightarrow> u64 \<Rightarrow> 'a smp_state_scheme \<Rightarrow> 'a smp_state_scheme result"
where
  "smp_descriptors fresh stack s =
     and_then (createGenericTSS fresh stack s) (\<lambda>s.
       createNewGDT (cpuInfoIndex s - 1) (grabTSS (cpuInfoIndex s) s) s)"

text \<open>\<open>asm ("movq %0, %%rsp" : "=r"(stack))\<close> names \<open>stack\<close> as an output: what the variable holds
  afterwards is whatever the register the compiler chose held, \<open>reg\<close>.\<close>

definition kernelMainSMP ::
  "nat \<Rightarrow> (nat \<Rightarrow> tss_t) \<Rightarrow> u64 \<Rightarrow> 'a smp_state_scheme \<Rightarrow> 'a smp_state_scheme result"
where
  "kernelMainSMP fuel fresh reg s =
     (let (spurious, s) = lapicRead LAPIC_SINT s;
          s = lapicWrite LAPIC_SINT (spurious OR 0x1ff) s;
          (ident, s) = lapicRead LAPIC_ID_REG s in
      and_then (fetch (cpuInfo s) (cpuInfoIndex s)) (\<lambda>c.
      and_then (store (cpuInfo s) (cpuInfoIndex s) (c\<lparr>coreID := ucast ident, currentTask := - 1\<rparr>)) (\<lambda>cs.
      let s = s\<lparr>cpuInfo := cs\<rparr>; i = cpuInfoIndex s; s = s\<lparr>cpuInfoIndex := i + 1\<rparr> in
      and_then (kprintDS (cstr ''[SMP]'') (cstr ''Core %d fully initalized'') [VaLong i] s) (\<lambda>s.
      and_then (kprintVS (cstr (''Hi from core %d'' @ [CHR 0x0A])) [VaLong (cpuInfoIndex s - 1)] s) (\<lambda>s.
      and_then (physicalPageAlloc 4 s) (\<lambda>(_, s).
      and_then (smp_descriptors fresh reg s) (\<lambda>s.
        lapicTimerInit fuel 100 s)))))))"

text \<open>\<open>entryPt\<close> is the address of \<open>kernelMainSMP\<close>, \<open>idtPtr\<close> that of \<open>idtr\<close>; the loop starts at 1.
  \<open>fresh\<close> is the content of the new table of cores.\<close>

definition start_core ::
  "nat \<Rightarrow> u64 \<Rightarrow> u64 \<Rightarrow> u64 \<Rightarrow> 'a smp_state_scheme \<Rightarrow> 'a smp_state_scheme result"
where
  "start_core fuel entryPt idtPtr i s =
     and_then (fetch (madtEntry0 (madtInfo s)) i) (\<lambda>e.
     if e0_flags e = 1 then
       and_then (physicalPageAlloc 4 s) (\<lambda>(p, s).
       let s = prepTrampoline (p + 0x4000 + HIGH_VMA) (grabPML4 s) entryPt idtPtr s;
           s = sendIPI (apicID e) 0x500 s;
           s = sendIPI (apicID e) (0x600 OR ucast (0x1000 div PAGESIZE)) s in
       ksleep fuel 10 s)
     else Inr s)"

definition initSMP ::
  "nat \<Rightarrow> (nat \<Rightarrow> cpuInfo_t) \<Rightarrow> u64 \<Rightarrow> u64 \<Rightarrow> 'a smp_state_scheme \<Rightarrow> 'a smp_state_scheme result"
where
  "initSMP fuel fresh entryPt idtPtr s =
     and_then (kmalloc (24 * 32) s) (\<lambda>(a, s).
     let cs = fresh_object 32 fresh;
         s = s\<lparr>cpuInfoAddr := a, cpuInfo := cs[0 := (cs ! 0)\<lparr>currentTask := - 1\<rparr>]\<rparr> in
     and_then (memcpy64 (0x1000 + HIGH_VMA) (0x7e00 + HIGH_VMA) (0x200 div 8) (mem s)) (\<lambda>m.
     each_u64 (start_core fuel entryPt idtPtr) 1 (ucast (madtEntry0Count (madtInfo s))) (s\<lparr>mem := m\<rparr>)))"

definition grabCPUinfo :: "'a smp_state_scheme \<Rightarrow> cpuInfo_t list" where
  "grabCPUinfo s = cpuInfo s"

section \<open>The segment a core loads\<close>

text \<open>
  C35: a started core \<open>k\<close> (the \<open>k\<close>th, after one segment for each core before it) loads the segment with
  the number \<open>k + 1\<close>, while the one made for it is number \<open>k\<close>: what it loads is left as it was.
  The scheduler on core \<open>k\<close> writes the kernel stack into the numbers \<open>k\<close> and \<open>2 k\<close>: that is the loaded one
  for core 1 only. From core 2 on the loaded segment never gets the stack of the task, and core 2 overwrites the
  one core 1 has loaded.
\<close>

theorem smp_segments:
  fixes s :: "'a smp_state_scheme"
  assumes "length (tss s) = 8" and "tssMax s = 8" and "tssCurrent s = of_nat k" and "cpuInfoIndex s = of_nat (k + 1)"
    and "0 < k" and "2 * k < 8" and "length (gdt s) = 8" and "length (gdtEntries (gdt s ! k)) = 5"
  shows "\<exists>s'. smp_descriptors fresh stack s = Inr s' \<and>
    describes (gdt s' ! k) (tssAddr s + 104 * (of_nat k + 1)) \<and>
    rsp0 (tss s' ! k) = stack \<and> tss s' ! (k + 1) = tss s ! (k + 1) \<and>
    (\<exists>s''. setKernelStack (of_nat k) taskStack s' = Inr s'' \<and>
      (k = 1 \<longrightarrow> rsp0 (tss s'' ! (k + 1)) = taskStack) \<and>
      (1 < k \<longrightarrow> tss s'' ! (k + 1) = tss s ! (k + 1)) \<and>
      (k = 2 \<longrightarrow> rsp0 (tss s'' ! 2) = taskStack))"
proof -
  have k: "unat (of_nat k :: u64) = k" using assms(6) by (simp add: unat_of_nat_u64)
  have lt: "(of_nat k :: u64) < 8" using k assms(6) by (simp add: word_less_nat_alt)
  have "\<not> of_nat k + 1 > (8 :: u64)" using plus_1_le [OF lt] by simp
  let ?t = "(tss s)[k := zero_tss\<lparr>rsp0 := stack\<rparr>]"
  let ?s = "s\<lparr>tssCurrent := of_nat k + 1, tss := ?t\<rparr>"
  have 1: "createGenericTSS fresh stack s = Inr ?s"
    using assms k \<open>\<not> of_nat k + 1 > (8 :: u64)\<close>
    by (simp add: createGenericTSS_def addNewTSS_def store_def)
  define g where "g = core_gdt (gdtAddr s + 66 * of_nat k) (tssAddr s + 104 * (of_nat k + 1)) (gdt s ! k)"
  let ?s' = "?s\<lparr>gdt := (gdt s)[k := g], gdtr := gdtAddr s + 66 * of_nat k + 56\<rparr>"
  have 2: "smp_descriptors fresh stack s = Inr ?s'"
    unfolding smp_descriptors_def 1 using assms k
    by (simp add: createNewGDT_def fetch_def store_def grabTSS_def g_def Let_def add.commute)
  have "describes g (tssAddr s + 104 * (of_nat k + 1))"
    unfolding g_def using assms(8) by (rule core_gdt_describes)
  then have 3: "describes (gdt ?s' ! k) (tssAddr s + 104 * (of_nat k + 1))" using assms by simp
  have 4: "setKernelStack (of_nat k) taskStack ?s' = Inr (?s'\<lparr>tss := (let ts = (tss ?s')[2 * k :=
      (tss ?s' ! (2 * k))\<lparr>rsp0 := taskStack\<rparr>] in ts[k := (ts ! k)\<lparr>rsp0 := taskStack\<rparr>])\<rparr>)"
    using setKernelStack_eq [of "of_nat k" ?s' taskStack] assms(1,6) k by simp
  show ?thesis
    by (intro exI [of _ ?s'] conjI exI)
      (use 2 3 4 assms in \<open>auto simp: Let_def nth_list_update\<close>)
qed

definition example_smp :: smp_state where
  "example_smp = int_state.extend example_int \<lparr>cpuInfoIndex = 1, numberOfCores = 1\<rparr>"

text \<open>Core 2, after cores 0 and 1 have made their segments.\<close>

theorem smp_segments_witness:
  "\<exists>s' s''. smp_descriptors (\<lambda>_. zero_tss) 0x4000 (example_smp\<lparr>tssCurrent := 2, cpuInfoIndex := 3\<rparr>) = Inr s' \<and>
     rsp0 (tss s' ! 2) = 0x4000 \<and> setKernelStack 2 0x9000 s' = Inr s'' \<and>
     tss s'' ! 3 = zero_tss \<and> rsp0 (tss s'' ! 2) = 0x9000"
proof -
  let ?s = "example_smp\<lparr>tssCurrent := 2, cpuInfoIndex := 3\<rparr>"
  have d: "tss ?s = replicate 8 zero_tss" "tssMax ?s = 8" "gdt ?s = replicate 8 zero_gdt"
    "tssCurrent ?s = of_nat 2" "cpuInfoIndex ?s = of_nat (2 + 1)"
    by (simp_all add: example_smp_def int_state.defs example_int_def apic_state.defs acpi_state.defs
        example_acpi_def sched_state.defs example_sched_def desc_state.defs example_desc_def pci_state.defs)
  have "length (gdtEntries (gdt ?s ! 2)) = 5" by (simp only: d) (simp add: zero_gdt_def)
  moreover have "length (tss ?s) = 8" "length (gdt ?s) = 8" by (simp_all only: d length_replicate)
  ultimately show ?thesis
    using smp_segments [of ?s 2 "\<lambda>_. zero_tss" "0x4000" "0x9000", OF _ d(2,4,5)] d(1) by fastforce
qed

end
