(* ===== verification/Ahci.thy ===== *)
theory Ahci
  imports Smp
begin

text \<open>
  The SATA driver, \<^verbatim>\<open>kernel/drivers/ahci.c\<close>. The registers of the controller are events; the memory it
  shares with the driver (command lists, command tables, buffers) is the byte memory \<open>dma\<close>, at the
  kernel's addresses. \<open>hba_execute\<close> stands for the controller: what it does to memory and disk when the command in
  a slot of a port is completed. \<open>ahci_device\<close> is its documented behaviour: it decodes the command
  from memory and transfers the sectors.
\<close>

section \<open>Structures\<close>

record drive_t =
  sectorCount :: u64
  hbaPort :: u64

text \<open>\<open>drives_t\<close>: the array is the object behind the pointer, shared with the pointer \<open>drive\<close> of the driver.\<close>

record ahci_state = smp_state +
  dma :: "u64 \<Rightarrow> u8"
  drive :: "drive_t list"
  driveAddr :: u64
  driveCount :: u64
  drives_driveCnt :: u8
  bar :: pciBar_t
  identifiedCnt :: u64
  ahciLock :: bool
  disk :: "nat \<Rightarrow> u8 list"
  hba_execute :: "u64 \<Rightarrow> u32 \<Rightarrow> (u64 \<Rightarrow> u8) \<times> (nat \<Rightarrow> u8 list) \<Rightarrow> (u64 \<Rightarrow> u8) \<times> (nat \<Rightarrow> u8 list)"

text \<open>The offsets of the registers of a port, of the ports and of the port map in the controller.\<close>

definition hbaPort_clb :: u64 where "hbaPort_clb = 0"
definition hbaPort_cmd :: u64 where "hbaPort_cmd = 6 * 4"
definition hbaPort_tfd :: u64 where "hbaPort_tfd = 8 * 4"
definition hbaPort_sig :: u64 where "hbaPort_sig = 9 * 4"
definition hbaPort_sact :: u64 where "hbaPort_sact = 13 * 4"
definition hbaPort_ci :: u64 where "hbaPort_ci = 14 * 4"
definition sizeof_hbaPorts :: u64 where "sizeof_hbaPorts = 18 * 4 + 11 * 4 + 10 * 4"
definition GHC_pi :: u64 where "GHC_pi = 3 * 4"
definition GHC_hbaPorts :: u64 where "GHC_hbaPorts = 11 * 4 + 29 * 4 + 24 * 4"

lemmas hba_offsets = hbaPort_clb_def hbaPort_cmd_def hbaPort_tfd_def hbaPort_sig_def hbaPort_sact_def
  hbaPort_ci_def

definition HBA_CMD_ST :: u32 where "HBA_CMD_ST = 0x0001"
definition HBA_CMD_FRE :: u32 where "HBA_CMD_FRE = 0x0010"
definition HBA_CMD_CR :: u32 where "HBA_CMD_CR = 0x8000"
definition FIS_REG_H2D :: u8 where "FIS_REG_H2D = 0x27"
definition SATA_ATA :: u32 where "SATA_ATA = 0x101"
definition SATA_ATAPI :: u32 where "SATA_ATAPI = 0xeb140101"
definition SATA_SEMB :: u32 where "SATA_SEMB = 0xc33C0101"
definition SATA_PM :: u32 where "SATA_PM = 0x96690101"

section \<open>Shared memory\<close>

definition store_bytes :: "u64 \<Rightarrow> u8 list \<Rightarrow> (u64 \<Rightarrow> u8) \<Rightarrow> u64 \<Rightarrow> u8" where
  "store_bytes a bs m = (\<lambda>x. if x - a < of_nat (length bs) then bs ! unat (x - a) else m x)"

definition put16 :: "u64 \<Rightarrow> u16 \<Rightarrow> (u64 \<Rightarrow> u8) \<Rightarrow> u64 \<Rightarrow> u8" where
  "put16 a v m = m(a := ucast v, a + 1 := ucast (drop_bit 8 v))"

definition get64 :: "u64 \<Rightarrow> (u64 \<Rightarrow> u8) \<Rightarrow> u64" where
  "get64 a m = ucast (get32 a m) OR push_bit 32 (ucast (get32 (a + 4) m))"

text \<open>The members of a command header that are set: \<open>cfl\<close> (bits 0 to 4) and \<open>w\<close> (bit 6) of the first
  byte, \<open>prdtl\<close> at offset 2.\<close>

definition set_header :: "u64 \<Rightarrow> bool \<Rightarrow> (u64 \<Rightarrow> u8) \<Rightarrow> u64 \<Rightarrow> u8" where
  "set_header a w m =
     (let b = (m a AND NOT 0x1f) OR 5;
          b = (b AND NOT (push_bit 6 1)) OR (if w then push_bit 6 1 else 0) in
      put16 (a + 2) 1 (m(a := b)))"

text \<open>\<open>fisH2D_t\<close>, and its bytes; \<open>pmport\<close> has four bits, \<open>c\<close> is the top bit of the same byte.\<close>

record fisH2D_t =
  fisType :: u8
  pmport :: u8
  fis_c :: bool
  fis_command :: u8
  featurel :: u8
  lba0 :: u8
  lba1 :: u8
  lba2 :: u8
  fis_device :: u8
  lba3 :: u8
  lba4 :: u8
  lba5 :: u8
  featureh :: u8
  countl :: u8
  counth :: u8
  icc :: u8
  fis_control :: u8

definition zero_fis :: fisH2D_t where
  "zero_fis = \<lparr>fisType = 0, pmport = 0, fis_c = False, fis_command = 0, featurel = 0, lba0 = 0, lba1 = 0,
     lba2 = 0, fis_device = 0, lba3 = 0, lba4 = 0, lba5 = 0, featureh = 0, countl = 0, counth = 0,
     icc = 0, fis_control = 0\<rparr>"

definition fis_bytes :: "fisH2D_t \<Rightarrow> u8 list" where
  "fis_bytes f = [fisType f, (pmport f AND 0xf) OR (if fis_c f then push_bit 7 1 else 0), fis_command f,
     featurel f, lba0 f, lba1 f, lba2 f, fis_device f, lba3 f, lba4 f, lba5 f, featureh f, countl f,
     counth f, icc f, fis_control f, 0, 0, 0, 0]"

text \<open>The first entry of the region table: \<open>dba\<close> at offset 0, \<open>dbc\<close> in bits 0 to 21 and \<open>i\<close> in bit 31
  of the word at offset 12.\<close>

definition set_prdt :: "u64 \<Rightarrow> u32 \<Rightarrow> u32 \<Rightarrow> (u64 \<Rightarrow> u8) \<Rightarrow> u64 \<Rightarrow> u8" where
  "set_prdt a dba dbc m =
     (let m = put32 a dba m;
          w = (get32 (a + 12) m AND NOT 0x3fffff) OR (dbc AND 0x3fffff);
          w = w OR push_bit 31 1 in
      put32 (a + 12) w m)"

section \<open>Commands\<close>

definition port_read :: "u64 \<Rightarrow> u64 \<Rightarrow> 'a ahci_state_scheme \<Rightarrow> u32 \<times> 'a ahci_state_scheme" where
  "port_read port reg s = mmio_read (port + reg) s"

definition port_write :: "u64 \<Rightarrow> u64 \<Rightarrow> u32 \<Rightarrow> 'a ahci_state_scheme \<Rightarrow> 'a ahci_state_scheme" where
  "port_write port reg v s = mmio_write (port + reg) v s"

definition port_modify :: "u64 \<Rightarrow> u64 \<Rightarrow> (u32 \<Rightarrow> u32) \<Rightarrow> 'a ahci_state_scheme \<Rightarrow> 'a ahci_state_scheme" where
  "port_modify port reg f s = (let (v, s) = port_read port reg s in port_write port reg (f v) s)"

primrec find_slot :: "nat \<Rightarrow> u64 \<Rightarrow> u32 \<Rightarrow> 'a ahci_state_scheme \<Rightarrow> u32 \<times> 'a ahci_state_scheme" where
  "find_slot 0 port i s = (0, s)"
| "find_slot (Suc n) port i s =
     (let (v1, s) = port_read port hbaPort_sact s; (v2, s) = port_read port hbaPort_ci s in
      if (v1 OR v2) AND push_bit (unat i) 1 = 0 then (i, s) else find_slot n port (i + 1) s)"

definition findCMD :: "u64 \<Rightarrow> 'a ahci_state_scheme \<Rightarrow> u32 \<times> 'a ahci_state_scheme" where
  "findCMD port s = find_slot 32 port 0 s"

text \<open>\<open>while(hbaPort->reg & mask);\<close>\<close>

definition wait_clear ::
  "nat \<Rightarrow> u64 \<Rightarrow> u64 \<Rightarrow> u32 \<Rightarrow> 'a ahci_state_scheme \<Rightarrow> 'a ahci_state_scheme result"
where
  "wait_clear fuel port reg m s =
     and_then (poll fuel (\<lambda>v. v AND m = 0) (port_read port reg) s) (\<lambda>(_, s). Inr s)"

text \<open>By the time the issued command's bit is clear the controller has executed it.\<close>

definition complete :: "u64 \<Rightarrow> u32 \<Rightarrow> 'a ahci_state_scheme \<Rightarrow> 'a ahci_state_scheme" where
  "complete port CMDslot s =
     (let (m, d) = hba_execute s port CMDslot (dma s, disk s) in s\<lparr>dma := m, disk := d\<rparr>)"

definition sendCommand :: "nat \<Rightarrow> u64 \<Rightarrow> u32 \<Rightarrow> 'a ahci_state_scheme \<Rightarrow> 'a ahci_state_scheme result" where
  "sendCommand fuel port CMDslot s =
     and_then (wait_clear fuel port hbaPort_tfd (0x80 OR 0x8) s) (\<lambda>s.
     let s = port_modify port hbaPort_cmd (\<lambda>v. v AND NOT HBA_CMD_ST) s in
     and_then (wait_clear fuel port hbaPort_cmd HBA_CMD_CR s) (\<lambda>s.
     let s = port_modify port hbaPort_cmd (\<lambda>v. v OR HBA_CMD_FRE) s;
         s = port_modify port hbaPort_cmd (\<lambda>v. v OR HBA_CMD_ST) s;
         s = port_write port hbaPort_ci (push_bit (unat CMDslot) 1) s in
     and_then (wait_clear fuel port hbaPort_ci (push_bit (unat CMDslot) 1) s) (\<lambda>s.
     let s = complete port CMDslot s;
         s = port_modify port hbaPort_cmd (\<lambda>v. v AND NOT HBA_CMD_ST) s in
     and_then (wait_clear fuel port hbaPort_cmd HBA_CMD_CR s) (\<lambda>s.
       Inr (port_modify port hbaPort_cmd (\<lambda>v. v AND NOT HBA_CMD_FRE) s)))))"

text \<open>The command table at \<open>t\<close>: 64 bytes for the command, 16 and 48 reserved, then the region table.
  \<open>cmdtbl->PRDT[0].dbc = (count * 512) - 1\<close>.\<close>

definition sizeof_hbaCommandTable :: nat where
  "sizeof_hbaCommandTable = 64 + 16 + 48 + 16"

definition write_table :: "u64 \<Rightarrow> u32 \<Rightarrow> u32 \<Rightarrow> fisH2D_t \<Rightarrow> (u64 \<Rightarrow> u8) \<Rightarrow> u64 \<Rightarrow> u8" where
  "write_table t dba dbc fis m =
     store_bytes t (fis_bytes fis) (store_bytes t (replicate 20 0)
       (set_prdt (t + 128) dba dbc (store_bytes t (replicate sizeof_hbaCommandTable 0) m)))"

definition rw_fis :: "u64 \<Rightarrow> u32 \<Rightarrow> bool \<Rightarrow> fisH2D_t" where
  "rw_fis start count w =
     (let st = ucast start :: u32; hi = drop_bit 32 start in
      zero_fis\<lparr>fisType := FIS_REG_H2D, fis_c := True, fis_command := if w then 0x35 else 0x25,
        lba0 := ucast (st AND 0xff), lba1 := ucast (drop_bit 8 (st AND 0xff00)),
        lba2 := ucast (drop_bit 16 (st AND 0xff0000)), fis_device := push_bit 6 1,
        lba3 := ucast (drop_bit 24 (st AND 0xff000000)), lba4 := ucast (hi AND 0xff00000000),
        lba5 := ucast (drop_bit 8 (hi AND 0xff0000000000)),
        countl := ucast count, counth := ucast (drop_bit 8 count)\<rparr>)"

text \<open>The memory once the command is written: \<open>sizeof(hbaCMDhdr_t)\<close> is 32, the address of the table is at
  offset 8 of the header. The \<open>memset\<close> clears the first header of the list, whatever the slot.\<close>

definition write_command ::
  "u32 \<Rightarrow> u32 \<Rightarrow> u32 \<Rightarrow> u64 \<Rightarrow> u32 \<Rightarrow> u64 \<Rightarrow> bool \<Rightarrow> (u64 \<Rightarrow> u8) \<Rightarrow> u64 \<Rightarrow> u8"
where
  "write_command clb clb' CMDslot start count buffer w m =
     (let m = store_bytes (ucast clb' + HIGH_VMA) (replicate 32 0) m;
          hdr = ucast clb + HIGH_VMA + 32 * ucast CMDslot;
          m = set_header hdr w m in
      write_table (ucast (get32 (hdr + 8) m) + HIGH_VMA) (ucast (buffer - HIGH_VMA)) (count * 512 - 1)
        (rw_fis start count w) m)"

definition sataRW ::
  "nat \<Rightarrow> u64 \<Rightarrow> u64 \<Rightarrow> u32 \<Rightarrow> u64 \<Rightarrow> bool \<Rightarrow> 'a ahci_state_scheme \<Rightarrow> 'a ahci_state_scheme result"
where
  "sataRW fuel port start count buffer w s =
     and_then (spinLock (ahciLock s)) (\<lambda>l.
     let (CMDslot, s) = findCMD port (s\<lparr>ahciLock := l\<rparr>);
         (clb, s) = port_read port hbaPort_clb s;
         (clb', s) = port_read port hbaPort_clb s;
         m = write_command clb clb' CMDslot start count buffer w (dma s) in
     and_then (sendCommand fuel port CMDslot (s\<lparr>dma := m\<rparr>)) (\<lambda>s.
       Inr (s\<lparr>ahciLock := spinRelease (ahciLock s)\<rparr>)))"

section \<open>Finding the drives\<close>

definition addDrive :: "u64 \<Rightarrow> u64 \<Rightarrow> 'a ahci_state_scheme \<Rightarrow> 'a ahci_state_scheme result" where
  "addDrive sectors port s =
     and_then
       (if driveCount s + 1 = 32 then kprintDS (cstr ''[ACPI]'') (cstr ''Extended drive limit'') [] s
        else Inr s) (\<lambda>s.
     and_then (store (drive s) (driveCount s) \<lparr>sectorCount = sectors, hbaPort = port\<rparr>) (\<lambda>ds.
       Inr (s\<lparr>drive := ds, driveCount := driveCount s + 1\<rparr>)))"

text \<open>\<open>identify\<close> is the physical address \<open>physicalPageAlloc\<close> returns; the sector count is at byte 200.\<close>

definition initSATAdevice :: "nat \<Rightarrow> u64 \<Rightarrow> 'a ahci_state_scheme \<Rightarrow> 'a ahci_state_scheme result" where
  "initSATAdevice fuel port s =
     (let (CMDslot, s) = findCMD port s in
      and_then (physicalPageAlloc 1 s) (\<lambda>(identify, s).
      let (clb, s) = port_read port hbaPort_clb s; hdr = ucast clb + HIGH_VMA + 32 * ucast CMDslot;
          m = set_header hdr False (dma s);
          m = write_table (ucast (get32 (hdr + 8) m) + HIGH_VMA) (ucast identify) 511
                (zero_fis\<lparr>fisType := FIS_REG_H2D, fis_c := True, fis_command := 0xec\<rparr>) m in
      and_then (sendCommand fuel port CMDslot (s\<lparr>dma := m\<rparr>)) (\<lambda>s.
      let n = identifiedCnt s; s = s\<lparr>identifiedCnt := n + 1\<rparr> in
      and_then (kprintVS (cstr (''Drive %d: Total sector count: %d'' @ [CHR 0x0A]))
        [VaLong n, VaLong (get64 (identify + 200 + HIGH_VMA) (dma s))] s) (\<lambda>s.
        addDrive (get64 (identify + 200 + HIGH_VMA) (dma s)) port s))))"

definition probe_port :: "nat \<Rightarrow> u64 \<Rightarrow> u64 \<Rightarrow> 'a ahci_state_scheme \<Rightarrow> 'a ahci_state_scheme result" where
  "probe_port fuel GHC i s =
     (let (pi, s) = mmio_read (GHC + GHC_pi) s in
      if pi AND push_bit (unat i) 1 = 0 then Inr s
      else
        let port = GHC + GHC_hbaPorts + sizeof_hbaPorts * i;
            (sig, s) = port_read port hbaPort_sig s in
        if sig = SATA_ATA then
          and_then (kprintVS (cstr (''Sata drive found on port %d'' @ [CHR 0x0A])) [VaLong i] s)
            (initSATAdevice fuel port)
        else if sig = SATA_ATAPI then
          kprintVS (cstr (''ATAPI drive found on port %d'' @ [CHR 0x0A])) [VaLong i] s
        else if sig = SATA_SEMB then
          kprintVS (cstr (''Enclosure management bridge found on port %d'' @ [CHR 0x0A])) [VaLong i] s
        else if sig = SATA_PM then
          kprintVS (cstr (''Port multiplier found on port %d'' @ [CHR 0x0A])) [VaLong i] s
        else Inr s)"

text \<open>The loop over the devices of the bus returns from the function at the interfaces that are not supported;
  otherwise it goes on with the last AHCI controller, \<open>junk\<close> if there is none.\<close>

definition find_controller :: "pci_t \<Rightarrow> 'a ahci_state_scheme \<Rightarrow> (pci_t \<times> 'a ahci_state_scheme, 'a ahci_state_scheme) flow result" where
  "find_controller junk s =
     for_u64 (\<lambda>i (device, s).
       and_then (fetch (pciDevices s) i) (\<lambda>d.
       if classCode d = 1 \<and> subClass d = 6 then
         and_then (kprintVS (cstr (''%d'' @ [CHR 0x0A])) [VaLong i] s) (\<lambda>s.
         if progIF d = 0 then
           and_then (kprintDS (cstr ''[AHCI]'') (cstr ''Detected a Vendor Sepcific Interface (get a new pc retard)'') [] s)
             (\<lambda>s. Inr (Exit s))
         else if progIF d = 1 then
           and_then (kprintVS (cstr (''bruh %d'' @ [CHR 0x0A])) [VaLong i] s) (\<lambda>s.
           and_then (kprintDS (cstr ''[AHCI]'') (cstr ''Detected an AHCI 1.0 device'') [] s) (\<lambda>s.
           let (r, s) = pciRead (p_bus d) (p_device d) (p_function d) 0x4 s in
           if r AND push_bit 2 1 = 0 then
             let (r, s) = pciRead (p_bus d) (p_device d) (p_function d) 0x4 s in
             Inr (Next (d, pciWrite (r OR push_bit 2 1) (p_bus d) (p_device d) (p_function d) 0x4 s))
           else Inr (Next (d, s))))
         else if progIF d = 2 then
           and_then (kprintDS (cstr ''[AHCI]'') (cstr ''Detected a Serial Storage Bus'') [] s) (\<lambda>s. Inr (Exit s))
         else Inr (Next (device, s)))
       else Inr (Next (device, s))))
       0 (totalDevices s) (junk, s)"

definition initAHCI ::
  "nat \<Rightarrow> (nat \<Rightarrow> drive_t) \<Rightarrow> pci_t \<Rightarrow> 'a ahci_state_scheme \<Rightarrow> 'a ahci_state_scheme result"
where
  "initAHCI fuel fresh junk s =
     and_then (find_controller junk s) (\<lambda>f.
     case f of
       Exit s \<Rightarrow> Inr s
     | Next (device, s) \<Rightarrow>
         and_then (kmalloc (16 * 32) s) (\<lambda>(a, s).
         let s = s\<lparr>driveAddr := a, drive := fresh_object 32 fresh\<rparr>;
             (b, s) = getBAR device 5 s; s = s\<lparr>bar := b\<rparr> in
         and_then (kprintVS (cstr (''BAR5 base %x | size %x'' @ [CHR 0x0A]))
           [VaInt (bar_base (bar s)), VaInt (bar_size (bar s))] s) (\<lambda>s.
         let GHC = ucast (bar_base (bar s)) + HIGH_VMA - 0x1000 in
         and_then (each_u64 (probe_port fuel GHC) 0 32 s) (\<lambda>s.
           Inr (s\<lparr>drives_driveCnt := ucast (driveCount s)\<rparr>)))))"

definition getDrives :: "'a ahci_state_scheme \<Rightarrow> u8 \<times> drive_t list" where
  "getDrives s = (drives_driveCnt s, drive s)"

section \<open>The controller\<close>

text \<open>What the documentation of AHCI and ATA says a command in memory asks for: the header of the slot, the table it
  points to, the command and the first region in that table. A transfer needs the LBA bit of the device register (byte 7),
  \<open>IDENTIFY DEVICE\<close> (0xec) does not.\<close>

record ata_request =
  rq_ok :: bool
  rq_write :: bool
  rq_command :: u8
  rq_lba :: nat
  rq_count :: nat
  rq_buffer :: u64
  rq_bytes :: nat

definition decode_request :: "u64 \<Rightarrow> u32 \<Rightarrow> (u64 \<Rightarrow> u8) \<Rightarrow> ata_request" where
  "decode_request clb i m =
     (let hdr = clb + HIGH_VMA + 32 * ucast i; t = get64 (hdr + 8) m + HIGH_VMA in
      \<lparr>rq_ok = (m hdr AND 0x1f = 5 \<and> m (hdr + 2) = 1 \<and> m (hdr + 3) = 0 \<and> m t = 0x27 \<and> bit (m (t + 1)) 7 \<and>
         (m (t + 2) = 0xec \<or> bit (m (t + 7)) 6)),
       rq_write = bit (m hdr) 6,
       rq_command = m (t + 2),
       rq_lba = unat (m (t + 4)) + 2 ^ 8 * unat (m (t + 5)) + 2 ^ 16 * unat (m (t + 6)) +
         2 ^ 24 * unat (m (t + 8)) + 2 ^ 32 * unat (m (t + 9)) + 2 ^ 40 * unat (m (t + 10)),
       rq_count = unat (m (t + 12)) + 2 ^ 8 * unat (m (t + 13)),
       rq_buffer = get64 (t + 128) m,
       rq_bytes = unat (get32 (t + 140) m AND 0x3fffff) + 1\<rparr>)"

definition sectors :: "(nat \<Rightarrow> u8 list) \<Rightarrow> nat \<Rightarrow> nat \<Rightarrow> u8 list" where
  "sectors d lba n = concat (map d [lba..<lba + n])"

definition load_bytes :: "u64 \<Rightarrow> nat \<Rightarrow> (u64 \<Rightarrow> u8) \<Rightarrow> u8 list" where
  "load_bytes a n m = map (\<lambda>k. m (a + of_nat k)) [0..<n]"

definition ahci_device ::
  "u8 list \<Rightarrow> u64 \<Rightarrow> u32 \<Rightarrow> (u64 \<Rightarrow> u8) \<times> (nat \<Rightarrow> u8 list) \<Rightarrow> (u64 \<Rightarrow> u8) \<times> (nat \<Rightarrow> u8 list)"
where
  "ahci_device identity clb i md =
     (let (m, d) = md; r = decode_request clb i m; buf = rq_buffer r + HIGH_VMA in
      if \<not> rq_ok r then (m, d)
      else if rq_command r = 0x25 \<and> \<not> rq_write r then
        (store_bytes buf (take (rq_bytes r) (sectors d (rq_lba r) (rq_count r))) m, d)
      else if rq_command r = 0x35 \<and> rq_write r \<and> 512 * rq_count r \<le> rq_bytes r then
        (m, \<lambda>l. if rq_lba r \<le> l \<and> l < rq_lba r + rq_count r
          then load_bytes (buf + of_nat (512 * (l - rq_lba r))) 512 m else d l)
      else if rq_command r = 0xec \<and> \<not> rq_write r then
        (store_bytes buf (take (rq_bytes r) identity) m, d)
      else (m, d))"

section \<open>The command in memory\<close>

lemma store_bytes_in:
  "k < length bs \<Longrightarrow> length bs < 2 ^ 64 \<Longrightarrow> store_bytes a bs m (a + of_nat k) = bs ! k"
  by (simp add: store_bytes_def unat_of_nat_u64 word_less_nat_alt)

lemma store_bytes_out: "\<not> x - a < of_nat (length bs) \<Longrightarrow> store_bytes a bs m x = m x"
  by (simp add: store_bytes_def)

lemma get32_cong:
  "m a = m' a \<Longrightarrow> m (a + 1) = m' (a + 1) \<Longrightarrow> m (a + 2) = m' (a + 2) \<Longrightarrow> m (a + 3) = m' (a + 3) \<Longrightarrow>
   get32 a m = get32 a m'"
  by (simp add: get32_def)

lemma get32_zero: "m a = 0 \<Longrightarrow> m (a + 1) = 0 \<Longrightarrow> m (a + 2) = 0 \<Longrightarrow> m (a + 3) = 0 \<Longrightarrow> get32 a m = 0"
  by (simp add: get32_def)

lemma set_header_at:
  "set_header a w m x = (if x = a then ((m a AND NOT 0x1f OR 5) AND NOT (push_bit 6 1)) OR (if w then push_bit 6 1 else 0)
     else if x = a + 2 then 1 else if x = a + 3 then 0 else m x)"
  by (simp add: set_header_def put16_def Let_def)

lemma put32_out: "x \<notin> {a, a + 1, a + 2, a + 3} \<Longrightarrow> put32 a v m x = m x"
  by (simp add: put32_def)

lemma set_prdt_out:
  assumes "x - a \<ge> 16"
  shows "set_prdt a dba dbc m x = m x"
proof -
  have ne: "x \<noteq> a + k" if "k < 16" for k
    using assms that by auto
  have "x \<noteq> a + 0" "x \<noteq> a + 1" "x \<noteq> a + 2" "x \<noteq> a + 3" "x \<noteq> a + 12" "x \<noteq> a + 13" "x \<noteq> a + 14" "x \<noteq> a + 15"
    by (rule ne; simp)+
  then show ?thesis by (simp add: set_prdt_def Let_def put32_out add.assoc)
qed

lemma set_prdt_fields:
  assumes "get32 (a + 12) m = 0" and "get32 (a + 4) m = 0"
  shows "get64 a (set_prdt a dba dbc m) = ucast dba"
    "get32 (a + 12) (set_prdt a dba dbc m) AND 0x3fffff = dbc AND 0x3fffff"
proof -
  have "get32 (a + 12) (put32 a dba m) = get32 (a + 12) m"
    by (simp add: get32_def put32_def add.assoc)
  then have w: "set_prdt a dba dbc m = put32 (a + 12) ((dbc AND 0x3fffff) OR push_bit 31 1) (put32 a dba m)"
    using assms(1) by (simp add: set_prdt_def)
  have "get32 a (put32 (a + 12) v (put32 a dba m)) = dba" for v
  proof -
    have "get32 a (put32 (a + 12) v (put32 a dba m)) = get32 a (put32 a dba m)"
      by (simp add: get32_def put32_def add.assoc)
    then show ?thesis by (simp add: get32_put32)
  qed
  moreover have "get32 (a + 4) (put32 (a + 12) v (put32 a dba m)) = 0" for v
  proof -
    have "get32 (a + 4) (put32 (a + 12) v (put32 a dba m)) = get32 (a + 4) (put32 a dba m)"
      by (simp add: get32_def put32_def add.assoc)
    also have "\<dots> = get32 (a + 4) m" by (simp add: get32_def put32_def add.assoc)
    finally show ?thesis using assms(2) by simp
  qed
  ultimately show "get64 a (set_prdt a dba dbc m) = ucast dba" by (simp add: get64_def w)
  show "get32 (a + 12) (set_prdt a dba dbc m) AND 0x3fffff = dbc AND 0x3fffff"
  proof -
    have f: "0x3fffff = (mask 22 :: u32)" by (simp add: mask_eq_exp_minus_1)
    define c :: u32 where "c = push_bit 31 1"
    have c: "\<not> bit c n" if "n < 22" for n using that unfolding c_def by (simp only: bit_push_bit_iff bit_1_iff) simp
    show ?thesis unfolding w get32_put32 f c_def[symmetric] by (rule bit_word_eqI) (auto simp: bit_simps c)
  qed
qed

lemma write_table_out:
  assumes "x - t \<ge> 144"
  shows "write_table t dba dbc fis m x = m x"
proof -
  have "\<not> x - t < 144" "\<not> x - t < 20" using assms less_le_trans[of "x - t" 20 144] by auto
  moreover have "x - (t + 128) \<ge> 16"
  proof -
    have "128 \<le> (144 :: u64)" by simp
    then have "144 - 128 \<le> x - t - (128 :: u64)" using word_le_minus_mono_left[OF assms, of 128] by blast
    then show ?thesis by (simp only: diff_diff_add[symmetric]) simp
  qed
  ultimately show ?thesis
    by (simp add: write_table_def store_bytes_out set_prdt_out sizeof_hbaCommandTable_def fis_bytes_def)
qed

lemma fis_bytes_length: "length (fis_bytes f) = 20"
  by (simp add: fis_bytes_def)

lemma write_table_fis: "k < 20 \<Longrightarrow> write_table t dba dbc fis m (t + of_nat k) = fis_bytes fis ! k"
  by (simp add: write_table_def store_bytes_in fis_bytes_length)

lemma write_table_prdt:
  "get64 (t + 128) (write_table t dba dbc fis m) = ucast dba"
  "get32 (t + 140) (write_table t dba dbc fis m) AND 0x3fffff = dbc AND 0x3fffff"
proof -
  define m' where "m' = store_bytes t (replicate sizeof_hbaCommandTable 0) m"
  have far: "write_table t dba dbc fis m (t + k) = set_prdt (t + 128) dba dbc m' (t + k)" if "20 \<le> k" for k
  proof -
    have "\<not> k < 20" using that by simp
    then show ?thesis by (simp add: write_table_def m'_def store_bytes_out fis_bytes_length)
  qed
  have z: "m' (t + of_nat k) = 0" if "k < 144" for k
    using that by (simp add: m'_def store_bytes_in sizeof_hbaCommandTable_def)
  have w: "get32 (t + k) (write_table t dba dbc fis m) = get32 (t + k) (set_prdt (t + 128) dba dbc m')"
    if "k \<in> {128, 132, 140}" for k
    by (rule get32_cong) (use that in \<open>auto simp: add.assoc intro!: far\<close>)
  have zero: "get32 (t + 132) m' = 0" "get32 (t + 140) m' = 0"
    using z[of 132] z[of 133] z[of 134] z[of 135] z[of 140] z[of 141] z[of 142] z[of 143]
    by (simp_all add: get32_zero add.assoc)
  note f = set_prdt_fields[of "t + 128" m' dba dbc, simplified add.assoc, simplified, OF zero(2) zero(1)]
  show "get64 (t + 128) (write_table t dba dbc fis m) = ucast dba"
    using f(1) w[of 128] w[of 132] by (simp add: get64_def add.assoc)
  show "get32 (t + 140) (write_table t dba dbc fis m) AND 0x3fffff = dbc AND 0x3fffff"
    using f(2) w[of 140] by (simp add: add.assoc)
qed


lemma nat_bytes:
  fixes x :: nat
  assumes "x < 2 ^ 32"
  shows "x mod 256 + 256 * (x div 256 mod 256) + 65536 * (x div 65536 mod 256) + 16777216 * (x div 16777216 mod 256) = x"
proof -
  define a b c where "a = x div 256" and "b = a div 256" and "c = b div 256"
  have "x div 65536 = b" "x div 16777216 = c" "c < 256"
    using assms by (simp_all add: a_def b_def c_def flip: div_mult2_eq)
  moreover have "x = 256 * a + x mod 256" "a = 256 * b + a mod 256" "b = 256 * c + b mod 256" "x div 256 = a"
    by (simp_all add: a_def b_def c_def)
  ultimately show ?thesis by simp
qed

lemma lba_bytes:
  fixes st :: u32
  shows "unat (ucast (st AND 0xff) :: u8) + 2 ^ 8 * unat (ucast (drop_bit 8 (st AND 0xff00)) :: u8) +
    2 ^ 16 * unat (ucast (drop_bit 16 (st AND 0xff0000)) :: u8) +
    2 ^ 24 * unat (ucast (drop_bit 24 (st AND 0xff000000)) :: u8) = unat st"
proof -
  have u: "unat (ucast (drop_bit n x) :: u8) = unat x div 2 ^ n mod 2 ^ 8" for n and x :: u32
    by (simp add: unsigned_ucast_eq unsigned_drop_bit_eq take_bit_eq_mod) (use unsigned_less[of x, where 'a = nat] in \<open>simp add: drop_bit_eq_div\<close>)
  have f: "0xff = (mask 8 :: u32)" "0xff00 = (push_bit 8 (mask 8) :: u32)" "0xff0000 = (push_bit 16 (mask 8) :: u32)"
    "0xff000000 = (push_bit 24 (mask 8) :: u32)"
    by (simp_all add: mask_eq_exp_minus_1 push_bit_eq_mult)
  have e: "ucast (drop_bit n (st AND push_bit n (mask 8))) = (ucast (drop_bit n st) :: u8)" for n
    by (rule bit_word_eqI) (auto simp: bit_simps dest: bit_imp_le_length)
  have "unat st < 2 ^ 32" using unsigned_less[of st, where 'a = nat] by simp
  note n = nat_bytes[OF this]
  have p: "(2 :: nat) ^ 8 = 256" "(2 :: nat) ^ 16 = 65536" "(2 :: nat) ^ 24 = 16777216" by simp_all
  have "unat (ucast (st AND mask 8) :: u8) = unat st mod 2 ^ 8" using e[of 0] u[of 0 st] by simp
  then show ?thesis unfolding f e u by (simp only: p n)
qed

lemma lba_high:
  "(ucast (drop_bit 32 (start :: u64) AND 0xff00000000) :: u8) = 0"
  "(ucast (drop_bit 8 (drop_bit 32 (start :: u64) AND 0xff0000000000)) :: u8) = 0"
proof -
  have f: "0xff00000000 = (push_bit 32 (mask 8) :: u64)" "0xff0000000000 = (push_bit 40 (mask 8) :: u64)"
    by (simp_all add: mask_eq_exp_minus_1 push_bit_eq_mult)
  show "(ucast (drop_bit 32 (start :: u64) AND 0xff00000000) :: u8) = 0"
    "(ucast (drop_bit 8 (drop_bit 32 (start :: u64) AND 0xff0000000000)) :: u8) = 0"
    unfolding f by (rule bit_word_eqI; auto simp: bit_simps dest: bit_imp_le_length)+
qed


lemma header_apart:
  fixes clb :: u32
  assumes "144 \<le> clb" and "k < 32"
  shows "ucast clb + HIGH_VMA + k - HIGH_VMA \<ge> (144 :: u64)"
proof -
  have c: "144 \<le> unat clb" "unat clb < 2 ^ 32"
    using assms(1) unsigned_less[of clb, where 'a = nat] by (simp_all add: word_le_nat_alt)
  have k: "unat k < 32" using assms(2) by (simp add: word_less_nat_alt)
  have "unat (ucast clb + k :: u64) = unat clb + unat k"
    using c k by (subst unat_add_u64) (simp_all add: unat_ucast_up)
  moreover have "unat (144 :: u64) = 144" by simp
  ultimately show ?thesis using c unfolding word_le_nat_alt by (simp add: algebra_simps)
qed

definition written_header :: "u64 \<Rightarrow> bool \<Rightarrow> (u64 \<Rightarrow> u8) \<Rightarrow> u64 \<Rightarrow> u8" where
  "written_header h w m = set_header h w (store_bytes h (replicate 32 0) m)"

lemma written_header_at:
  "written_header h w m h = (if w then 0x45 else 5)" "written_header h w m (h + 2) = 1"
  "3 \<le> k \<Longrightarrow> k < 32 \<Longrightarrow> written_header h w m (h + of_nat k) = 0"
  "\<not> x - h < 32 \<Longrightarrow> written_header h w m x = m x"
proof -
  have far: "x \<notin> {h, h + 2, h + 3}" if "\<not> x - h < 32" for x using that by auto
  have b: "(5 :: u8) AND NOT 64 = 5" "(5 :: u8) OR 64 = 0x45" by (simp_all)
  have in0: "store_bytes h (replicate 32 0) m (h + of_nat k) = 0" if "k < 32" for k
    using that by (simp add: store_bytes_in)
  show "written_header h w m h = (if w then 0x45 else 5)"
    using in0[of 0] by (simp add: written_header_def set_header_at)
  show "written_header h w m (h + 2) = 1" by (simp add: written_header_def set_header_at)
  show "written_header h w m (h + of_nat k) = 0" if "3 \<le> k" "k < 32"
  proof -
    have "(of_nat k :: u64) \<noteq> 0" "(of_nat k :: u64) \<noteq> 2"
      using that by (simp_all add: word_unat_eq_iff unat_of_nat_u64)
    then show ?thesis using in0[OF that(2)] by (simp add: written_header_def set_header_at)
  qed
  show "written_header h w m x = m x" if "\<not> x - h < 32"
    using that far[OF that] by (simp add: written_header_def set_header_at store_bytes_out)
qed

lemma write_command_first:
  assumes "144 \<le> clb"
  shows "write_command clb clb 0 start count buffer w m =
    write_table HIGH_VMA (ucast (buffer - HIGH_VMA)) (count * 512 - 1) (rw_fis start count w)
      (written_header (ucast clb + HIGH_VMA) w m)"
proof -
  have "get32 (ucast clb + HIGH_VMA + 8) (written_header (ucast clb + HIGH_VMA) w m) = 0"
    using written_header_at(3)[of 8 "ucast clb + HIGH_VMA" w m] written_header_at(3)[of 9 "ucast clb + HIGH_VMA" w m]
      written_header_at(3)[of 10 "ucast clb + HIGH_VMA" w m] written_header_at(3)[of 11 "ucast clb + HIGH_VMA" w m]
    by (intro get32_zero) (simp_all add: add.assoc)
  then show ?thesis by (simp add: write_command_def written_header_def Let_def)
qed

lemma rw_fis_lba:
  "unat (lba0 (rw_fis start count w)) + 2 ^ 8 * unat (lba1 (rw_fis start count w)) +
   2 ^ 16 * unat (lba2 (rw_fis start count w)) + 2 ^ 24 * unat (lba3 (rw_fis start count w)) = unat start mod 2 ^ 32"
proof -
  have "unat (ucast start :: u32) = unat start mod 2 ^ 32"
    by (simp add: unsigned_ucast_eq take_bit_eq_mod)
  with lba_bytes[of "ucast start"] show ?thesis unfolding rw_fis_def Let_def zero_fis_def
    by (simp only: fisH2D_t.simps)
qed

lemma rw_fis_count:
  "unat (countl (rw_fis start count w)) + 2 ^ 8 * unat (counth (rw_fis start count w)) = unat count mod 2 ^ 16"
proof -
  have "unat (ucast (drop_bit n count) :: u8) = unat count div 2 ^ n mod 2 ^ 8" for n
    by (simp add: unsigned_ucast_eq unsigned_drop_bit_eq take_bit_eq_mod)
      (use unsigned_less[of count, where 'a = nat] in \<open>simp add: drop_bit_eq_div\<close>)
  from this[of 0] this[of 8] mod_mult2_eq[of "unat count" 256 256]
  have "unat (ucast count :: u8) + 2 ^ 8 * unat (ucast (drop_bit 8 count) :: u8) = unat count mod 2 ^ 16" by simp
  then show ?thesis unfolding rw_fis_def Let_def zero_fis_def by (simp only: fisH2D_t.simps)
qed

lemma rw_fis_rest:
  "fisType (rw_fis start count w) = 0x27" "fis_c (rw_fis start count w)"
  "pmport (rw_fis start count w) = 0"
  "fis_command (rw_fis start count w) = (if w then 0x35 else 0x25)"
  "lba4 (rw_fis start count w) = 0" "lba5 (rw_fis start count w) = 0" "fis_device (rw_fis start count w) = push_bit 6 1"
  using lba_high[of start] by (simp_all only: rw_fis_def zero_fis_def Let_def fisH2D_t.simps FIS_REG_H2D_def)

lemma command_decodes:
  assumes "144 \<le> clb"
  shows "decode_request (ucast clb) 0 (write_command clb clb 0 start count buffer w m) =
    \<lparr>rq_ok = True, rq_write = w, rq_command = if w then 0x35 else 0x25, rq_lba = unat start mod 2 ^ 32,
     rq_count = unat count mod 2 ^ 16, rq_buffer = ucast (ucast (buffer - HIGH_VMA) :: u32),
     rq_bytes = unat ((count * 512 - 1) AND 0x3fffff) + 1\<rparr>"
proof -
  define h where "h = ucast clb + HIGH_VMA"
  define M where "M = write_command clb clb 0 start count buffer w m"
  have M: "M = write_table HIGH_VMA (ucast (buffer - HIGH_VMA)) (count * 512 - 1) (rw_fis start count w)
      (written_header h w m)"
    by (simp add: M_def h_def write_command_first[OF assms])
  have hd: "M (h + k) = written_header h w m (h + k)" if "k < 32" for k
    unfolding M h_def by (rule write_table_out[OF header_apart[OF assms that]])
  have ph: "M h = (if w then 0x45 else 5)" "M (h + 2) = 1" "M (h + 3) = 0"
    using hd[of 0] hd[of 2] hd[of 3] written_header_at(3)[of 3 h w m] by (simp_all add: written_header_at)
  have z: "M (h + of_nat k) = 0" if "8 \<le> k" "k < 16" for k
    using that hd[of "of_nat k"] written_header_at(3)[of k h w m] by (simp add: word_less_nat_alt unat_of_nat_u64)
  have p: "get64 (h + 8) M = 0"
    using z[of 8] z[of 9] z[of 10] z[of 11] z[of 12] z[of 13] z[of 14] z[of 15]
    by (simp add: get64_def get32_zero add.assoc)
  have f: "M (HIGH_VMA + of_nat k) = fis_bytes (rw_fis start count w) ! k" if "k < 20" for k
    unfolding M by (rule write_table_fis[OF that])
  note f [of 0, simplified] f [of 1, simplified] f [of 2, simplified] f [of 4, simplified] f [of 5, simplified]
    f [of 6, simplified] f [of 7, simplified] f [of 8, simplified] f [of 9, simplified] f [of 10, simplified] f [of 12, simplified]
    f [of 13, simplified]
  note fis = this[unfolded fis_bytes_def, simplified]
  note t = write_table_prdt[of HIGH_VMA "ucast (buffer - HIGH_VMA)" "count * 512 - 1" "rw_fis start count w"
      "written_header h w m", folded M]
  show ?thesis
    unfolding M_def[symmetric] decode_request_def Let_def
    using rw_fis_lba[of start count w] rw_fis_count[of start count w]
    by (simp add: h_def[symmetric] ph p fis t rw_fis_rest bit_simps)
qed


text \<open>
  C19: the command \<open>sataRW\<close> puts in the first slot means, to the documentation of AHCI and ATA, what the
  caller asked for: a valid host to device command that reads or writes \<open>count mod 65536\<close> sectors at
  \<open>start mod 2^32\<close> (the upper bytes of the address are lost), with one region of the buffer's size.
\<close>

theorem write_command_decodes:
  assumes "144 \<le> clb"
  shows "decode_request (ucast clb) 0 (write_command clb clb 0 start count buffer w m) =
    \<lparr>rq_ok = True, rq_write = w, rq_command = if w then 0x35 else 0x25, rq_lba = unat start mod 2 ^ 32,
     rq_count = unat count mod 2 ^ 16, rq_buffer = ucast (ucast (buffer - HIGH_VMA) :: u32),
     rq_bytes = unat ((count * 512 - 1) AND 0x3fffff) + 1\<rparr>"
  by (rule command_decodes[OF assms])

section \<open>A transfer\<close>

text \<open>The documented behaviour of the registers of a port, for any history of accesses: the list address reads back,
  the drive gets ready, a stopped engine (\<open>ST\<close> clear) halts and has no command outstanding, the command
  register reads back its start bit and an issued command ends; each within \<open>fuel\<close> reads.\<close>

definition free_slot :: "u64 \<Rightarrow> (io_event list \<Rightarrow> u64) \<Rightarrow> io_event list \<Rightarrow> bool" where
  "free_slot port dev l \<longleftrightarrow>
     (ucast (dev (l @ [MmioRead (port + hbaPort_sact)])) :: u32) AND 1 = 0 \<and>
     (ucast (dev (l @ [MmioRead (port + hbaPort_sact), MmioRead (port + hbaPort_ci)])) :: u32) AND 1 = 0"

definition reg_after :: "u64 \<Rightarrow> (io_event list \<Rightarrow> u64) \<Rightarrow> io_event list \<Rightarrow> u64 \<Rightarrow> nat \<Rightarrow> u32" where
  "reg_after port dev l reg k = ucast (dev (l @ replicate (Suc k) (MmioRead (port + reg))))"

definition ahci_port :: "nat \<Rightarrow> u64 \<Rightarrow> u32 \<Rightarrow> (io_event list \<Rightarrow> u64) \<Rightarrow> bool" where
  "ahci_port fuel port clb dev \<longleftrightarrow>
     (\<forall>l. ucast (dev (l @ [MmioRead (port + hbaPort_clb)])) = clb) \<and>
     (\<forall>l. \<exists>k<fuel. reg_after port dev l hbaPort_tfd k AND 0x88 = 0) \<and>
     (\<forall>l v. v AND HBA_CMD_ST = 0 \<longrightarrow> (\<exists>k<fuel. reg_after port dev (l @ [MmioWrite (port + hbaPort_cmd) v]) hbaPort_cmd k AND HBA_CMD_CR = 0)) \<and>
     (\<forall>l v k. reg_after port dev (l @ [MmioWrite (port + hbaPort_cmd) v]) hbaPort_cmd k AND HBA_CMD_ST = v AND HBA_CMD_ST) \<and>
     (\<forall>l v. v AND HBA_CMD_ST = 0 \<longrightarrow> free_slot port dev (l @ [MmioWrite (port + hbaPort_cmd) v])) \<and>
     (\<forall>l. \<exists>k<fuel. reg_after port dev (l @ [MmioWrite (port + hbaPort_ci) 1]) hbaPort_ci k AND 1 = 0)"

lemma wait_clear_returns:
  assumes "\<exists>k<fuel. reg_after port (io_device s) (io_log s) reg k AND m = 0"
  shows "\<exists>k. wait_clear fuel port reg m s =
    Inr (s\<lparr>io_log := io_log s @ replicate (Suc k) (MmioRead (port + reg))\<rparr>)"
proof -
  have "\<exists>k v. poll fuel (\<lambda>v. v AND m = 0) (port_read port reg) s =
    Inr (v, s\<lparr>io_log := io_log s @ replicate (Suc k) (MmioRead (port + reg))\<rparr>)"
    using assms
  proof (induction fuel arbitrary: s)
    case (Suc fuel)
    let ?e = "MmioRead (port + reg)"
    let ?s = "s\<lparr>io_log := io_log s @ [?e]\<rparr>"
    have rd: "port_read port reg s = (reg_after port (io_device s) (io_log s) reg 0, ?s)"
      by (simp add: port_read_def mmio_read_def io_read_def reg_after_def)
    show ?case
    proof (cases "reg_after port (io_device s) (io_log s) reg 0 AND m = 0")
      case True
      then show ?thesis using rd by (auto intro!: exI[of _ 0])
    next
      case False
      obtain k where k: "k < Suc fuel" "reg_after port (io_device s) (io_log s) reg k AND m = 0"
        using Suc.prems by blast
      with False obtain j where j: "k = Suc j" by (cases k) auto
      have "reg_after port (io_device ?s) (io_log ?s) reg j AND m = 0"
        using k(2) j by (simp add: reg_after_def)
      with k(1) j Suc.IH[of ?s] obtain i v where
        "poll fuel (\<lambda>v. v AND m = 0) (port_read port reg) ?s = Inr (v, ?s\<lparr>io_log := io_log ?s @ replicate (Suc i) ?e\<rparr>)"
        by auto
      then show ?thesis using False rd by (auto intro!: exI[of _ "Suc i"])
    qed
  qed simp
  then show ?thesis by (auto simp: wait_clear_def)
qed

lemma port_write_eq: "port_write port reg v s = s\<lparr>io_log := io_log s @ [MmioWrite (port + reg) v]\<rparr>"
  by (simp add: port_write_def mmio_write_def io_write_def)

lemma port_modify_eq:
  "port_modify port reg f s = s\<lparr>io_log := io_log s @ [MmioRead (port + reg)] @
     [MmioWrite (port + reg) (f (reg_after port (io_device s) (io_log s) reg 0))]\<rparr>"
  by (simp add: port_modify_def port_write_eq port_read_def mmio_read_def io_read_def reg_after_def)

lemma findCMD_first:
  assumes "free_slot port (io_device s) (io_log s)"
  shows "findCMD port s = (0, s\<lparr>io_log := io_log s @ [MmioRead (port + hbaPort_sact), MmioRead (port + hbaPort_ci)]\<rparr>)"
proof -
  have "(x OR y) AND 1 = 0" if "x AND 1 = 0" "y AND 1 = 0" for x y :: u32
    using that by (simp add: bit.conj_disj_distrib2)
  then show ?thesis
    using assms by (simp add: findCMD_def numeral_eq_Suc port_read_def mmio_read_def io_read_def free_slot_def)
qed

lemma sendCommand_executes:
  assumes "ahci_port fuel port clb (io_device s)"
  shows "\<exists>l. free_slot port (io_device s) l \<and>
    sendCommand fuel port 0 s = Inr (s\<lparr>dma := fst (hba_execute s port 0 (dma s, disk s)),
      disk := snd (hba_execute s port 0 (dma s, disk s)), io_log := l\<rparr>)"
proof -
  let ?c = "port + hbaPort_cmd" and ?dev = "io_device s"
  have dev: "\<And>l. \<exists>k<fuel. reg_after port ?dev l hbaPort_tfd k AND 0x88 = 0"
    "\<And>l v. v AND HBA_CMD_ST = 0 \<Longrightarrow> \<exists>k<fuel. reg_after port ?dev (l @ [MmioWrite ?c v]) hbaPort_cmd k AND HBA_CMD_CR = 0"
    "\<And>l v k. reg_after port ?dev (l @ [MmioWrite ?c v]) hbaPort_cmd k AND HBA_CMD_ST = v AND HBA_CMD_ST"
    "\<And>l v. v AND HBA_CMD_ST = 0 \<Longrightarrow> free_slot port ?dev (l @ [MmioWrite ?c v])"
    "\<And>l. \<exists>k<fuel. reg_after port ?dev (l @ [MmioWrite (port + hbaPort_ci) 1]) hbaPort_ci k AND 1 = 0"
    using assms unfolding ahci_port_def by blast+
  have st: "(v AND NOT HBA_CMD_ST) AND HBA_CMD_ST = 0" for v :: u32
    by (rule bit_word_eqI) (auto simp: bit_simps)
  obtain k1 where 1: "wait_clear fuel port hbaPort_tfd 0x88 s =
      Inr (s\<lparr>io_log := io_log s @ replicate (Suc k1) (MmioRead (port + hbaPort_tfd))\<rparr>)"
    using wait_clear_returns[OF dev(1)] by blast
  have stop: "\<exists>l v k. v AND HBA_CMD_ST = 0 \<and> wait_clear fuel port hbaPort_cmd HBA_CMD_CR (port_modify port hbaPort_cmd (\<lambda>v. v AND NOT HBA_CMD_ST) t) =
      Inr (t\<lparr>io_log := l @ MmioWrite ?c v # replicate (Suc k) (MmioRead ?c)\<rparr>)"
    if "io_device t = ?dev" for t
  proof -
    define v where "v = reg_after port ?dev (io_log t) hbaPort_cmd 0 AND NOT HBA_CMD_ST"
    define t' where "t' = port_modify port hbaPort_cmd (\<lambda>v. v AND NOT HBA_CMD_ST) t"
    have t': "t' = t\<lparr>io_log := (io_log t @ [MmioRead ?c]) @ [MmioWrite ?c v]\<rparr>"
      by (simp add: t'_def port_modify_eq v_def that)
    have "\<exists>k<fuel. reg_after port (io_device t') (io_log t') hbaPort_cmd k AND HBA_CMD_CR = 0"
      using dev(2)[OF st, of "io_log t @ [MmioRead ?c]" "reg_after port ?dev (io_log t) hbaPort_cmd 0"] that
      by (simp add: t' v_def)
    from wait_clear_returns[OF this] obtain k where
      "wait_clear fuel port hbaPort_cmd HBA_CMD_CR t' = Inr (t'\<lparr>io_log := io_log t' @ replicate (Suc k) (MmioRead ?c)\<rparr>)"
      by blast
    moreover have "v AND HBA_CMD_ST = 0" unfolding v_def by (rule st)
    ultimately show ?thesis unfolding t'_def[symmetric]
      by (intro exI[of _ "io_log t @ [MmioRead ?c]"] exI[of _ v] exI[of _ k]) (simp add: t')
  qed
  obtain l2 where 2: "wait_clear fuel port hbaPort_cmd HBA_CMD_CR (port_modify port hbaPort_cmd (\<lambda>v. v AND NOT HBA_CMD_ST)
      (s\<lparr>io_log := io_log s @ replicate (Suc k1) (MmioRead (port + hbaPort_tfd))\<rparr>)) = Inr (s\<lparr>io_log := l2\<rparr>)"
    using stop[of "s\<lparr>io_log := io_log s @ replicate (Suc k1) (MmioRead (port + hbaPort_tfd))\<rparr>"] by auto
  define t where "t = port_write port hbaPort_ci 1 (port_modify port hbaPort_cmd (\<lambda>v. v OR HBA_CMD_ST)
      (port_modify port hbaPort_cmd (\<lambda>v. v OR HBA_CMD_FRE) (s\<lparr>io_log := l2\<rparr>)))"
  have "\<exists>l. port_modify port hbaPort_cmd (\<lambda>v. v OR HBA_CMD_ST)
      (port_modify port hbaPort_cmd (\<lambda>v. v OR HBA_CMD_FRE) (s\<lparr>io_log := l2\<rparr>)) = s\<lparr>io_log := l\<rparr>"
    by (simp add: port_modify_eq) (rule exI, rule refl)
  then obtain l3 where t: "t = s\<lparr>io_log := l3 @ [MmioWrite (port + hbaPort_ci) 1]\<rparr>"
    by (auto simp: t_def port_write_eq)
  have "\<exists>k<fuel. reg_after port (io_device t) (io_log t) hbaPort_ci k AND 1 = 0"
    using dev(5) by (simp add: t)
  from wait_clear_returns[OF this] obtain l4 where 4: "wait_clear fuel port hbaPort_ci 1 t = Inr (s\<lparr>io_log := l4\<rparr>)"
    by (auto simp: t)
  define u where "u = s\<lparr>io_log := l4, dma := fst (hba_execute s port 0 (dma s, disk s)),
      disk := snd (hba_execute s port 0 (dma s, disk s))\<rparr>"
  have u: "complete port 0 (s\<lparr>io_log := l4\<rparr>) = u"
    by (simp add: complete_def u_def split: prod.splits)
  obtain l5 v k where 5: "v AND HBA_CMD_ST = 0"
      "wait_clear fuel port hbaPort_cmd HBA_CMD_CR (port_modify port hbaPort_cmd (\<lambda>v. v AND NOT HBA_CMD_ST) u) =
      Inr (u\<lparr>io_log := l5 @ MmioWrite ?c v # replicate (Suc k) (MmioRead ?c)\<rparr>)"
    using stop[of u] by (auto simp: u_def)
  define r where "r = reg_after port ?dev (l5 @ [MmioWrite ?c v]) hbaPort_cmd (Suc k)"
  have "r AND HBA_CMD_ST = 0" unfolding r_def dev(3) by (rule 5(1))
  moreover have "(r AND NOT HBA_CMD_FRE) AND HBA_CMD_ST = (r AND HBA_CMD_ST) AND NOT HBA_CMD_FRE"
    by (simp only: ac_simps)
  ultimately have "(r AND NOT HBA_CMD_FRE) AND HBA_CMD_ST = 0" by simp
  note free = dev(4)[OF this]
  have last: "port_modify port hbaPort_cmd (\<lambda>v. v AND NOT HBA_CMD_FRE)
      (u\<lparr>io_log := l5 @ MmioWrite ?c v # replicate (Suc k) (MmioRead ?c)\<rparr>) =
      u\<lparr>io_log := (l5 @ MmioWrite ?c v # replicate (Suc (Suc k)) (MmioRead ?c)) @ [MmioWrite ?c (r AND NOT HBA_CMD_FRE)]\<rparr>"
    by (simp add: port_modify_eq r_def u_def reg_after_def replicate_append_same)
  let ?l = "(l5 @ MmioWrite ?c v # replicate (Suc (Suc k)) (MmioRead ?c)) @ [MmioWrite ?c (r AND NOT HBA_CMD_FRE)]"
  have "sendCommand fuel port 0 s = Inr (u\<lparr>io_log := ?l\<rparr>)"
    using 1 2 4 5(2) u last unfolding sendCommand_def Let_def t_def by simp
  then have "sendCommand fuel port 0 s = Inr (s\<lparr>dma := fst (hba_execute s port 0 (dma s, disk s)),
      disk := snd (hba_execute s port 0 (dma s, disk s)), io_log := ?l\<rparr>)"
    by (simp add: u_def)
  with free[of "l5 @ MmioWrite ?c v # replicate (Suc (Suc k)) (MmioRead ?c)"] show ?thesis by blast
qed

lemma sataRW_executes:
  assumes "ahci_port fuel port clb (io_device s)" and "free_slot port (io_device s) (io_log s)"
    and "\<not> ahciLock s"
    and r_def: "r = hba_execute s port 0 (write_command clb clb 0 start count buffer w (dma s), disk s)"
  shows "\<exists>l. free_slot port (io_device s) l \<and>
    sataRW fuel port start count buffer w s = Inr (s\<lparr>dma := fst r, disk := snd r, io_log := l, ahciLock := False\<rparr>)"
proof -
  have clb: "ucast (io_device s (l @ [MmioRead (port + hbaPort_clb)])) = clb" for l
    using assms(1) by (simp add: ahci_port_def)
  let ?s = "s\<lparr>ahciLock := True\<rparr>"
  define t where "t = s\<lparr>ahciLock := True, io_log := io_log s @ [MmioRead (port + hbaPort_sact), MmioRead (port + hbaPort_ci),
      MmioRead (port + hbaPort_clb), MmioRead (port + hbaPort_clb)],
      dma := write_command clb clb 0 start count buffer w (dma s)\<rparr>"
  have f: "findCMD port ?s = (0, ?s\<lparr>io_log := io_log s @ [MmioRead (port + hbaPort_sact), MmioRead (port + hbaPort_ci)]\<rparr>)"
    using findCMD_first[of port ?s] assms(2) by simp
  have c1: "ucast (io_device s (io_log s @ [MmioRead (port + hbaPort_sact), MmioRead (port + hbaPort_ci), MmioRead (port + hbaPort_clb)])) = clb"
    using clb[of "io_log s @ [MmioRead (port + hbaPort_sact), MmioRead (port + hbaPort_ci)]"] by simp
  have c2: "ucast (io_device s (io_log s @ [MmioRead (port + hbaPort_sact), MmioRead (port + hbaPort_ci), MmioRead (port + hbaPort_clb), MmioRead (port + hbaPort_clb)])) = clb"
    using clb[of "io_log s @ [MmioRead (port + hbaPort_sact), MmioRead (port + hbaPort_ci), MmioRead (port + hbaPort_clb)]"] by simp
  have "sataRW fuel port start count buffer w s =
      and_then (sendCommand fuel port 0 t) (\<lambda>s. Inr (s\<lparr>ahciLock := spinRelease (ahciLock s)\<rparr>))"
    using assms(3) by (simp add: sataRW_def spinLock_def f port_read_def mmio_read_def io_read_def c1 c2 t_def)
  moreover obtain l where "free_slot port (io_device t) l" "sendCommand fuel port 0 t =
      Inr (t\<lparr>dma := fst (hba_execute t port 0 (dma t, disk t)), disk := snd (hba_execute t port 0 (dma t, disk t)), io_log := l\<rparr>)"
    using sendCommand_executes[of fuel port clb t] assms(1) by (auto simp: t_def)
  ultimately show ?thesis
    by (intro exI[of _ l]) (simp add: t_def r_def spinRelease_def)
qed

text \<open>The memory a command of the first slot uses: its header in the command list and, since the header is
  cleared before its table address is read, the table at physical address 0.\<close>

definition scratch :: "u32 \<Rightarrow> u64 \<Rightarrow> bool" where
  "scratch clb x \<longleftrightarrow> x - HIGH_VMA < 144 \<or> x - (ucast clb + HIGH_VMA) < 32"

definition within :: "u64 \<Rightarrow> nat \<Rightarrow> u64 \<Rightarrow> bool" where
  "within a n x \<longleftrightarrow> unat (x - a) < n"

lemma write_command_out:
  assumes "144 \<le> clb" and "\<not> scratch clb x"
  shows "write_command clb clb 0 start count buffer w m x = m x"
proof -
  have "x - HIGH_VMA \<ge> 144" "\<not> x - (ucast clb + HIGH_VMA) < 32" using assms(2) by (auto simp: scratch_def not_less)
  then show ?thesis by (simp add: write_command_first[OF assms(1)] write_table_out written_header_at)
qed

lemma kernel_buffer:
  assumes "buffer - HIGH_VMA < 2 ^ 32"
  shows "ucast (ucast (buffer - HIGH_VMA) :: u32) + HIGH_VMA = buffer"
proof -
  have "(ucast (ucast (buffer - HIGH_VMA) :: u32) :: u64) = take_bit 32 (buffer - HIGH_VMA)"
    by (rule bit_word_eqI) (auto simp: bit_simps)
  also have "\<dots> = buffer - HIGH_VMA" using assms by (simp only: take_bit_eq_mod mod_word_less)
  finally have "(ucast (ucast (buffer - HIGH_VMA) :: u32) :: u64) = buffer - HIGH_VMA" .
  then show ?thesis by simp
qed

lemma transfer_bytes:
  fixes count :: u32
  assumes "0 < count" and "count \<le> 8192"
  shows "unat ((count * 512 - 1) AND 0x3fffff) + 1 = 512 * unat count"
proof -
  have c: "0 < unat count" "unat count \<le> 8192" using assms by (simp_all add: word_less_nat_alt word_le_nat_alt)
  then have m: "unat (count * 512) = unat count * 512" by (simp add: unat_word_ariths(2))
  then have "1 \<le> count * 512" using c by (simp add: word_le_nat_alt)
  then have "unat (count * 512 - 1) = unat count * 512 - 1" by (simp add: unat_sub m)
  moreover have "0x3fffff = (mask 22 :: u32)" by (simp add: mask_eq_exp_minus_1)
  moreover have "unat (x AND mask 22) = unat x mod 2 ^ 22" for x :: u32
    by (simp only: take_bit_eq_mask[symmetric] unsigned_take_bit_eq) (simp add: take_bit_eq_mod)
  ultimately show ?thesis using c by simp
qed

lemma load_store: "load_bytes a (length bs) (store_bytes a bs m) = bs" if "length bs < 2 ^ 64"
  using that by (auto simp: load_bytes_def store_bytes_in intro!: nth_equalityI)

lemma sectors_length: "(\<And>l. length (d l) = 512) \<Longrightarrow> length (sectors d lba n) = 512 * n"
  by (simp add: sectors_def length_concat comp_def sum_list_triv)

lemma sataRW_read:
  assumes "ahci_port fuel port clb (io_device s)" and "free_slot port (io_device s) (io_log s)"
    and "\<not> ahciLock s" and "hba_execute s port = ahci_device identity (ucast clb)"
    and "\<And>l. length (disk s l) = 512" and "144 \<le> clb"
    and "0 < count" and "count \<le> 8192" and "buffer - HIGH_VMA < 2 ^ 32"
  obtains l M where "free_slot port (io_device s) l"
    "sataRW fuel port start count buffer False s =
       Inr (s\<lparr>dma := M, disk := disk s, io_log := l, ahciLock := False\<rparr>)"
    "load_bytes buffer (512 * unat count) M = sectors (disk s) (unat start mod 2 ^ 32) (unat count)"
    "\<And>x. \<not> within buffer (512 * unat count) x \<Longrightarrow> \<not> scratch clb x \<Longrightarrow> M x = dma s x"
proof -
  define M where "M = write_command clb clb 0 start count buffer False (dma s)"
  define S where "S = sectors (disk s) (unat start mod 2 ^ 32) (unat count)"
  have c: "unat count \<le> 8192" using assms(8) by (simp add: word_le_nat_alt)
  have S: "length S = 512 * unat count" using sectors_length[OF assms(5)] by (simp add: S_def)
  have r: "hba_execute s port 0 (M, disk s) = (store_bytes buffer S M, disk s)"
    using c S unfolding assms(4) ahci_device_def M_def S_def
    by (simp add: command_decodes[OF assms(6)] kernel_buffer[OF assms(9)] transfer_bytes[OF assms(7,8), simplified])
  obtain l where l: "free_slot port (io_device s) l" "sataRW fuel port start count buffer False s =
      Inr (s\<lparr>dma := store_bytes buffer S M, disk := disk s, io_log := l, ahciLock := False\<rparr>)"
    using sataRW_executes[OF assms(1-3) refl, of start count buffer False] r by (auto simp: M_def)
  show thesis
  proof (rule that[OF l])
    show "load_bytes buffer (512 * unat count) (store_bytes buffer S M) = sectors (disk s) (unat start mod 2 ^ 32) (unat count)"
      using load_store[of S buffer M] S c by (simp add: S_def)
    fix x assume x: "\<not> within buffer (512 * unat count) x" "\<not> scratch clb x"
    have "\<not> x - buffer < of_nat (length S)"
      using x(1) c by (simp add: S within_def word_less_nat_alt unat_of_nat_u64 del: of_nat_mult)
    then show "store_bytes buffer S M x = dma s x"
      using x(2) by (simp add: store_bytes_out M_def write_command_out[OF assms(6)])
  qed
qed

lemma sataRW_write:
  assumes "ahci_port fuel port clb (io_device s)" and "free_slot port (io_device s) (io_log s)"
    and "\<not> ahciLock s" and "hba_execute s port = ahci_device identity (ucast clb)" and "144 \<le> clb"
    and "0 < count" and "count \<le> 8192" and "buffer - HIGH_VMA < 2 ^ 32"
    and "\<And>x. within buffer (512 * unat count) x \<Longrightarrow> \<not> scratch clb x"
  obtains l M D where "free_slot port (io_device s) l"
    "sataRW fuel port start count buffer True s = Inr (s\<lparr>dma := M, disk := D, io_log := l, ahciLock := False\<rparr>)"
    "D = (\<lambda>l. if unat start mod 2 ^ 32 \<le> l \<and> l < unat start mod 2 ^ 32 + unat count
       then load_bytes (buffer + of_nat (512 * (l - unat start mod 2 ^ 32))) 512 (dma s) else disk s l)"
    "\<And>x. \<not> scratch clb x \<Longrightarrow> M x = dma s x"
proof -
  define M where "M = write_command clb clb 0 start count buffer True (dma s)"
  define lba where "lba = unat start mod 2 ^ 32"
  define D where "D = (\<lambda>l. if lba \<le> l \<and> l < lba + unat count
    then load_bytes (buffer + of_nat (512 * (l - lba))) 512 M else disk s l)"
  have c: "unat count \<le> 8192" using assms(7) by (simp add: word_le_nat_alt)
  have r: "hba_execute s port 0 (M, disk s) = (M, D)"
    using c unfolding assms(4) ahci_device_def M_def D_def lba_def
    by (simp add: command_decodes[OF assms(5)] kernel_buffer[OF assms(8)] transfer_bytes[OF assms(6,7), simplified] cong: if_cong)
  obtain l where l: "free_slot port (io_device s) l" "sataRW fuel port start count buffer True s =
      Inr (s\<lparr>dma := M, disk := D, io_log := l, ahciLock := False\<rparr>)"
    using sataRW_executes[OF assms(1-3) refl, of start count buffer True] r by (auto simp: M_def)
  have M: "M x = dma s x" if "\<not> scratch clb x" for x
    unfolding M_def by (rule write_command_out[OF assms(5) that])
  have "load_bytes (buffer + of_nat (512 * k)) 512 M = load_bytes (buffer + of_nat (512 * k)) 512 (dma s)"
    if "k < unat count" for k
    unfolding load_bytes_def
  proof (rule map_cong[OF refl], rule M, rule assms(9))
    fix j assume "j \<in> set [0..<512]"
    then have "512 * k + j < 512 * unat count" using that by auto
    then show "within buffer (512 * unat count) (buffer + of_nat (512 * k) + of_nat j)"
      using c by (simp add: within_def unat_of_nat_u64 flip: of_nat_add of_nat_mult add.assoc)
  qed
  note same = this
  have "D = (\<lambda>l. if lba \<le> l \<and> l < lba + unat count
       then load_bytes (buffer + of_nat (512 * (l - lba))) 512 (dma s) else disk s l)"
    unfolding D_def by (intro ext if_cong refl same) auto
  from that[OF l this[unfolded lba_def] M] show thesis by blast
qed

text \<open>A concrete controller with its command list at physical address \<open>0x1000\<close> that is always ready, and a disk.\<close>

definition example_port_device :: "io_event list \<Rightarrow> u64" where
  "example_port_device l =
     (case last l of
        MmioRead a \<Rightarrow>
          if a = hbaPort_clb then 0x1000
          else if a = hbaPort_cmd then
            ucast (fold (\<lambda>e v. case e of MmioWrite a x \<Rightarrow> if a = hbaPort_cmd then x else v | _ \<Rightarrow> v) l 0 AND NOT HBA_CMD_CR)
          else 0
      | _ \<Rightarrow> 0)"

definition example_ahci :: "unit ahci_state_scheme" where
  "example_ahci = smp_state.extend (example_smp\<lparr>io_device := example_port_device\<rparr>)
     (ahci_state.fields (\<lambda>_. 7) [\<lparr>sectorCount = 100, hbaPort = 0\<rparr>] HIGH_VMA 1 1
       \<lparr>bar_base = 0, bar_size = 0\<rparr> 1 False (\<lambda>l. replicate 512 (of_nat l)) (\<lambda>_. ahci_device [] 0x1000))"

lemma example_ahci_port: "ahci_port 1 0 0x1000 example_port_device"
proof -
  have r: "fold (\<lambda>e v. case e of MmioWrite a x \<Rightarrow> if a = hbaPort_cmd then x else v | _ \<Rightarrow> v)
      (replicate n (MmioRead a)) v = (v :: u32)" for n a v
    by (induction n) simp_all
  have "reg_after 0 example_port_device (l @ [MmioWrite hbaPort_cmd v]) hbaPort_cmd k = v AND NOT HBA_CMD_CR" for l v k
    using r[of "Suc k" hbaPort_cmd v]
    by (simp add: reg_after_def example_port_device_def hba_offsets del: replicate_Suc)
      (rule bit_word_eqI, auto simp: bit_simps)
  moreover have "(v AND NOT HBA_CMD_CR) AND HBA_CMD_CR = 0" for v :: u32
    by (rule bit_word_eqI) (auto simp: bit_simps)
  moreover have "(v AND NOT HBA_CMD_CR) AND HBA_CMD_ST = v AND HBA_CMD_ST" for v :: u32
    unfolding and.assoc by (simp add: HBA_CMD_ST_def HBA_CMD_CR_def)
  ultimately show ?thesis
    unfolding ahci_port_def
    by (auto simp: free_slot_def example_port_device_def hba_offsets reg_after_def)
qed

text \<open>
  C17: a read brings the sectors of the disk into the buffer, changes no other memory than the buffer and the
  command's scratch memory, leaves the disk alone and releases the lock, on a controller with the documented registers.
\<close>

theorem sataRW_reads:
  assumes "ahci_port fuel port clb (io_device s)" and "free_slot port (io_device s) (io_log s)"
    and "\<not> ahciLock s" and "hba_execute s port = ahci_device identity (ucast clb)"
    and "\<And>l. length (disk s l) = 512" and "144 \<le> clb"
    and "0 < count" and "count \<le> 8192" and "buffer - HIGH_VMA < 2 ^ 32"
  shows "\<exists>s'. sataRW fuel port start count buffer False s = Inr s' \<and>
    load_bytes buffer (512 * unat count) (dma s') = sectors (disk s) (unat start mod 2 ^ 32) (unat count) \<and>
    (\<forall>x. \<not> within buffer (512 * unat count) x \<longrightarrow> \<not> scratch clb x \<longrightarrow> dma s' x = dma s x) \<and>
    disk s' = disk s \<and> \<not> ahciLock s'"
  by (rule sataRW_read[OF assms, where start = start]) auto

text \<open>
  C18: a write puts the bytes of the buffer on the disk, sector after sector, leaves every other sector alone and
  changes no memory but the command's scratch memory.
\<close>

theorem sataRW_writes:
  assumes "ahci_port fuel port clb (io_device s)" and "free_slot port (io_device s) (io_log s)"
    and "\<not> ahciLock s" and "hba_execute s port = ahci_device identity (ucast clb)" and "144 \<le> clb"
    and "0 < count" and "count \<le> 8192" and "buffer - HIGH_VMA < 2 ^ 32"
    and "\<And>x. within buffer (512 * unat count) x \<Longrightarrow> \<not> scratch clb x"
  shows "\<exists>s'. sataRW fuel port start count buffer True s = Inr s' \<and>
    (\<forall>k < unat count. disk s' (unat start mod 2 ^ 32 + k) = load_bytes (buffer + of_nat (512 * k)) 512 (dma s)) \<and>
    (\<forall>l. \<not> (unat start mod 2 ^ 32 \<le> l \<and> l < unat start mod 2 ^ 32 + unat count) \<longrightarrow> disk s' l = disk s l) \<and>
    (\<forall>x. \<not> scratch clb x \<longrightarrow> dma s' x = dma s x) \<and> \<not> ahciLock s'"
  by (rule sataRW_write[OF assms, where start = start]) auto


lemmas example_ahci_defs = example_ahci_def smp_state.defs ahci_state.defs

lemma example_ahci_fields:
  "io_device example_ahci = example_port_device" "\<not> ahciLock example_ahci"
  "hba_execute example_ahci = (\<lambda>_. ahci_device [] 0x1000)" "disk example_ahci = (\<lambda>l. replicate 512 (of_nat l))"
  "dma example_ahci = (\<lambda>_. 7)" "drive example_ahci = [\<lparr>sectorCount = 100, hbaPort = 0\<rparr>]"
  by (simp_all add: example_ahci_defs)

lemma example_ahci_free: "free_slot 0 example_port_device l"
  by (simp add: free_slot_def example_port_device_def hba_offsets)

theorem write_command_decodes_witness:
  "rq_lba (decode_request (ucast (0x1000 :: u32)) 0 (write_command 0x1000 0x1000 0 0x1234 2 (HIGH_VMA + 0x2000) False (\<lambda>_. 7))) = 0x1234"
  using write_command_decodes[of "0x1000" "0x1234" 2 "HIGH_VMA + 0x2000" False "\<lambda>_. 7"] by simp

theorem sataRW_reads_witness:
  "\<exists>s'. sataRW 1 0 5 2 (HIGH_VMA + 0x2000) False example_ahci = Inr s' \<and>
    load_bytes (HIGH_VMA + 0x2000) 1024 (dma s') = replicate 512 5 @ replicate 512 6 \<and> \<not> ahciLock s'"
proof -
  have "sectors (disk example_ahci) 5 2 = replicate 512 5 @ replicate 512 6"
    by (simp add: sectors_def example_ahci_fields upt_rec)
  then show ?thesis
    using sataRW_reads[of 1 0 "0x1000" example_ahci "[]" 2 "HIGH_VMA + 0x2000" 5] example_ahci_port
    by (auto simp: example_ahci_fields example_ahci_free)
qed

theorem sataRW_writes_witness:
  "\<exists>s'. sataRW 1 0 5 1 (HIGH_VMA + 0x2000) True example_ahci = Inr s' \<and>
    disk s' 5 = replicate 512 7 \<and> disk s' 6 = replicate 512 6"
proof -
  have "\<not> scratch 0x1000 x" if "within (HIGH_VMA + 0x2000) (512 * unat (1 :: u32)) x" for x
  proof -
    define d where "d = x - (HIGH_VMA + 0x2000)"
    have d: "unat d < 512" using that by (simp add: within_def d_def)
    have "x - HIGH_VMA = d + 0x2000" "x - (ucast (0x1000 :: u32) + HIGH_VMA) = d + 0x1000"
      by (simp_all add: d_def)
    moreover have "unat (d + 0x2000) = unat d + 0x2000" "unat (d + 0x1000) = unat d + 0x1000"
      using d by (subst unat_add_u64; simp)+
    ultimately show ?thesis unfolding scratch_def word_less_nat_alt by (simp only:) simp
  qed
  moreover have "load_bytes a 512 (\<lambda>_. 7) = replicate 512 7" for a
    by (simp add: load_bytes_def map_replicate_const)
  ultimately show ?thesis
    using sataRW_writes[of 1 0 "0x1000" example_ahci "[]" 1 "HIGH_VMA + 0x2000" 5] example_ahci_port
    by (fastforce simp: example_ahci_fields example_ahci_free)
qed

end
