(* ===== verification/Bfs.thy ===== *)
theory Bfs
  imports Ahci
begin

text \<open>
  The file system, \<^verbatim>\<open>kernel/fs/bfs.c\<close> and \<^verbatim>\<open>kernel/fs/bfs.h\<close>: the superblock and the inodes are read to memory once
  (\<open>superBlock\<close> is their address) and a file is a run of sectors behind \<open>FILES_SECTOR\<close>. The locale
  \<open>sector_device\<close> is what the file system needs of the disk; the SATA driver provides it.
\<close>

section \<open>The superblock and the inodes\<close>

record bfs_state = ahci_state +
  bfs_driveCnt :: u8
  superBlock :: u64

definition SUPER_BLOCK_SECTOR :: u64 where "SUPER_BLOCK_SECTOR = 0x4000"
definition FILES_SECTOR :: u32 where "FILES_SECTOR = 0x4000 + (0x200000 div 0x200)"
definition MAGIC_NUMBER :: u32 where "MAGIC_NUMBER = 0x69694200"

text \<open>The offsets of the members of \<open>superBlock_t\<close> and of \<open>inode_t\<close>; both are packed.\<close>

definition sb_signature :: u64 where "sb_signature = 0"
definition sb_blockCount :: u64 where "sb_blockCount = 4"
definition sb_inodeCount :: u64 where "sb_inodeCount = 8"
definition sb_unallocatedInode :: u64 where "sb_unallocatedInode = 12"
definition sb_unallocatedBlockCnt :: u64 where "sb_unallocatedBlockCnt = 16"
definition sb_blockSize :: u64 where "sb_blockSize = 20"
definition sb_inodeSize :: u64 where "sb_inodeSize = 24"
definition sb_inodes :: u64 where "sb_inodes = 28 + (0x200 - 28)"
definition inode_blockNumber :: u64 where "inode_blockNumber = 20"
definition inode_present :: u64 where "inode_present = 20 + 4 + 4"
definition sizeof_inode_t :: u64 where "sizeof_inode_t = 20 + 4 + 4 + 1"

lemmas sb_offsets = sb_signature_def sb_blockCount_def sb_inodeCount_def sb_unallocatedInode_def
  sb_unallocatedBlockCnt_def sb_blockSize_def sb_inodeSize_def sb_inodes_def inode_blockNumber_def
  inode_present_def sizeof_inode_t_def

definition sb_get :: "u64 \<Rightarrow> 'a bfs_state_scheme \<Rightarrow> u32" where
  "sb_get off s = get32 (superBlock s + off) (dma s)"

definition sb_put :: "u64 \<Rightarrow> u32 \<Rightarrow> 'a bfs_state_scheme \<Rightarrow> 'a bfs_state_scheme" where
  "sb_put off v s = s\<lparr>dma := put32 (superBlock s + off) v (dma s)\<rparr>"

definition inode_at :: "u64 \<Rightarrow> 'a bfs_state_scheme \<Rightarrow> u64" where
  "inode_at i s = superBlock s + sb_inodes + sizeof_inode_t * i"

definition inode_fileName :: "u64 \<Rightarrow> 'a bfs_state_scheme \<Rightarrow> string" where
  "inode_fileName i s = map (\<lambda>b. char_of (unat b)) (load_bytes (inode_at i s) 20 (dma s))"

section \<open>Operations\<close>

text \<open>\<open>sataRW(&drives.drive[0], start, 1, buffer, w)\<close>.\<close>

definition disk_rw :: "nat \<Rightarrow> u64 \<Rightarrow> u64 \<Rightarrow> bool \<Rightarrow> 'a bfs_state_scheme \<Rightarrow> 'a bfs_state_scheme result" where
  "disk_rw fuel start buffer w s =
     and_then (fetch (drive s) 0) (\<lambda>d. sataRW fuel (hbaPort d) start 1 buffer w s)"

definition div_u64 :: "u64 \<Rightarrow> u64 \<Rightarrow> u64 result" where
  "div_u64 a b = (if b = 0 then Inl DivByZero else Inr (a div b))"

definition count_free_inodes :: "'a bfs_state_scheme \<Rightarrow> 'a bfs_state_scheme result" where
  "count_free_inodes s =
     each_u64 (\<lambda>i s.
       Inr (if dma s (inode_at i s + i) \<noteq> 0 \<and> dma s (inode_at i s + inode_present) = 0
            then sb_put sb_unallocatedInode (sb_get sb_unallocatedInode s - 1) s else s))
       0 (ucast (sb_get sb_inodeCount s)) s"

definition initGFS :: "nat \<Rightarrow> 'a bfs_state_scheme \<Rightarrow> 'a bfs_state_scheme result" where
  "initGFS fuel s =
     (let s = s\<lparr>bfs_driveCnt := fst (getDrives s)\<rparr> in
      and_then (physicalPageAlloc 0x200 s) (\<lambda>(p, s).
      let s = s\<lparr>superBlock := p + HIGH_VMA\<rparr> in
      and_then (each_u64 (\<lambda>i s. disk_rw fuel (SUPER_BLOCK_SECTOR + i) (superBlock s + i * 0x200) False s) 0 0x1000 s) (\<lambda>s.
      if sb_get sb_signature s \<noteq> MAGIC_NUMBER then
        kprintDS (cstr ''[FS]'') (cstr ''Fatal error: signature not found %x'') [VaInt (sb_get sb_signature s)] s
      else
        and_then (fetch (drive s) 0) (\<lambda>d.
        and_then (div_u64 (sectorCount d * 512) (ucast (sb_get sb_blockSize s))) (\<lambda>n.
        let s = sb_put sb_blockCount (ucast n) s in
        and_then (div_u64 (sectorCount d * 512) (ucast (sb_get sb_blockSize s))) (\<lambda>n.
        let s = sb_put sb_unallocatedBlockCnt (ucast n) s in
        and_then (div_u64 0x200000 (ucast (sb_get sb_inodeSize s))) (\<lambda>n.
        let s = sb_put sb_unallocatedInode (ucast n) s in
        and_then (div_u64 0x200000 (ucast (sb_get sb_inodeSize s))) (\<lambda>n.
        let s = sb_put sb_inodeCount (ucast n) s in
        and_then (kprintDS (cstr ''[FS]'') (cstr ''possible block count: %d'') [VaInt (sb_get sb_blockCount s)] s) (\<lambda>s.
        and_then (kprintDS (cstr ''[FS]'') (cstr ''unallocated inodes: %d'') [VaInt (sb_get sb_unallocatedInode s)] s) (\<lambda>s.
        and_then (kprintDS (cstr ''[FS]'') (cstr ''unallocated blocks: %d'') [VaInt (sb_get sb_unallocatedBlockCnt s)] s) (\<lambda>s.
        and_then (kprintDS (cstr ''[FS]'') (cstr ''Block size: %d'') [VaInt (sb_get sb_blockSize s)] s) (\<lambda>s.
        and_then (kprintDS (cstr ''[FS]'') (cstr ''inode size %d'') [VaInt (sb_get sb_inodeSize s)] s)
          count_free_inodes))))))))))))"

text \<open>The index, \<open>-1\<close> if there is none; the bound is 32 bit arithmetic.\<close>

definition inodeLookUp :: "string \<Rightarrow> 'a bfs_state_scheme \<Rightarrow> u64 result" where
  "inodeLookUp fileName s =
     and_then
       (for_u64 (\<lambda>i (_ :: unit).
          and_then (strcmp (inode_fileName i s) fileName) (\<lambda>d.
            Inr (if d = 0 then Exit i else Next ())))
          0 (ucast (sb_get sb_inodeCount s - sb_get sb_unallocatedInode s)) ())
       (\<lambda>f. case f of Exit i \<Rightarrow> Inr i | Next _ \<Rightarrow> Inr (- 1))"

text \<open>The sector of block \<open>i\<close> of the file at \<open>index\<close>: a 32 bit sum and then a 64 bit one.\<close>

definition file_sector :: "u64 \<Rightarrow> u64 \<Rightarrow> 'a bfs_state_scheme \<Rightarrow> u64" where
  "file_sector index i s = ucast (FILES_SECTOR + get32 (inode_at index s + inode_blockNumber) (dma s)) + i"

definition transfer_file ::
  "nat \<Rightarrow> string \<Rightarrow> u64 \<Rightarrow> u64 \<Rightarrow> u64 \<Rightarrow> bool \<Rightarrow> 'a bfs_state_scheme \<Rightarrow> 'a bfs_state_scheme result"
where
  "transfer_file fuel fileName buffer start count w s =
     and_then (inodeLookUp fileName s) (\<lambda>index.
       if index = - 1 then
         kprintDS (cstr ''[FS]'') (cstr ''Fatal error: Cannot open file %s'') [VaStr fileName] s
       else
         each_u64 (\<lambda>i s. disk_rw fuel (file_sector index i s) (buffer + (i - start) * 0x200) w s) start count s)"

definition fopen :: "nat \<Rightarrow> string \<Rightarrow> u64 \<Rightarrow> u64 \<Rightarrow> 'a bfs_state_scheme \<Rightarrow> 'a bfs_state_scheme result" where
  "fopen fuel fileName buffer initalSize = transfer_file fuel fileName buffer 0 initalSize False"

definition writeBack :: "nat \<Rightarrow> string \<Rightarrow> u64 \<Rightarrow> u64 \<Rightarrow> 'a bfs_state_scheme \<Rightarrow> 'a bfs_state_scheme result" where
  "writeBack fuel fileName buffer count = transfer_file fuel fileName buffer 0 count True"

definition readIn :: "nat \<Rightarrow> string \<Rightarrow> u64 \<Rightarrow> u64 \<Rightarrow> u64 \<Rightarrow> 'a bfs_state_scheme \<Rightarrow> 'a bfs_state_scheme result" where
  "readIn fuel fileName buffer start count = transfer_file fuel fileName buffer start count False"


section \<open>What the file system needs of a disk\<close>

lemma load_bytes_append:
  "load_bytes a (m + n) f = load_bytes a m f @ load_bytes (a + of_nat m) n f"
proof -
  have "[0..<m + n] = [0..<m] @ map (\<lambda>k. m + k) [0..<n]"
    by (rule nth_equalityI) (auto simp: nth_append)
  then show ?thesis by (simp add: load_bytes_def comp_def algebra_simps)
qed

lemma load_bytes_cong: "(\<And>k. k < n \<Longrightarrow> f (a + of_nat k) = g (a + of_nat k)) \<Longrightarrow> load_bytes a n f = load_bytes a n g"
  by (simp add: load_bytes_def)

lemma within_part:
  assumes "within (a + of_nat m) n x" and "m + n \<le> N" and "N < 2 ^ 64"
  shows "within a N x"
proof -
  define d where "d = x - (a + of_nat m)"
  have d: "unat d < n" using assms(1) by (simp add: within_def d_def)
  have "x - a = of_nat m + d" by (simp add: d_def)
  moreover have "unat (of_nat m + d) = m + unat d"
    using d assms(2,3) by (subst unat_add_u64) (simp_all add: unat_of_nat_u64)
  ultimately show ?thesis using d assms(2) by (simp add: within_def)
qed

lemma within_before:
  assumes "j < m" and "m + n < 2 ^ 64"
  shows "\<not> within (a + of_nat m) n (a + of_nat j)"
proof
  define d :: u64 where "d = a + of_nat j - (a + of_nat m)"
  assume "within (a + of_nat m) n (a + of_nat j)"
  then have d: "unat d < n" by (simp add: within_def d_def)
  have "of_nat j = of_nat m + d" by (simp add: d_def)
  moreover have "unat (of_nat m + d) = m + unat d"
    using d assms(2) by (subst unat_add_u64) (simp_all add: unat_of_nat_u64)
  ultimately have "unat (of_nat j :: u64) = m + unat d" by simp
  then show False using assms by (simp add: unat_of_nat_u64)
qed

text \<open>A buffer of \<open>n\<close> sectors the controller can address (32 bits) that is none of the device's own memory.\<close>

definition usable :: "(u64 \<Rightarrow> bool) \<Rightarrow> u64 \<Rightarrow> nat \<Rightarrow> bool" where
  "usable own buf n \<longleftrightarrow> unat (buf - HIGH_VMA) + 512 * n \<le> 2 ^ 32 \<and> (\<forall>x. within buf (512 * n) x \<longrightarrow> \<not> own x)"

lemma usable_part:
  assumes "usable own buf n" and "k < n"
  shows "usable own (buf + of_nat (512 * k)) 1" "buf + of_nat (512 * k) - HIGH_VMA < 2 ^ 32"
proof -
  define d where "d = buf - HIGH_VMA"
  have d: "unat d + 512 * n \<le> 2 ^ 32" using assms(1) by (simp add: usable_def d_def)
  have e: "buf + of_nat (512 * k) - HIGH_VMA = d + of_nat (512 * k)" by (simp add: d_def)
  have u: "unat (d + of_nat (512 * k)) = unat d + 512 * k"
    using d assms(2) by (subst unat_add_u64) (simp_all add: unat_of_nat_u64 del: of_nat_mult)
  then show "buf + of_nat (512 * k) - HIGH_VMA < 2 ^ 32" unfolding e using d assms(2) by (simp add: word_less_nat_alt)
  have "within buf (512 * n) x" if "within (buf + of_nat (512 * k)) 512 x" for x
    by (rule within_part[OF that]) (use d assms(2) in simp_all)
  then show "usable own (buf + of_nat (512 * k)) 1"
    using assms u d unfolding usable_def e by auto
qed

locale sector_device =
  fixes rd wr :: "u64 \<Rightarrow> u64 \<Rightarrow> 's \<Rightarrow> 's result"
    and ok :: "'s \<Rightarrow> bool"
    and mem :: "'s \<Rightarrow> u64 \<Rightarrow> u8"
    and sector :: "'s \<Rightarrow> nat \<Rightarrow> u8 list"
    and own :: "u64 \<Rightarrow> bool"
    and rest :: "'s \<Rightarrow> 'r"
  assumes read_law: "ok s \<Longrightarrow> usable own buf 1 \<Longrightarrow> buf - HIGH_VMA < 2 ^ 32 \<Longrightarrow>
      holds (rd lba buf s) (\<lambda>s'. ok s' \<and> rest s' = rest s \<and> sector s' = sector s \<and>
        load_bytes buf 512 (mem s') = sector s (unat lba mod 2 ^ 32) \<and>
        (\<forall>x. \<not> within buf 512 x \<longrightarrow> \<not> own x \<longrightarrow> mem s' x = mem s x))"
    and write_law: "ok s \<Longrightarrow> usable own buf 1 \<Longrightarrow> buf - HIGH_VMA < 2 ^ 32 \<Longrightarrow>
      holds (wr lba buf s) (\<lambda>s'. ok s' \<and> rest s' = rest s \<and>
        sector s' = (sector s)(unat lba mod 2 ^ 32 := load_bytes buf 512 (mem s)) \<and>
        (\<forall>x. \<not> own x \<longrightarrow> mem s' x = mem s x))"
begin

lemma read_many:
  assumes "ok s" and "usable own buf n" and "unat b + n \<le> 2 ^ 32"
    and place: "\<And>s'. rest s' = rest s \<Longrightarrow> (\<And>x. \<not> within buf (512 * n) x \<Longrightarrow> \<not> own x \<Longrightarrow> mem s' x = mem s x) \<Longrightarrow> at s' = b"
  shows "holds (each_u64 (\<lambda>i s. rd (at s + i) (buf + i * 0x200) s) 0 (of_nat n) s) (\<lambda>s'. ok s' \<and> rest s' = rest s \<and>
    sector s' = sector s \<and> load_bytes buf (512 * n) (mem s') = sectors (sector s) (unat b) n \<and>
    (\<forall>x. \<not> within buf (512 * n) x \<longrightarrow> \<not> own x \<longrightarrow> mem s' x = mem s x))"
proof -
  let ?I = "\<lambda>i s'. ok s' \<and> rest s' = rest s \<and> sector s' = sector s \<and>
    load_bytes buf (512 * unat i) (mem s') = sectors (sector s) (unat b) (unat i) \<and>
    (\<forall>x. \<not> within buf (512 * n) x \<longrightarrow> \<not> own x \<longrightarrow> mem s' x = mem s x)"
  have n: "n < 2 ^ 33" "512 * n < 2 ^ 64" using assms(2) by (simp_all add: usable_def)
  have un: "unat (of_nat n :: u64) = n" using n by (simp add: unat_of_nat_u64)
  have step: "holds (rd (at s' + i) (buf + i * 0x200) s') (?I (i + 1))" if "i < of_nat n" and I: "?I i s'" for i s'
  proof -
    define k where "k = unat i"
    have k: "k < n" using that(1) by (simp add: word_less_nat_alt un k_def)
    have i: "i = of_nat k" "unat (i + 1) = Suc k" using k n by (simp_all add: k_def unat_plus_1[OF that(1)])
    have lba: "at s' = b" by (rule place) (use I in auto)
    have "unat (b + i) mod 2 ^ 32 = unat b + k"
      using assms(3) k by (subst unat_add_u64) (simp_all add: k_def)
    then have "holds (rd (at s' + i) (buf + of_nat (512 * k)) s') (\<lambda>t. ok t \<and> rest t = rest s' \<and> sector t = sector s' \<and>
        load_bytes (buf + of_nat (512 * k)) 512 (mem t) = sector s' (unat b + k) \<and>
        (\<forall>x. \<not> within (buf + of_nat (512 * k)) 512 x \<longrightarrow> \<not> own x \<longrightarrow> mem t x = mem s' x))"
      using read_law[of s' "buf + of_nat (512 * k)" "b + i"] usable_part[OF assms(2) k] I lba by simp
    then have "holds (rd (at s' + i) (buf + of_nat (512 * k)) s') (?I (i + 1))"
    proof (rule holds_mono)
      fix t assume t: "ok t \<and> rest t = rest s' \<and> sector t = sector s' \<and>
        load_bytes (buf + of_nat (512 * k)) 512 (mem t) = sector s' (unat b + k) \<and>
        (\<forall>x. \<not> within (buf + of_nat (512 * k)) 512 x \<longrightarrow> \<not> own x \<longrightarrow> mem t x = mem s' x)"
      have inbuf: "within buf (512 * n) (buf + of_nat j)" if "j < 512 * n" for j
        using that n by (simp add: within_def unat_of_nat_u64)
      have "load_bytes buf (512 * k) (mem t) = load_bytes buf (512 * k) (mem s')"
      proof (rule load_bytes_cong)
        fix j assume j: "j < 512 * k"
        have "\<not> within (buf + of_nat (512 * k)) 512 (buf + of_nat j)"
          by (rule within_before[OF j]) (use k n in simp)
        moreover have "\<not> own (buf + of_nat j)"
          using assms(2) inbuf[of j] j k by (simp add: usable_def)
        ultimately show "mem t (buf + of_nat j) = mem s' (buf + of_nat j)" using t by blast
      qed
      then have "load_bytes buf (512 * Suc k) (mem t) = sectors (sector s) (unat b) (Suc k)"
        using load_bytes_append[of buf "512 * k" 512 "mem t"] t I by (simp add: sectors_def k_def add.commute)
      moreover have "mem t x = mem s x" if "\<not> within buf (512 * n) x" "\<not> own x" for x
      proof -
        have "\<not> within (buf + of_nat (512 * k)) 512 x"
        proof
          assume "within (buf + of_nat (512 * k)) 512 x"
          then have "within buf (512 * n) x" by (rule within_part) (use k n in simp_all)
          with that(1) show False ..
        qed
        then show ?thesis using t I that by simp
      qed
      ultimately show "?I (i + 1) t" using t I i by simp
    qed
    then show ?thesis by (simp add: i(1) mult.commute)
  qed
  show ?thesis
    by (rule each_u64_holds[where I = ?I]) (use assms(1) step un in \<open>auto simp: load_bytes_def sectors_def\<close>)
qed

lemma write_many:
  assumes "ok s" and "usable own buf n" and "unat b + n \<le> 2 ^ 32"
    and place: "\<And>s'. rest s' = rest s \<Longrightarrow> (\<And>x. \<not> own x \<Longrightarrow> mem s' x = mem s x) \<Longrightarrow> at s' = b"
  shows "holds (each_u64 (\<lambda>i s. wr (at s + i) (buf + i * 0x200) s) 0 (of_nat n) s) (\<lambda>s'. ok s' \<and> rest s' = rest s \<and>
    (\<forall>l. sector s' l = (if unat b \<le> l \<and> l < unat b + n then load_bytes (buf + of_nat (512 * (l - unat b))) 512 (mem s)
      else sector s l)) \<and>
    (\<forall>x. \<not> own x \<longrightarrow> mem s' x = mem s x))"
proof -
  let ?D = "\<lambda>k l. if unat b \<le> l \<and> l < unat b + k then load_bytes (buf + of_nat (512 * (l - unat b))) 512 (mem s)
    else sector s l"
  let ?I = "\<lambda>i s'. ok s' \<and> rest s' = rest s \<and> (\<forall>l. sector s' l = ?D (unat i) l) \<and> (\<forall>x. \<not> own x \<longrightarrow> mem s' x = mem s x)"
  have n: "n < 2 ^ 33" "512 * n < 2 ^ 64" using assms(2) by (simp_all add: usable_def)
  have un: "unat (of_nat n :: u64) = n" using n by (simp add: unat_of_nat_u64)
  have step: "holds (wr (at s' + i) (buf + i * 0x200) s') (?I (i + 1))" if "i < of_nat n" and I: "?I i s'" for i s'
  proof -
    define k where "k = unat i"
    have k: "k < n" using that(1) by (simp add: word_less_nat_alt un k_def)
    have i: "i = of_nat k" "unat (i + 1) = Suc k" using k n by (simp_all add: k_def unat_plus_1[OF that(1)])
    have lba: "at s' = b" by (rule place) (use I in auto)
    have "unat (b + i) mod 2 ^ 32 = unat b + k"
      using assms(3) k by (subst unat_add_u64) (simp_all add: k_def)
    moreover have "load_bytes (buf + of_nat (512 * k)) 512 (mem s') = load_bytes (buf + of_nat (512 * k)) 512 (mem s)"
    proof (rule load_bytes_cong)
      fix j :: nat assume "j < 512"
      then have "within (buf + of_nat (512 * k)) (512 * 1) (buf + of_nat (512 * k) + of_nat j)"
        by (simp add: within_def unat_of_nat_u64)
      then have "\<not> own (buf + of_nat (512 * k) + of_nat j)"
        using usable_part(1)[OF assms(2) k] unfolding usable_def by blast
      then show "mem s' (buf + of_nat (512 * k) + of_nat j) = mem s (buf + of_nat (512 * k) + of_nat j)" using I by blast
    qed
    ultimately have "holds (wr (at s' + i) (buf + of_nat (512 * k)) s') (\<lambda>t. ok t \<and> rest t = rest s' \<and>
        sector t = (sector s')(unat b + k := load_bytes (buf + of_nat (512 * k)) 512 (mem s)) \<and>
        (\<forall>x. \<not> own x \<longrightarrow> mem t x = mem s' x))"
      using write_law[of s' "buf + of_nat (512 * k)" "b + i"] usable_part[OF assms(2) k] I lba by simp
    then have "holds (wr (at s' + i) (buf + of_nat (512 * k)) s') (?I (i + 1))"
    proof (rule holds_mono)
      fix t assume t: "ok t \<and> rest t = rest s' \<and>
        sector t = (sector s')(unat b + k := load_bytes (buf + of_nat (512 * k)) 512 (mem s)) \<and>
        (\<forall>x. \<not> own x \<longrightarrow> mem t x = mem s' x)"
      have "sector t l = ?D (Suc k) l" for l
      proof (cases "l = unat b + k")
        case False
        then have "sector t l = ?D k l" using t I k_def by simp
        also have "\<dots> = ?D (Suc k) l" by (rule if_cong) (use False in auto)
        finally show ?thesis .
      qed (use t in simp)
      then show "?I (i + 1) t" using t I i(2) by simp
    qed
    then show ?thesis by (simp add: i(1) mult.commute)
  qed
  show ?thesis
    by (rule each_u64_holds[where I = ?I]) (use assms(1) step un in auto)
qed

end

section \<open>The SATA driver is such a device\<close>

definition disk_ok :: "nat \<Rightarrow> u64 \<Rightarrow> u32 \<Rightarrow> u8 list \<Rightarrow> 'a bfs_state_scheme \<Rightarrow> bool" where
  "disk_ok fuel port clb identity s \<longleftrightarrow>
     ahci_port fuel port clb (io_device s) \<and> free_slot port (io_device s) (io_log s) \<and> \<not> ahciLock s \<and>
     hba_execute s port = ahci_device identity (ucast clb) \<and> (\<forall>l. length (disk s l) = 512) \<and> 144 \<le> clb \<and>
     drive s \<noteq> [] \<and> hbaPort (hd (drive s)) = port"

lemma first_drive: "disk_ok fuel port clb identity s \<Longrightarrow> disk_rw fuel lba buf w s = sataRW fuel port lba 1 buf w s"
  by (cases "drive s") (simp_all add: disk_rw_def disk_ok_def fetch_def)

lemma load_bytes_length: "length (load_bytes a n m) = n"
  by (simp add: load_bytes_def)

interpretation sata: sector_device
    "\<lambda>lba buf. disk_rw fuel lba buf False" "\<lambda>lba buf. disk_rw fuel lba buf True"
    "disk_ok fuel port clb identity" dma disk "scratch clb" superBlock
  for fuel port clb identity
proof (unfold_locales, goal_cases)
  case (1 s buf lba)
  then have a: "ahci_port fuel port clb (io_device s)" "free_slot port (io_device s) (io_log s)" "\<not> ahciLock s"
    "hba_execute s port = ahci_device identity (ucast clb)" "\<And>l. length (disk s l) = 512" "144 \<le> clb"
    by (simp_all add: disk_ok_def)
  show ?case
  proof (rule sataRW_read[OF a _ _ 1(3), of 1 lba])
    fix l M assume "free_slot port (io_device s) l"
      and "sataRW fuel port lba 1 buf False s = Inr (s\<lparr>dma := M, disk := disk s, io_log := l, ahciLock := False\<rparr>)"
      and "load_bytes buf (512 * unat (1 :: u32)) M = sectors (disk s) (unat lba mod 2 ^ 32) (unat (1 :: u32))"
      and "\<And>x. \<not> within buf (512 * unat (1 :: u32)) x \<Longrightarrow> \<not> scratch clb x \<Longrightarrow> M x = dma s x"
    then show ?thesis using 1(1) first_drive[OF 1(1)] by (simp add: disk_ok_def sectors_def)
  qed simp_all
next
  case (2 s buf lba)
  then have a: "ahci_port fuel port clb (io_device s)" "free_slot port (io_device s) (io_log s)" "\<not> ahciLock s"
    "hba_execute s port = ahci_device identity (ucast clb)" "144 \<le> clb"
    by (simp_all add: disk_ok_def)
  have own: "\<not> scratch clb x" if "within buf (512 * unat (1 :: u32)) x" for x
    using that 2(2) by (simp add: usable_def)
  show ?case
  proof (rule sataRW_write[OF a _ _ 2(3) own, of 1 lba])
    fix l M D assume "free_slot port (io_device s) l"
      and "sataRW fuel port lba 1 buf True s = Inr (s\<lparr>dma := M, disk := D, io_log := l, ahciLock := False\<rparr>)"
      and D: "D = (\<lambda>l. if unat lba mod 2 ^ 32 \<le> l \<and> l < unat lba mod 2 ^ 32 + unat (1 :: u32)
       then load_bytes (buf + of_nat (512 * (l - unat lba mod 2 ^ 32))) 512 (dma s) else disk s l)"
      and "\<And>x. \<not> scratch clb x \<Longrightarrow> M x = dma s x"
    moreover have "D = (disk s)(unat lba mod 2 ^ 32 := load_bytes buf 512 (dma s))"
      unfolding D by (rule ext) auto
    ultimately show ?thesis using 2(1) first_drive[OF 2(1)] by (simp add: disk_ok_def load_bytes_length)
  qed simp_all
qed

section \<open>Files\<close>

text \<open>The names of the inodes in use, as a list.\<close>

definition names_are :: "string list \<Rightarrow> 'a bfs_state_scheme \<Rightarrow> bool" where
  "names_are names s \<longleftrightarrow>
     unat (sb_get sb_inodeCount s - sb_get sb_unallocatedInode s) = length names \<and>
     (\<forall>i < length names. no_nul (names ! i) \<and> (\<exists>u. inode_fileName (of_nat i) s = cstr (names ! i) @ u))"

primrec index_of :: "'x \<Rightarrow> 'x list \<Rightarrow> nat option" where
  "index_of x [] = None"
| "index_of x (y # ys) = (if x = y then Some 0 else map_option Suc (index_of x ys))"

lemma index_of_None: "index_of x xs = None \<longleftrightarrow> x \<notin> set xs"
  by (induction xs) auto

lemma index_of_Some: "index_of x xs = Some k \<longleftrightarrow> k < length xs \<and> xs ! k = x \<and> (\<forall>j < k. xs ! j \<noteq> x)"
proof (induction xs arbitrary: k)
  case (Cons y ys)
  then show ?case by (cases k) (auto simp: All_less_Suc2)
qed simp

lemma lookup:
  assumes "names_are names s" and "no_nul fileName"
  shows "inodeLookUp (cstr fileName @ v) s = Inr (case index_of fileName names of Some k \<Rightarrow> of_nat k | None \<Rightarrow> - 1)"
proof -
  let ?n = "ucast (sb_get sb_inodeCount s - sb_get sb_unallocatedInode s) :: u64"
  let ?body = "\<lambda>i (_ :: unit). and_then (strcmp (inode_fileName i s) (cstr fileName @ v)) (\<lambda>d.
            Inr (if d = 0 then Exit i else Next ()))"
  have n: "unat ?n = length names" using assms(1) by (simp add: names_are_def unat_ucast_up)
  have lt: "unat i < length names" if "i < ?n" for i using that unfolding word_less_nat_alt n .
  have cmp: "\<exists>d. strcmp (inode_fileName i s) (cstr fileName @ v) = Inr d \<and> (d = 0 \<longleftrightarrow> names ! unat i = fileName)"
    if "i < ?n" for i
  proof -
    have i: "of_nat (unat i) = i" and l: "unat i < length names" using lt[OF that] by simp_all
    obtain u where "no_nul (names ! unat i)" "inode_fileName i s = cstr (names ! unat i) @ u"
      using assms(1) l unfolding names_are_def by (metis i)
    then show ?thesis using strcmp_cstr[OF _ assms(2)] by simp
  qed
  have "holds (for_u64 ?body 0 ?n ()) (\<lambda>f. case f of
      Exit i \<Rightarrow> index_of fileName names = Some (unat i)
    | Next _ \<Rightarrow> index_of fileName names = None)"
  proof (rule for_u64_holds[where I = "\<lambda>i _. \<forall>j < unat i. names ! j \<noteq> fileName"])
    fix i and w :: unit assume i: "i < ?n" and I: "\<forall>j < unat i. names ! j \<noteq> fileName"
    obtain d where "strcmp (inode_fileName i s) (cstr fileName @ v) = Inr d" "d = 0 \<longleftrightarrow> names ! unat i = fileName"
      using cmp[OF i] by blast
    then show "holds (?body i w) (\<lambda>f. case f of
        Next s' \<Rightarrow> \<forall>j < unat (i + 1). names ! j \<noteq> fileName
      | Exit r \<Rightarrow> (case Exit r of Exit i \<Rightarrow> index_of fileName names = Some (unat i) | Next _ \<Rightarrow> index_of fileName names = None))"
      using I lt[OF i] by (auto simp: unat_plus_1[OF i] less_Suc_eq index_of_Some)
  qed (use assms(1) in \<open>auto simp: names_are_def index_of_None in_set_conv_nth\<close>)
  then obtain f where f: "for_u64 ?body 0 ?n () = Inr f"
    and "case f of Exit i \<Rightarrow> index_of fileName names = Some (unat i) | Next _ \<Rightarrow> index_of fileName names = None"
    by (rule holdsE)
  then show ?thesis unfolding inodeLookUp_def f by (cases f) simp_all
qed

text \<open>The memory of the superblock's members and of the inodes in use.\<close>

definition table_size :: "string list \<Rightarrow> nat" where
  "table_size names = 512 + 29 * length names"

definition file_base :: "nat \<Rightarrow> 'a bfs_state_scheme \<Rightarrow> u32" where
  "file_base k s = FILES_SECTOR + get32 (inode_at (of_nat k) s + inode_blockNumber) (dma s)"

lemma sb_get_same:
  assumes "\<And>x. within (superBlock s) (table_size names) x \<Longrightarrow> dma s' x = dma s x" "superBlock s' = superBlock s"
    and "off \<le> 508"
  shows "sb_get off s' = sb_get off s"
proof -
  have "dma s' (superBlock s + off + j) = dma s (superBlock s + off + j)" if "j < 4" for j
  proof (rule assms(1))
    have "unat (off + j) = unat off + unat j" "unat off \<le> 508" "unat j < 4"
      using assms(3) that by (simp_all add: word_le_nat_alt word_less_nat_alt unat_add_u64)
    then show "within (superBlock s) (table_size names) (superBlock s + off + j)"
      by (simp add: within_def table_size_def add.assoc)
  qed
  from this[of 0] this[of 1] this[of 2] this[of 3] show ?thesis
    unfolding sb_get_def assms(2) by (intro get32_cong) simp_all
qed

lemma inode_same:
  assumes "\<And>x. within (superBlock s) (table_size names) x \<Longrightarrow> dma s' x = dma s x" "superBlock s' = superBlock s"
    and "k < length names" and "length names < 2 ^ 32" and "j < 29"
  shows "inode_at (of_nat k) s' = inode_at (of_nat k) s"
    "dma s' (inode_at (of_nat k) s + of_nat j) = dma s (inode_at (of_nat k) s + of_nat j)"
proof -
  show "inode_at (of_nat k) s' = inode_at (of_nat k) s" by (simp add: inode_at_def assms(2))
  have "inode_at (of_nat k) s + of_nat j - superBlock s = of_nat (512 + 29 * k + j)"
    by (simp add: inode_at_def sb_offsets)
  moreover have "512 + 29 * k + j < table_size names" "table_size names < 2 ^ 64"
    using assms(3-5) by (simp_all add: table_size_def)
  ultimately have "within (superBlock s) (table_size names) (inode_at (of_nat k) s + of_nat j)"
    unfolding within_def by (simp add: unat_of_nat_u64 del: of_nat_add of_nat_mult)
  then show "dma s' (inode_at (of_nat k) s + of_nat j) = dma s (inode_at (of_nat k) s + of_nat j)" by (rule assms(1))
qed

lemma names_length: "names_are names s \<Longrightarrow> length names < 2 ^ 32"
  using unsigned_less[of "sb_get sb_inodeCount s - sb_get sb_unallocatedInode s", where 'a = nat]
  by (simp add: names_are_def)

lemma table_same:
  assumes "\<And>x. within (superBlock s) (table_size names) x \<Longrightarrow> dma s' x = dma s x" "superBlock s' = superBlock s"
    and "names_are names s"
  shows "names_are names s'" and "k < length names \<Longrightarrow> file_base k s' = file_base k s"
proof -
  note len = names_length[OF assms(3)]
  have "inode_fileName (of_nat i) s' = inode_fileName (of_nat i) s" if "i < length names" for i
  proof -
    have "load_bytes (inode_at (of_nat i) s') 20 (dma s') = load_bytes (inode_at (of_nat i) s) 20 (dma s)"
      unfolding inode_same(1)[OF assms(1,2) that len, of 0, simplified]
      by (rule load_bytes_cong) (rule inode_same(2)[OF assms(1,2) that len], simp_all)
    then show ?thesis by (simp add: inode_fileName_def)
  qed
  moreover have "sb_get sb_inodeCount s' = sb_get sb_inodeCount s" "sb_get sb_unallocatedInode s' = sb_get sb_unallocatedInode s"
    by (rule sb_get_same[OF assms(1,2)]; simp add: sb_offsets)+
  ultimately show "names_are names s'" using assms(3) by (simp add: names_are_def)
  show "file_base k s' = file_base k s" if "k < length names"
    using inode_same[OF assms(1,2) that len, of 20] inode_same[OF assms(1,2) that len, of 21]
      inode_same[OF assms(1,2) that len, of 22] inode_same[OF assms(1,2) that len, of 23]
    unfolding file_base_def by (intro arg_cong[of _ _ "\<lambda>x. FILES_SECTOR + x"]) (simp add: get32_def inode_blockNumber_def add.assoc)
qed

lemma transfer_found:
  assumes "names_are names s" and "no_nul fileName" and "index_of fileName names = Some k"
  shows "transfer_file fuel (cstr fileName) buf 0 n w s =
    each_u64 (\<lambda>i s. disk_rw fuel (ucast (file_base k s) + i) (buf + i * 0x200) w s) 0 n s"
proof -
  have "k < length names" using assms(3) by (simp add: index_of_Some)
  then have "(of_nat k :: u64) \<noteq> - 1" using names_length[OF assms(1)] by (intro not_max) simp
  then show ?thesis
    using lookup[OF assms(1,2), of "[]"] assms(3)
    by (simp add: transfer_file_def file_sector_def file_base_def)
qed

lemma transfer_missing:
  assumes "names_are names s" and "no_nul fileName" and "index_of fileName names = None"
  shows "transfer_file fuel (cstr fileName) buf start n w s =
    kprintDS (cstr ''[FS]'') (cstr ''Fatal error: Cannot open file %s'') [VaStr (cstr fileName)] s"
  using lookup[OF assms(1,2), of "[]"] assms(3) by (simp add: transfer_file_def)

lemma fopen_transfer:
  assumes "disk_ok fuel port clb identity s" and "usable (scratch clb) buf n"
    and "names_are names s" and "no_nul fileName" and "index_of fileName names = Some k"
    and "\<And>x. within (superBlock s) (table_size names) x \<Longrightarrow> \<not> scratch clb x \<and> \<not> within buf (512 * n) x"
    and "unat (file_base k s) + n \<le> 2 ^ 32"
  shows "holds (fopen fuel (cstr fileName) buf (of_nat n) s) (\<lambda>s'. disk_ok fuel port clb identity s' \<and>
    superBlock s' = superBlock s \<and> disk s' = disk s \<and>
    load_bytes buf (512 * n) (dma s') = sectors (disk s) (unat (file_base k s)) n \<and>
    (\<forall>x. \<not> within buf (512 * n) x \<longrightarrow> \<not> scratch clb x \<longrightarrow> dma s' x = dma s x))"
proof -
  have k: "k < length names" using assms(5) by (simp add: index_of_Some)
  have u: "unat (ucast (file_base k s) :: u64) = unat (file_base k s)" by (simp add: unat_ucast_up)
  have at: "ucast (file_base k s') = (ucast (file_base k s) :: u64)"
    if "superBlock s' = superBlock s" "\<And>x. \<not> within buf (512 * n) x \<Longrightarrow> \<not> scratch clb x \<Longrightarrow> dma s' x = dma s x" for s'
    using table_same(2)[OF _ that(1) assms(3) k] that(2) assms(6) by simp
  show ?thesis
    unfolding fopen_def transfer_found[OF assms(3-5)]
    by (rule sata.read_many[OF assms(1,2), of "ucast (file_base k s)" "\<lambda>s. ucast (file_base k s)", unfolded u])
      (use at assms(7) in auto)
qed

lemma writeBack_transfer:
  assumes "disk_ok fuel port clb identity s" and "usable (scratch clb) buf n"
    and "names_are names s" and "no_nul fileName" and "index_of fileName names = Some k"
    and "\<And>x. within (superBlock s) (table_size names) x \<Longrightarrow> \<not> scratch clb x"
    and "unat (file_base k s) + n \<le> 2 ^ 32"
  shows "holds (writeBack fuel (cstr fileName) buf (of_nat n) s) (\<lambda>s'. disk_ok fuel port clb identity s' \<and>
    superBlock s' = superBlock s \<and>
    (\<forall>l. disk s' l = (if unat (file_base k s) \<le> l \<and> l < unat (file_base k s) + n
      then load_bytes (buf + of_nat (512 * (l - unat (file_base k s)))) 512 (dma s) else disk s l)) \<and>
    (\<forall>x. \<not> scratch clb x \<longrightarrow> dma s' x = dma s x))"
proof -
  have k: "k < length names" using assms(5) by (simp add: index_of_Some)
  have u: "unat (ucast (file_base k s) :: u64) = unat (file_base k s)" by (simp add: unat_ucast_up)
  have at: "ucast (file_base k s') = (ucast (file_base k s) :: u64)"
    if "superBlock s' = superBlock s" "\<And>x. \<not> scratch clb x \<Longrightarrow> dma s' x = dma s x" for s'
    using table_same(2)[OF _ that(1) assms(3) k] that(2) assms(6) by simp
  show ?thesis
    unfolding writeBack_def transfer_found[OF assms(3-5)]
    by (rule sata.write_many[OF assms(1,2), of "ucast (file_base k s)" "\<lambda>s. ucast (file_base k s)", unfolded u])
      (use at assms(7) in auto)
qed

lemma sectors_of_buffer:
  assumes "\<And>j. j < n \<Longrightarrow> d (b + j) = load_bytes (buf + of_nat (512 * j)) 512 m"
  shows "sectors d b n = load_bytes buf (512 * n) m"
  using assms
proof (induction n)
  case (Suc n)
  then show ?case
    using load_bytes_append[of buf "512 * n" 512 m] Suc.prems[of n] by (simp add: sectors_def add.commute)
qed (simp add: sectors_def load_bytes_def)

text \<open>
  The lookup is the position of the first inode in use with that name, \<open>-1\<close> if there is none.
\<close>

theorem inodeLookUp_finds:
  assumes "names_are names s" and "no_nul fileName"
  shows "inodeLookUp (cstr fileName) s =
    Inr (case index_of fileName names of Some k \<Rightarrow> of_nat k | None \<Rightarrow> - 1)"
  using lookup[OF assms, of "[]"] by simp

text \<open>What a call for a file that is not there prints.\<close>

lemma fopen_missing:
  fixes s :: "'a bfs_state_scheme"
  assumes "names_are names s" and "no_nul fileName" and "index_of fileName names = None" and "console_ready s"
    and "length fileName < 2 ^ 63"
  shows "holds (fopen fuel (cstr fileName) buf n s)
    (printed (header ''[FS]'' @ (''Fatal error: Cannot open file '' @ fileName) @ [CHR 0x0A]) s)"
proof -
  have "render ''Fatal error: Cannot open file %s'' [VaStr (cstr fileName)] = Some (''Fatal error: Cannot open file '' @ fileName)"
    using cchars_cstr [OF assms(2)] assms(5) by (simp add: cstr_def)
  then show ?thesis
    unfolding fopen_def transfer_missing [OF assms(1-3)]
    by (intro kprintDS_render assms(4)) (simp_all add: message_def)
qed

text \<open>
  C33: opening a file leaves the disk alone. Of a file that is there it brings the first \<open>n\<close> sectors into the buffer, in
  order, and changes no other memory than the buffer and the driver's scratch memory (the first header of the command list
  and the command table at physical 0); for a name that is not there it prints that the file cannot be opened, changes no
  memory, and returns all the same.
\<close>

theorem fopen_reads:
  fixes s :: "'a bfs_state_scheme"
  assumes "disk_ok fuel port clb identity s" and "usable (scratch clb) buf n"
    and "names_are names s" and "no_nul fileName" and "length fileName < 2 ^ 63" and "console_ready s"
    and "\<And>x. within (superBlock s) (table_size names) x \<Longrightarrow> \<not> scratch clb x \<and> \<not> within buf (512 * n) x"
    and "\<And>k. index_of fileName names = Some k \<Longrightarrow> unat (file_base k s) + n \<le> 2 ^ 32"
  shows "\<exists>s'. fopen fuel (cstr fileName) buf (of_nat n) s = Inr s' \<and> disk s' = disk s \<and>
    (case index_of fileName names of
       Some k \<Rightarrow> load_bytes buf (512 * n) (dma s') = sectors (disk s) (unat (file_base k s)) n \<and>
         (\<forall>x. \<not> within buf (512 * n) x \<longrightarrow> \<not> scratch clb x \<longrightarrow> dma s' x = dma s x)
     | None \<Rightarrow> dma s' = dma s \<and>
         serial s' = serial s @ header ''[FS]'' @ ''Fatal error: Cannot open file '' @ fileName @ [CHR 0x0A])"
proof (cases "index_of fileName names")
  case None
  obtain s' where "fopen fuel (cstr fileName) buf (of_nat n) s = Inr s'"
    "printed (header ''[FS]'' @ (''Fatal error: Cannot open file '' @ fileName) @ [CHR 0x0A]) s s'"
    by (rule holdsE [OF fopen_missing [OF assms(3,4) None assms(6,5)]])
  then show ?thesis unfolding None by (auto simp: printed_def)
next
  case (Some k)
  have "holds (fopen fuel (cstr fileName) buf (of_nat n) s) (\<lambda>s'. disk_ok fuel port clb identity s' \<and>
    superBlock s' = superBlock s \<and> disk s' = disk s \<and>
    load_bytes buf (512 * n) (dma s') = sectors (disk s) (unat (file_base k s)) n \<and>
    (\<forall>x. \<not> within buf (512 * n) x \<longrightarrow> \<not> scratch clb x \<longrightarrow> dma s' x = dma s x))"
    by (rule fopen_transfer [OF assms(1-4) Some _ assms(8) [OF Some]]) (rule assms(7))
  then show ?thesis unfolding Some by (rule holdsE) auto
qed

text \<open>
  C16: what \<open>writeBack\<close> writes to a file, \<open>fopen\<close> reads back, into any other buffer; no other sector of the disk changes.
\<close>

theorem writeBack_fopen:
  assumes "disk_ok fuel port clb identity s" and "usable (scratch clb) buf n" and "usable (scratch clb) buf' n"
    and "names_are names s" and "no_nul fileName" and "index_of fileName names = Some k"
    and "\<And>x. within (superBlock s) (table_size names) x \<Longrightarrow> \<not> scratch clb x \<and> \<not> within buf' (512 * n) x"
    and "unat (file_base k s) + n \<le> 2 ^ 32"
  shows "\<exists>s' s''. writeBack fuel (cstr fileName) buf (of_nat n) s = Inr s' \<and>
    fopen fuel (cstr fileName) buf' (of_nat n) s' = Inr s'' \<and>
    load_bytes buf' (512 * n) (dma s'') = load_bytes buf (512 * n) (dma s) \<and>
    (\<forall>l. \<not> (unat (file_base k s) \<le> l \<and> l < unat (file_base k s) + n) \<longrightarrow> disk s'' l = disk s l)"
proof -
  have k: "k < length names" using assms(6) by (simp add: index_of_Some)
  obtain s' where w: "writeBack fuel (cstr fileName) buf (of_nat n) s = Inr s'" "disk_ok fuel port clb identity s'"
    "superBlock s' = superBlock s"
    "\<And>l. disk s' l = (if unat (file_base k s) \<le> l \<and> l < unat (file_base k s) + n
      then load_bytes (buf + of_nat (512 * (l - unat (file_base k s)))) 512 (dma s) else disk s l)"
    "\<And>x. \<not> scratch clb x \<Longrightarrow> dma s' x = dma s x"
    by (rule holdsE[OF writeBack_transfer[OF assms(1,2,4-6) _ assms(8)]]) (use assms(7) in blast)+
  have t: "dma s' x = dma s x" if "within (superBlock s) (table_size names) x" for x
    using that assms(7) w(5) by blast
  have same: "names_are names s'" "file_base k s' = file_base k s"
    using table_same(1)[OF t w(3) assms(4)] table_same(2)[OF t w(3) assms(4) k] by simp_all
  have "holds (fopen fuel (cstr fileName) buf' (of_nat n) s') (\<lambda>t. disk t = disk s' \<and>
    load_bytes buf' (512 * n) (dma t) = sectors (disk s') (unat (file_base k s)) n)"
    by (rule holds_mono[OF fopen_transfer[OF w(2) assms(3) same(1) assms(5,6)]])
      (use assms(7,8) same(2) w(3) in auto)
  moreover have "sectors (disk s') (unat (file_base k s)) n = load_bytes buf (512 * n) (dma s)"
    by (rule sectors_of_buffer) (simp add: w(4))
  ultimately show ?thesis
    using w(1,4) by (elim holdsE) auto
qed

section \<open>Sequences of file operations\<close>

datatype file_op = Open string u64 nat | Write string u64 nat

definition run_op :: "nat \<Rightarrow> file_op \<Rightarrow> 'a bfs_state_scheme \<Rightarrow> 'a bfs_state_scheme result" where
  "run_op fuel q s =
     (case q of
        Open name buf n \<Rightarrow> fopen fuel (cstr name) buf (of_nat n) s
      | Write name buf n \<Rightarrow> writeBack fuel (cstr name) buf (of_nat n) s)"

fun run_ops :: "nat \<Rightarrow> file_op list \<Rightarrow> 'a bfs_state_scheme \<Rightarrow> 'a bfs_state_scheme result" where
  "run_ops fuel [] s = Inr s"
| "run_ops fuel (q # qs) s = and_then (run_op fuel q s) (run_ops fuel qs)"

text \<open>What an operation asks for: a file that is there, a buffer outside the driver's memory and the directory, and
  sectors with a 32 bit number.\<close>

definition op_ok :: "u32 \<Rightarrow> string list \<Rightarrow> 'a bfs_state_scheme \<Rightarrow> file_op \<Rightarrow> bool" where
  "op_ok clb names s q =
     (case q of
        Open name buf n \<Rightarrow> no_nul name \<and> usable (scratch clb) buf n \<and>
          (\<forall>x. within (superBlock s) (table_size names) x \<longrightarrow> \<not> within buf (512 * n) x) \<and>
          (\<exists>k. index_of name names = Some k \<and> unat (file_base k s) + n \<le> 2 ^ 32)
      | Write name buf n \<Rightarrow> no_nul name \<and> usable (scratch clb) buf n \<and>
          (\<exists>k. index_of name names = Some k \<and> unat (file_base k s) + n \<le> 2 ^ 32))"

text \<open>The invariant: a working disk of 512 byte sectors, and the directory in memory as it was.\<close>

definition fs_ok :: "nat \<Rightarrow> u64 \<Rightarrow> u32 \<Rightarrow> u8 list \<Rightarrow> string list \<Rightarrow> 'a bfs_state_scheme \<Rightarrow> 'a bfs_state_scheme \<Rightarrow> bool" where
  "fs_ok fuel port clb identity names s0 s \<longleftrightarrow>
     disk_ok fuel port clb identity s \<and> names_are names s \<and> superBlock s = superBlock s0 \<and>
     (\<forall>x. within (superBlock s0) (table_size names) x \<longrightarrow> \<not> scratch clb x \<and> dma s x = dma s0 x)"

lemma fs_ok_base:
  assumes "fs_ok fuel port clb identity names s0 s" and "names_are names s0" and "index_of name names = Some k"
  shows "file_base k s = file_base k s0"
  by (rule table_same(2)[OF _ _ assms(2)]) (use assms in \<open>auto simp: fs_ok_def index_of_Some\<close>)

lemma fs_ok_step:
  assumes "fs_ok fuel port clb identity names s0 s" "disk_ok fuel port clb identity s'" "superBlock s' = superBlock s"
    and "\<And>x. within (superBlock s0) (table_size names) x \<Longrightarrow> dma s' x = dma s x"
  shows "fs_ok fuel port clb identity names s0 s'"
proof -
  have "names_are names s'"
    by (rule table_same(1)[of s names s']) (use assms in \<open>auto simp: fs_ok_def\<close>)
  then show ?thesis using assms by (auto simp: fs_ok_def)
qed

lemma run_op_ok:
  assumes "fs_ok fuel port clb identity names s0 s" and "names_are names s0" and "op_ok clb names s0 q"
  shows "holds (run_op fuel q s) (fs_ok fuel port clb identity names s0)"
proof -
  have s: "disk_ok fuel port clb identity s" "names_are names s" "superBlock s = superBlock s0"
    using assms(1) by (simp_all add: fs_ok_def)
  have own: "\<not> scratch clb x" if "within (superBlock s) (table_size names) x" for x
    using assms(1) that by (simp add: fs_ok_def)
  note base = fs_ok_base[OF assms(1,2)]
  show ?thesis
  proof (cases q)
    case (Open name buf n)
    then obtain k where k: "index_of name names = Some k" "unat (file_base k s0) + n \<le> 2 ^ 32" "no_nul name"
      "usable (scratch clb) buf n" "\<And>x. within (superBlock s) (table_size names) x \<Longrightarrow> \<not> within buf (512 * n) x"
      using assms(3) s(3) by (auto simp: op_ok_def)
    have "holds (run_op fuel q s) (\<lambda>s'. disk_ok fuel port clb identity s' \<and> superBlock s' = superBlock s \<and>
        (\<forall>x. \<not> within buf (512 * n) x \<longrightarrow> \<not> scratch clb x \<longrightarrow> dma s' x = dma s x))"
      unfolding Open run_op_def file_op.case
      by (rule holds_mono[OF fopen_transfer[OF s(1) k(4) s(2) k(3,1)]]) (use own k(2,5) base[OF k(1)] in auto)
    then show ?thesis
      by (rule holds_mono) (rule fs_ok_step[OF assms(1)], use own k(5) s(3) in auto)
  next
    case (Write name buf n)
    then obtain k where k: "index_of name names = Some k" "unat (file_base k s0) + n \<le> 2 ^ 32" "no_nul name"
      "usable (scratch clb) buf n"
      using assms(3) by (auto simp: op_ok_def)
    have "holds (run_op fuel q s) (\<lambda>s'. disk_ok fuel port clb identity s' \<and> superBlock s' = superBlock s \<and>
        (\<forall>x. \<not> scratch clb x \<longrightarrow> dma s' x = dma s x))"
      unfolding Write run_op_def file_op.case
      by (rule holds_mono[OF writeBack_transfer[OF s(1) k(4) s(2) k(3,1)]]) (use own k(2) base[OF k(1)] in auto)
    then show ?thesis
      by (rule holds_mono) (rule fs_ok_step[OF assms(1)], use own s(3) in auto)
  qed
qed

text \<open>
  C20: over any sequence of \<open>fopen\<close> and \<open>writeBack\<close> calls on files that are there, no call fails and the file system
  stays well formed: every sector of the disk has 512 bytes, the directory keeps its names and its bytes, and the
  driver's lock is free.
\<close>

theorem file_ops_well_formed:
  assumes "disk_ok fuel port clb identity s" and "names_are names s" and "\<forall>q \<in> set qs. op_ok clb names s q"
    and "\<And>x. within (superBlock s) (table_size names) x \<Longrightarrow> \<not> scratch clb x"
  shows "\<exists>s'. run_ops fuel qs s = Inr s' \<and> (\<forall>l. length (disk s' l) = 512) \<and> names_are names s' \<and>
    (\<forall>x. within (superBlock s) (table_size names) x \<longrightarrow> dma s' x = dma s x) \<and> \<not> ahciLock s'"
proof -
  have "holds (run_ops fuel qs t) (fs_ok fuel port clb identity names s)"
    if "fs_ok fuel port clb identity names s t" "\<forall>q \<in> set qs. op_ok clb names s q" for t
    using that
  proof (induction qs arbitrary: t)
    case (Cons q qs)
    then have "holds (run_op fuel q t) (fs_ok fuel port clb identity names s)" by (intro run_op_ok assms(2)) auto
    then show ?case unfolding run_ops.simps by (rule holds_bind) (use Cons in auto)
  qed simp
  moreover have "fs_ok fuel port clb identity names s s" using assms by (simp add: fs_ok_def)
  ultimately have "holds (run_ops fuel qs s) (fs_ok fuel port clb identity names s)" using assms(3) by blast
  then show ?thesis by (rule holdsE) (auto simp: fs_ok_def disk_ok_def)
qed

section \<open>A concrete disk with a file\<close>

lemma within_apart:
  assumes "within a n x" and "N \<le> unat (a - c)" and "unat (a - c) + n \<le> 2 ^ 64"
  shows "\<not> within c N x"
proof -
  have "unat (x - a) < n" using assms(1) by (simp add: within_def)
  then have "unat ((a - c) + (x - a)) = unat (a - c) + unat (x - a)"
    using assms(3) by (subst unat_add_u64) simp_all
  then show ?thesis using assms(2) by (simp add: within_def)
qed

lemma scratch_within: "scratch clb x \<longleftrightarrow> within HIGH_VMA 144 x \<or> within (ucast clb + HIGH_VMA) 32 x"
  by (simp add: scratch_def within_def word_less_nat_alt)

lemma example_apart:
  assumes "within (HIGH_VMA + a) n x" and "0x1020 \<le> a" and "n \<le> 0x10000000" and "a \<le> 0x20000"
  shows "\<not> scratch 0x1000 x"
proof -
  have a: "0x1020 \<le> unat a" "unat a \<le> 0x20000" using assms(2,4) by (simp_all add: word_le_nat_alt)
  have "unat (a - 0x1000) = unat a - 0x1000" using a by (subst unat_sub) (simp_all add: word_le_nat_alt)
  moreover have "HIGH_VMA + a - (ucast (0x1000 :: u32) + HIGH_VMA) = a - 0x1000" "HIGH_VMA + a - HIGH_VMA = a" by simp_all
  ultimately have "\<not> within HIGH_VMA 144 x" "\<not> within (ucast (0x1000 :: u32) + HIGH_VMA) 32 x"
    by (rule_tac [!] within_apart[OF assms(1)]) (use a assms(3) in simp_all)
  then show ?thesis by (simp add: scratch_within)
qed

definition example_bfs :: "unit bfs_state_scheme" where
  "example_bfs = ahci_state.extend (example_ahci\<lparr>dma :=
     (\<lambda>x. if x = HIGH_VMA + 0x10000 + 8 then 1 else if x = HIGH_VMA + 0x10000 + 512 then 97
       else if x = HIGH_VMA + 0x10000 + 532 then 3 else 0)\<rparr>)
     (bfs_state.fields 1 (HIGH_VMA + 0x10000))"

lemma example_bfs_fields:
  "io_device example_bfs = example_port_device" "\<not> ahciLock example_bfs"
  "hba_execute example_bfs = (\<lambda>_. ahci_device [] 0x1000)" "disk example_bfs = (\<lambda>l. replicate 512 (of_nat l))"
  "drive example_bfs = [\<lparr>sectorCount = 100, hbaPort = 0\<rparr>]" "superBlock example_bfs = HIGH_VMA + 0x10000"
  by (simp_all add: example_bfs_def bfs_state.defs example_ahci_defs)

lemma example_bfs_ok: "disk_ok 1 0 0x1000 [] example_bfs"
  using example_ahci_port by (simp add: disk_ok_def example_bfs_fields example_ahci_free)

lemma example_bfs_dma: "dma example_bfs (HIGH_VMA + x) =
    (if x = 0x10008 then 1 else if x = 0x10200 then 97 else if x = 0x10214 then 3 else 0)"
  by (simp add: example_bfs_def bfs_state.defs example_ahci_defs add.assoc)

lemma example_bfs_names: "names_are [''a''] example_bfs" "file_base 0 example_bfs = 0x5003"
proof -
  have "sb_get sb_inodeCount example_bfs = 1" "sb_get sb_unallocatedInode example_bfs = 0"
    by (simp_all add: sb_get_def sb_offsets example_bfs_fields get32_def example_bfs_dma add.assoc)
  moreover have "inode_fileName 0 example_bfs = cstr ''a'' @ [NUL, NUL, NUL, NUL, NUL, NUL, NUL, NUL, NUL,
      NUL, NUL, NUL, NUL, NUL, NUL, NUL, NUL, NUL]"
    by (simp add: inode_fileName_def inode_at_def load_bytes_def example_bfs_fields example_bfs_dma sb_offsets upt_rec
        cstr_def add.assoc char_of_def bit_0)
  ultimately show "names_are [''a''] example_bfs" by (auto simp: names_are_def)
  show "file_base 0 example_bfs = 0x5003"
    by (simp add: file_base_def inode_at_def sb_offsets example_bfs_fields get32_def example_bfs_dma FILES_SECTOR_def add.assoc)
qed


lemma example_bfs_apart:
  assumes "within (superBlock example_bfs) (table_size [''a'']) x"
  shows "\<not> scratch 0x1000 x" and "a \<le> 0xf000 \<Longrightarrow> \<not> within (HIGH_VMA + a) 512 x"
proof -
  have w: "within (HIGH_VMA + 0x10000) (table_size [''a'']) x" using assms by (simp add: example_bfs_fields)
  show "\<not> scratch 0x1000 x" by (rule example_apart[OF w]) (simp_all add: table_size_def)
  assume a: "a \<le> 0xf000"
  then have u: "unat a \<le> 0xf000" "a \<le> 0x10000" by (simp_all add: word_le_nat_alt)
  have "unat (0x10000 - a) = 0x10000 - unat a" using u by (subst unat_sub) (simp_all add: word_le_nat_alt)
  then show "\<not> within (HIGH_VMA + a) 512 x"
    using u by (intro within_apart[OF w]) (simp_all add: table_size_def)
qed

lemma example_usable: "usable (scratch 0x1000) (HIGH_VMA + 0x2000) 1" "usable (scratch 0x1000) (HIGH_VMA + 0x3000) 1"
  using example_apart[of "0x2000" 512] example_apart[of "0x3000" 512] by (simp_all add: usable_def)

theorem inodeLookUp_finds_witness:
  "inodeLookUp (cstr ''a'') example_bfs = Inr 0 \<and> inodeLookUp (cstr ''b'') example_bfs = Inr (- 1)"
  using inodeLookUp_finds[OF example_bfs_names(1), of "''a''"] inodeLookUp_finds[OF example_bfs_names(1), of "''b''"]
  by simp

lemma example_bfs_ready: "console_ready example_bfs"
  by (simp add: console_ready_def example_bfs_def example_ahci_defs example_smp_def int_state.defs
      example_int_def apic_state.defs acpi_state.defs example_acpi_def sched_state.defs example_sched_def
      desc_state.defs example_desc_def pci_state.defs example_pci_def screen_state.defs io_state.defs
      example_screen_def vmm_state.defs example_vmm_def example_space_def bfs_state.defs)

theorem fopen_reads_witness:
  "(\<exists>s'. fopen 1 (cstr ''a'') (HIGH_VMA + 0x2000) 1 example_bfs = Inr s' \<and>
      load_bytes (HIGH_VMA + 0x2000) 512 (dma s') = replicate 512 3) \<and>
   (\<exists>s'. fopen 1 (cstr ''b'') (HIGH_VMA + 0x2000) 1 example_bfs = Inr s' \<and>
      serial s' = serial example_bfs @ header ''[FS]'' @ ''Fatal error: Cannot open file b'' @ [CHR 0x0A])"
  using fopen_reads[OF example_bfs_ok example_usable(1) example_bfs_names(1), of "''a''"]
    fopen_reads[OF example_bfs_ok example_usable(1) example_bfs_names(1), of "''b''"]
    example_bfs_apart(1) example_bfs_apart(2)[where a = "0x2000"] example_bfs_ready
  by (auto simp: example_bfs_names example_bfs_fields sectors_def no_nul_def simp del: cstr_simps)

theorem writeBack_fopen_witness:
  "\<exists>s' s''. writeBack 1 (cstr ''a'') (HIGH_VMA + 0x2000) 1 example_bfs = Inr s' \<and>
    fopen 1 (cstr ''a'') (HIGH_VMA + 0x3000) 1 s' = Inr s'' \<and>
    load_bytes (HIGH_VMA + 0x3000) 512 (dma s'') = load_bytes (HIGH_VMA + 0x2000) 512 (dma example_bfs)"
  using writeBack_fopen[OF example_bfs_ok example_usable example_bfs_names(1), of "''a''" 0]
    example_bfs_apart(1) example_bfs_apart(2)[where a = "0x3000"]
  by (auto simp: example_bfs_names)


theorem file_ops_well_formed_witness:
  "\<exists>s'. run_ops 1 [Write ''a'' (HIGH_VMA + 0x2000) 1, Open ''a'' (HIGH_VMA + 0x3000) 1] example_bfs = Inr s' \<and>
    names_are [''a''] s' \<and> length (disk s' 7) = 512"
proof -
  have "op_ok 0x1000 [''a''] example_bfs q"
    if "q \<in> set [Write ''a'' (HIGH_VMA + 0x2000) 1, Open ''a'' (HIGH_VMA + 0x3000) 1]" for q
    using that example_usable example_bfs_apart(2)[where a = "0x3000"] by (auto simp: op_ok_def example_bfs_names)
  then show ?thesis
    using file_ops_well_formed[OF example_bfs_ok example_bfs_names(1)] example_bfs_apart(1) by blast
qed

end
