(* ===== verification/Bmp.thy ===== *)
theory Bmp
  imports Bfs
begin

text \<open>
  The wallpaper, \<^verbatim>\<open>kernel/drivers/bmp.c\<close>: the image is read from fixed sectors of the first disk and drawn pixel
  by pixel. The file's rows go from the bottom of the picture to its top, so row \<open>i\<close> is drawn at \<open>biHeight - i\<close>.
\<close>

section \<open>The image\<close>

record bmp_state = bfs_state +
  bmp_driveCnt :: u8

definition bmp_bfType :: u64 where "bmp_bfType = 0"
definition bmp_bfSize :: u64 where "bmp_bfSize = 2"
definition bmp_bfOffset :: u64 where "bmp_bfOffset = 2 + 4 + 4"
definition bmp_biWidth :: u64 where "bmp_biWidth = 2 + 4 * 3 + 4"
definition bmp_biHeight :: u64 where "bmp_biHeight = 2 + 4 * 3 + 8"
definition bmp_biBitCount :: u64 where "bmp_biBitCount = 2 + 4 * 3 + 12 + 2"
definition bmp_redMask :: u64 where "bmp_redMask = 2 + 4 * 3 + 12 + 4 + 6 * 4"
definition bmp_greenMask :: u64 where "bmp_greenMask = 2 + 4 * 3 + 12 + 4 + 7 * 4"
definition bmp_blueMask :: u64 where "bmp_blueMask = 2 + 4 * 3 + 12 + 4 + 8 * 4"

definition get16 :: "u64 \<Rightarrow> (u64 \<Rightarrow> u8) \<Rightarrow> u16" where
  "get16 a m = ucast (m a) OR push_bit 8 (ucast (m (a + 1)))"

text \<open>\<open>i + 0x7800\<close> and \<open>i * 0x200\<close> are 32 bit arithmetic.\<close>

definition bmp_load :: "nat \<Rightarrow> u64 \<Rightarrow> 'a bfs_state_scheme \<Rightarrow> 'a bfs_state_scheme result" where
  "bmp_load fuel data s =
     each_u64 (\<lambda>i s. disk_rw fuel (ucast (ucast i + 0x7800 :: u32)) (data + ucast (ucast i * 0x200 :: u32)) False s)
       0 (0x300 * 8 + 2) s"

text \<open>The variables \<open>x\<close> and \<open>y\<close> go along with the state; \<open>setPixel\<close> takes 16 bits of each.\<close>

definition bmp_draw :: "u64 \<Rightarrow> u32 \<Rightarrow> 'a bfs_state_scheme \<Rightarrow> 'a bfs_state_scheme result" where
  "bmp_draw data biHeight s =
     and_then
       (each_u64 (\<lambda>i (x, y, s).
          and_then
            (each_u64 (\<lambda>j (x, s).
               and_then (setPixel (ucast x) (ucast y) (get32 (data + 4 * ucast (ucast j + ucast i * 1024 :: u32)) (dma s)) s)
                 (\<lambda>s. Inr (x + 1, s))) 0 1024 (x, s))
            (\<lambda>(x, s). Inr (0, y - 1, s)))
          0 (ucast biHeight) (0 :: u64, ucast biHeight :: u64, s))
       (\<lambda>(_, _, s). Inr s)"

definition drawBmp :: "nat \<Rightarrow> 'a bmp_state_scheme \<Rightarrow> 'a bmp_state_scheme result" where
  "drawBmp fuel s =
     (let s = s\<lparr>bmp_driveCnt := fst (getDrives s)\<rparr> in
      and_then (physicalPageAlloc 0x300 s) (\<lambda>(p, s).
      let data = p + HIGH_VMA in
      and_then (bmp_load fuel data s) (\<lambda>s.
      and_then (kprintDS (cstr ''[KDEBUG]'') (cstr ''bfType %x'') [VaInt (ucast (get16 (data + bmp_bfType) (dma s)))] s) (\<lambda>s.
      and_then (kprintDS (cstr ''[KDEBUG]'') (cstr ''bfSize %x'') [VaInt (get32 (data + bmp_bfSize) (dma s))] s) (\<lambda>s.
      and_then (kprintDS (cstr ''[KDEBUG]'') (cstr ''bfOffset %x'') [VaInt (get32 (data + bmp_bfOffset) (dma s))] s) (\<lambda>s.
      and_then (kprintDS (cstr ''[KDEBUG]'') (cstr ''Width %d Height %d'')
        [VaInt (get32 (data + bmp_biWidth) (dma s)), VaInt (get32 (data + bmp_biHeight) (dma s))] s) (\<lambda>s.
      and_then (kprintDS (cstr ''[KDEBUG]'') (cstr ''bpp %d'') [VaInt (ucast (get16 (data + bmp_biBitCount) (dma s)))] s) (\<lambda>s.
      and_then (kprintDS (cstr ''[KDEBUG]'') (cstr ''blue mask %x'') [VaInt (get32 (data + bmp_blueMask) (dma s))] s) (\<lambda>s.
      and_then (kprintDS (cstr ''[KDEBUG]'') (cstr ''red mask %x'') [VaInt (get32 (data + bmp_redMask) (dma s))] s) (\<lambda>s.
      and_then (kprintDS (cstr ''[KDEBUG]'') (cstr ''green mask %x'') [VaInt (get32 (data + bmp_greenMask) (dma s))] s) (\<lambda>s.
        bmp_draw (data + ucast (get32 (data + bmp_bfOffset) (dma s))) (get32 (data + bmp_biHeight) (dma s)) s)))))))))))"

section \<open>Reading\<close>

lemma each_u64_cong:
  "(\<And>j s. j < n \<Longrightarrow> f j s = g j s) \<Longrightarrow> each_u64 f i n s = each_u64 g i n s"
proof (induction "unat n - unat i" arbitrary: i s)
  case 0
  then have "\<not> i < n" by (simp add: word_less_nat_alt)
  then show ?case by (simp add: each_u64_stop)
next
  case (Suc k)
  then have lt: "i < n" by (simp add: word_less_nat_alt)
  then have "k = unat n - unat (i + 1)" using Suc.hyps(2) by (simp add: unat_plus_1)
  then have "each_u64 f (i + 1) n = each_u64 g (i + 1) n" using Suc.hyps(1) Suc.prems by blast
  then show ?case using Suc.prems[OF lt] by (simp add: each_u64_step[OF lt])
qed

lemma load_index:
  fixes i :: u64
  assumes "i < 0x300 * 8 + 2"
  shows "ucast (ucast i + 0x7800 :: u32) = 0x7800 + i" "ucast (ucast i * 0x200 :: u32) = i * 0x200"
proof -
  have i: "unat i < 6146" using assms by (simp add: word_less_nat_alt)
  have u: "unat (ucast i :: u32) = unat i" using i by (simp add: unsigned_ucast_eq take_bit_eq_mod)
  have "unat (ucast i + 0x7800 :: u32) = unat i + 0x7800" using i u by (simp add: unat_word_ariths(1))
  moreover have "unat (0x7800 + i) = unat i + 0x7800" using i by (simp add: unat_word_ariths(1))
  ultimately show "ucast (ucast i + 0x7800 :: u32) = 0x7800 + i" by (simp add: word_unat_eq_iff unat_ucast_up)
  have "unat (ucast i * 0x200 :: u32) = unat i * 0x200" using i u by (simp add: unat_word_ariths(2))
  moreover have "unat (i * 0x200) = unat i * 0x200" using i by (simp add: unat_word_ariths(2))
  ultimately show "ucast (ucast i * 0x200 :: u32) = i * 0x200" by (simp add: word_unat_eq_iff unat_ucast_up)
qed

lemma bmp_load_reads:
  assumes "disk_ok fuel port clb identity s" and "usable (scratch clb) data 6146"
  shows "holds (bmp_load fuel data s) (\<lambda>s'. disk s' = disk s \<and> load_bytes data (512 * 6146) (dma s') = sectors (disk s) 0x7800 6146)"
proof -
  have "bmp_load fuel data s = each_u64 (\<lambda>i s. disk_rw fuel (0x7800 + i) (data + i * 0x200) False s) 0 (of_nat 6146) s"
  proof -
    have n: "(of_nat 6146 :: u64) = 0x300 * 8 + 2" by simp
    show ?thesis unfolding bmp_load_def n by (rule each_u64_cong) (simp only: load_index)
  qed
  then show ?thesis
    using sata.read_many[OF assms, of "0x7800" "\<lambda>_. 0x7800"] by (simp add: holds_def split: sum.splits)
qed


section \<open>Drawing\<close>

text \<open>The pixels drawn after \<open>i\<close> rows and \<open>j\<close> pixels of the next.\<close>

definition bmp_part :: "u64 \<Rightarrow> nat \<Rightarrow> (u64 \<Rightarrow> u8) \<Rightarrow> nat \<Rightarrow> nat \<Rightarrow> nat \<Rightarrow> nat \<Rightarrow> u32 option" where
  "bmp_part data h m i j x y =
     (if x < 1024 \<and> y \<le> h \<and> (h - y < i \<or> h - y = i \<and> x < j)
      then Some (get32 (data + 4 * of_nat (x + (h - y) * 1024)) m) else None)"

lemma bmp_part_0 [simp]: "bmp_part data h m 0 0 = (\<lambda>x y. None)"
  by (intro ext) (simp add: bmp_part_def)

lemma bmp_part_row: "bmp_part data h m i 1024 = bmp_part data h m (Suc i) 0"
  by (intro ext) (auto simp: bmp_part_def)

lemma bmp_part_pixel:
  assumes "j < 1024" and "i < h"
  shows "(case if x = j \<and> y = h - i then Some (get32 (data + 4 * of_nat (j + i * 1024)) m) else None of
      Some c \<Rightarrow> Some c | None \<Rightarrow> bmp_part data h m i j x y) = bmp_part data h m i (Suc j) x y"
  using assms by (auto simp: bmp_part_def)

text \<open>The first row of the file is drawn in line \<open>biHeight\<close>, which may be the one behind the last line: the screen with
  that line counted in. The bytes of the pixels drawn are all that changes.\<close>

definition taller :: "'a screen_state_scheme \<Rightarrow> 'a screen_state_scheme" where
  "taller s = s\<lparr>scr_height := scr_height s + 1\<rparr>"

lemma taller_simps [simp]:
  "scr_w (taller s) = scr_w s" "picture (taller s) = picture s" "pixel_offset (taller s) = pixel_offset s"
  "video (taller s) = video s" "taller (s\<lparr>video := v\<rparr>) = (taller s)\<lparr>video := v\<rparr>"
  "pixel_addr x y (taller s) = pixel_addr x y s" "framebuffer (taller s) = framebuffer s"
  "pixel_addr x y (s\<lparr>video := v\<rparr>) = pixel_addr x y s"
  by (auto simp: taller_def scr_w_def picture_def pixel_offset_def pixel_addr_def Let_def intro!: ext cong: if_cong)

lemma taller_inject: "taller s = taller s' \<longleftrightarrow> s = s'"
  by (cases s; cases s') (auto simp: taller_def)

definition pixel_bytes :: "'a screen_state_scheme \<Rightarrow> nat \<Rightarrow> nat \<Rightarrow> u64 set" where
  "pixel_bytes s x y = (\<lambda>k. ucast (framebuffer s) + HIGH_VMA + of_nat (pixel_offset s x y) + of_nat k) ` {..<4}"

definition drawn_only ::
  "'a screen_state_scheme \<Rightarrow> 'a screen_state_scheme \<Rightarrow> nat \<Rightarrow> (nat \<Rightarrow> nat \<Rightarrow> u32 option) \<Rightarrow> bool"
where
  "drawn_only s s' h D \<longleftrightarrow> drawn (taller s) (taller s') D \<and>
     (\<forall>a. (\<forall>x < 1024. \<forall>y. 1 \<le> y \<longrightarrow> y \<le> h \<longrightarrow> a \<notin> pixel_bytes s x y) \<longrightarrow> video s' a = video s a)"

lemma drawn_only_video: "drawn_only s s' h D \<Longrightarrow> s' = s\<lparr>video := video s'\<rparr>"
proof -
  assume "drawn_only s s' h D"
  then have "taller s' = taller (s\<lparr>video := video s'\<rparr>)" unfolding drawn_only_def by (metis drawn_video taller_simps(4,5))
  then show ?thesis by (simp only: taller_inject)
qed

lemma bmp_pixel:
  fixes s :: "'a bfs_state_scheme"
  assumes ok: "screen_ok (taller s)" and s': "drawn_only s s' h (bmp_part data h (dma s) i j)"
    and w: "1024 \<le> scr_w s" and h: "h < scr_h (taller s)" and i: "i < h" and j: "j < 1024"
  shows "holds (setPixel (of_nat j) (of_nat (h - i)) (get32 (data + 4 * of_nat (j + i * 1024)) (dma s')) s')
    (\<lambda>s''. drawn_only s s'' h (bmp_part data h (dma s) i (Suc j)))"
proof -
  obtain v where v: "s' = s\<lparr>video := v\<rparr>" using drawn_only_video [OF s'] by blast
  let ?c = "get32 (data + 4 * of_nat (j + i * 1024)) (dma s)"
  let ?a = "ucast (framebuffer s) + HIGH_VMA + of_nat (pixel_offset s j (h - i))"
  have in_screen: "screen_ok (taller s')" "j < scr_w (taller s')" "h - i < scr_h (taller s')"
    using ok w h i j unfolding v by simp_all
  have addr: "pixel_addr (of_nat j) (of_nat (h - i)) s' = Inr ?a"
    using pixel_addr_eq [OF in_screen] unfolding v by simp
  have "holds (setPixel (of_nat j) (of_nat (h - i)) ?c (taller s'))
      (\<lambda>s''. drawn (taller s') s'' (\<lambda>x y. if x = j \<and> y = h - i then Some ?c else None))"
    by (rule setPixel_drawn [OF in_screen])
  then have one: "drawn (taller s') (taller (s'\<lparr>video := put32 ?a ?c (video s')\<rparr>)) (\<lambda>x y. if x = j \<and> y = h - i then Some ?c else None)"
    by (simp add: setPixel_def addr)
  have "drawn (taller s) (taller s') (bmp_part data h (dma s) i j)" using s' by (simp add: drawn_only_def)
  note drawn_trans [OF this one]
  then have "drawn (taller s) (taller (s'\<lparr>video := put32 ?a ?c (video s')\<rparr>)) (bmp_part data h (dma s) i (Suc j))"
    by (rule drawn_cong) (simp only: bmp_part_pixel [OF j i])
  moreover have "put32 ?a ?c (video s') a = video s a"
    if "\<forall>x < 1024. \<forall>y. 1 \<le> y \<longrightarrow> y \<le> h \<longrightarrow> a \<notin> pixel_bytes s x y" for a
  proof -
    have "a \<notin> pixel_bytes s j (h - i)" using that i j by simp
    then have "a \<notin> {?a, ?a + 1, ?a + 2, ?a + 3}"
      unfolding pixel_bytes_def by (auto simp: numeral_eq_Suc lessThan_Suc)
    then show ?thesis using that s' by (simp add: put32_def drawn_only_def)
  qed
  ultimately have "drawn_only s (s'\<lparr>video := put32 ?a ?c (video s')\<rparr>) h (bmp_part data h (dma s) i (Suc j))"
    unfolding drawn_only_def by simp
  moreover have "dma s' = dma s" by (simp add: v)
  ultimately show ?thesis by (simp add: setPixel_def addr)
qed

lemma bmp_index:
  assumes "i < 2 ^ 16" and "j < 1024"
  shows "(ucast (ucast (of_nat j :: u64) + ucast (of_nat i :: u64) * 1024 :: u32) :: u64) = of_nat (j + i * 1024)"
proof -
  have "(ucast (of_nat k :: u64) :: u32) = of_nat k" for k
    by (rule bit_word_eqI) (simp add: bit_simps)
  then have "ucast (of_nat j :: u64) + ucast (of_nat i :: u64) * 1024 = (of_nat (j + i * 1024) :: u32)" by simp
  moreover have "j + i * 1024 < 2 ^ 32" using assms by simp
  ultimately show ?thesis by (simp add: word_unat_eq_iff unat_ucast_up unat_of_nat_small unat_of_nat_u64 del: of_nat_add of_nat_mult)
qed

lemma bmp_draw_part:
  fixes s :: "'a bfs_state_scheme"
  assumes ok: "screen_ok (taller s)" and w: "1024 \<le> scr_w s" and h: "unat biHeight < scr_h (taller s)"
  shows "holds (bmp_draw data biHeight s) (\<lambda>s'. drawn_only s s' (unat biHeight) (bmp_part data (unat biHeight) (dma s) (unat biHeight) 0))"
proof -
  let ?h = "unat biHeight"
  let ?D = "bmp_part data ?h (dma s)"
  let ?I = "\<lambda>(i :: u64) (x :: u64, y :: u64, s'). x = 0 \<and> y = of_nat (?h - unat i) \<and> drawn_only s s' ?h (?D (unat i) 0)"
  let ?J = "\<lambda>(i :: u64) (j :: u64) (x :: u64, s'). x = j \<and> drawn_only s s' ?h (?D (unat i) (unat j))"
  have h16: "?h < 2 ^ 16" using h ok by (simp add: screen_ok_def)
  let ?row = "\<lambda>(i :: u64) (y :: u64) (x :: u64) s. each_u64 (\<lambda>j (x, s).
               and_then (setPixel (ucast x) (ucast y) (get32 (data + 4 * ucast (ucast j + ucast i * 1024 :: u32)) (dma s)) s)
                 (\<lambda>s. Inr (x + 1, s))) 0 1024 (x, s)"
  have row: "holds (?row i (of_nat (?h - unat i)) 0 t) (?J i 1024)"
    if "unat i < ?h" "drawn_only s t ?h (?D (unat i) 0)" for i t
  proof (rule each_u64_holds[where I = "?J i"])
    fix j :: u64 and st assume j: "j < 1024" and J: "?J i j st"
    obtain x t' where st: "st = (x, t')" by (cases st)
    have j': "unat j < 1024" "unat (j + 1) = Suc (unat j)"
      using j unat_plus_1[OF j] by (simp_all add: word_less_nat_alt)
    have idx: "ucast (ucast j + ucast i * 1024 :: u32) = (of_nat (unat j + unat i * 1024) :: u64)"
      using bmp_index[of "unat i" "unat j"] that(1) h16 j' by simp
    have "holds (setPixel (of_nat (unat j)) (of_nat (?h - unat i)) (get32 (data + 4 * of_nat (unat j + unat i * 1024)) (dma t')) t')
        (\<lambda>s''. drawn_only s s'' ?h (?D (unat i) (Suc (unat j))))"
      by (rule bmp_pixel[OF ok _ w h that(1) j'(1)]) (use J st in simp)
    moreover have "ucast j = (of_nat (unat j) :: u16)" "ucast (of_nat (?h - unat i) :: u64) = (of_nat (?h - unat i) :: u16)"
      using ucast_of_nat_u64[of "unat j"] ucast_of_nat_u64 by simp_all
    ultimately have P: "holds (setPixel (ucast j) (ucast (of_nat (?h - unat i) :: u64))
        (get32 (data + 4 * ucast (ucast j + ucast i * 1024 :: u32)) (dma t')) t')
        (\<lambda>s''. drawn_only s s'' ?h (?D (unat i) (unat (j + 1))))"
      by (simp only: idx j'(2))
    have x: "x = j" using J st by simp
    show "holds (case st of (x, s) \<Rightarrow>
        and_then (setPixel (ucast x) (ucast (of_nat (?h - unat i) :: u64)) (get32 (data + 4 * ucast (ucast j + ucast i * 1024 :: u32)) (dma s)) s)
          (\<lambda>s. Inr (x + 1, s))) (?J i (j + 1))"
      unfolding st prod.case x by (rule holds_bind[OF P]) simp
  qed (use that in simp_all)
  show ?thesis
    unfolding bmp_draw_def holds_and_then
  proof (rule each_u64_holds[where I = ?I])
    fix i :: u64 and st assume i: "i < ucast biHeight" and I: "?I i st"
    obtain x y t where st: "st = (x, y, t)" by (cases st)
    have i': "unat i < ?h" "unat (i + 1) = Suc (unat i)"
      using i unat_plus_1[OF i] by (simp_all add: word_less_nat_alt unat_ucast_up)
    have y: "of_nat (?h - unat i) - 1 = (of_nat (?h - Suc (unat i)) :: u64)"
      using i'(1) by (simp add: of_nat_diff)
    have r: "holds (?row i (of_nat (?h - unat i)) 0 t) (?J i 1024)"
      by (rule row[OF i'(1)]) (use I st in simp)
    have xy: "x = 0" "y = of_nat (?h - unat i)" using I st by simp_all
    show "holds (case st of (x, y, s) \<Rightarrow> and_then (?row i y x s) (\<lambda>(x, s). Inr (0, y - 1, s))) (?I (i + 1))"
      unfolding st prod.case xy by (rule holds_bind[OF r]) (auto simp: i'(2) y bmp_part_row)
  qed (auto simp: unat_ucast_up drawn_refl drawn_only_def)
qed


text \<open>
  C36: drawing the image puts row \<open>r\<close> of the file at line \<open>biHeight - r\<close> of the screen, every pixel, and changes no other
  byte of the video memory and nothing else: the first row goes to the line below the picture and line 0 is left alone. When
  the image is as high as the screen, as both wallpapers are in the 768 line mode the boot loader selects, line \<open>biHeight\<close> is
  not on the screen: the 4096 bytes of the first row overwrite what lies behind the last line.
\<close>

theorem bmp_draw_shows:
  fixes s :: "'a bfs_state_scheme"
  assumes "screen_ok s" and "1024 \<le> scr_w s" and "unat biHeight \<le> scr_h s"
    and "scr_h s < 2 ^ 16" and "(scr_h s + 1) * unat (fb_pitch s) < 2 ^ 31"
  shows "\<exists>s'. bmp_draw data biHeight s = Inr s' \<and> s' = s\<lparr>video := video s'\<rparr> \<and>
    (\<forall>x < scr_w s. \<forall>y \<le> scr_h s. picture s' x y =
       (if x < 1024 \<and> 1 \<le> y \<and> y \<le> unat biHeight
        then get32 (data + 4 * of_nat (x + (unat biHeight - y) * 1024)) (dma s) else picture s x y)) \<and>
    (\<forall>a. (\<forall>x < 1024. \<forall>y. 1 \<le> y \<longrightarrow> y \<le> unat biHeight \<longrightarrow> a \<notin> pixel_bytes s x y) \<longrightarrow> video s' a = video s a)"
proof -
  have "unat (scr_height s + 1) = unat (scr_height s) + 1"
    using assms(4) by (subst unat_word_ariths(1)) (simp add: scr_h_def)
  then have tall: "scr_h (taller s) = scr_h s + 1" by (simp add: scr_h_def taller_def)
  have "screen_ok (taller s)"
    using assms(1,4,5) tall by (simp add: screen_ok_def) (simp add: taller_def)
  from bmp_draw_part [OF this assms(2), of biHeight data] assms(3) tall obtain s' where
    s': "bmp_draw data biHeight s = Inr s'"
      "drawn_only s s' (unat biHeight) (bmp_part data (unat biHeight) (dma s) (unat biHeight) 0)"
    by (auto elim!: holdsE)
  have "picture s' x y = (if x < 1024 \<and> 1 \<le> y \<and> y \<le> unat biHeight
        then get32 (data + 4 * of_nat (x + (unat biHeight - y) * 1024)) (dma s) else picture s x y)"
    if "x < scr_w s" "y \<le> scr_h s" for x y
    using s'(2) that tall by (auto simp: drawn_only_def drawn_def bmp_part_def)
  with s' drawn_only_video [OF s'(2)] show ?thesis
    unfolding drawn_only_def by blast
qed

lemma sectors_append: "sectors d b (m + n) = sectors d b m @ sectors d (b + m) n"
  by (simp add: sectors_def upt_add_eq_append[of b "b + m" n] add.assoc[symmetric])

text \<open>
  The loop that reads the image brings 6146 sectors to the memory of 768 pages: the last two overwrite the
  1024 bytes behind it.
\<close>

theorem bmp_load_overruns:
  assumes "disk_ok fuel port clb identity s" and "usable (scratch clb) data 6146"
  shows "\<exists>s'. bmp_load fuel data s = Inr s' \<and>
    load_bytes data (0x300 * 0x1000) (dma s') = sectors (disk s) 0x7800 6144 \<and>
    load_bytes (data + 0x300 * 0x1000) 1024 (dma s') = sectors (disk s) (0x7800 + 6144) 2"
proof -
  obtain s' where s': "bmp_load fuel data s = Inr s'" "load_bytes data (512 * 6146) (dma s') = sectors (disk s) 0x7800 6146"
    using bmp_load_reads[OF assms] by (rule holdsE) blast
  have len: "length (disk s l) = 512" for l using assms(1) by (simp add: disk_ok_def)
  have "sectors (disk s) 0x7800 (6144 + 2) = sectors (disk s) 0x7800 6144 @ sectors (disk s) (0x7800 + 6144) 2"
    by (rule sectors_append)
  moreover have "load_bytes data (0x300 * 0x1000 + 1024) (dma s') =
      load_bytes data (0x300 * 0x1000) (dma s') @ load_bytes (data + 0x300 * 0x1000) 1024 (dma s')"
    using load_bytes_append[of data "0x300 * 0x1000" 1024 "dma s'"] by (simp only: of_nat_mult of_nat_numeral)
  moreover have "length (sectors (disk s) 0x7800 6144) = 0x300 * 0x1000"
    using sectors_length[of "disk s" "0x7800" 6144, OF len] by simp
  moreover have "0x300 * 0x1000 + 1024 = (512 * 6146 :: nat)" "(6144 + 2 :: nat) = 6146" by simp_all
  ultimately have "load_bytes data (0x300 * 0x1000) (dma s') @ load_bytes (data + 0x300 * 0x1000) 1024 (dma s') =
      sectors (disk s) 0x7800 6144 @ sectors (disk s) (0x7800 + 6144) 2"
    using s'(2) by (simp only:)
  then have "load_bytes data (0x300 * 0x1000) (dma s') = sectors (disk s) 0x7800 6144 \<and>
      load_bytes (data + 0x300 * 0x1000) 1024 (dma s') = sectors (disk s) (0x7800 + 6144) 2"
    using \<open>length (sectors (disk s) 0x7800 6144) = 0x300 * 0x1000\<close>
    by (simp only: append_eq_append_conv load_bytes_length simp_thms)
  with s'(1) show ?thesis by blast
qed


definition example_bmp :: "unit bmp_state_scheme" where
  "example_bmp = bfs_state.extend example_bfs (bmp_state.fields 1)"

lemma example_bmp_disk: "disk_ok 1 0 0x1000 [] example_bmp" "disk example_bmp = (\<lambda>l. replicate 512 (of_nat l))"
  using example_ahci_port
  by (simp_all add: example_bmp_def bmp_state.defs bfs_state.defs disk_ok_def example_bfs_fields example_ahci_free)

lemma example_bmp_screen: "screen_ok example_bmp" "scr_w example_bmp = 1024" "scr_h example_bmp = 768"
  by (simp_all add: example_bmp_def bfs_state.defs bmp_state.defs example_bfs_def example_ahci_defs example_smp_def int_state.defs
      example_int_def apic_state.defs acpi_state.defs example_acpi_def sched_state.defs example_sched_def
      desc_state.defs example_desc_def pci_state.defs example_pci_def screen_state.defs io_state.defs
      example_screen_def screen_ok_def scr_w_def scr_h_def vmm_state.defs)

theorem bmp_draw_shows_witness:
  "\<exists>s'. bmp_draw 0x2000 768 example_bmp = Inr s' \<and>
    picture s' 3 768 = get32 (0x2000 + 12) (dma example_bmp) \<and>
    picture s' 3 767 = get32 (0x2000 + 4108) (dma example_bmp) \<and> picture s' 3 0 = picture example_bmp 3 0"
proof -
  have "(scr_h example_bmp + 1) * unat (fb_pitch example_bmp) < 2 ^ 31"
    unfolding example_bmp_screen by (rule le_less_trans [OF mult_left_mono [OF less_imp_le [OF unsigned_less]]]) simp_all
  then show ?thesis
    using bmp_draw_shows[of example_bmp 768 "0x2000"] by (auto simp: example_bmp_screen)
qed

theorem bmp_load_overruns_witness:
  "\<exists>s'. bmp_load 1 (HIGH_VMA + 0x10000) example_bmp = Inr s' \<and>
    load_bytes (HIGH_VMA + 0x10000 + 0x300 * 0x1000) 1024 (dma s') = sectors (disk example_bmp) (0x7800 + 6144) 2"
proof -
  have "usable (scratch 0x1000) (HIGH_VMA + 0x10000) 6146"
    using example_apart[of "0x10000" "512 * 6146"] by (simp add: usable_def)
  from bmp_load_overruns[OF example_bmp_disk(1) this] show ?thesis by blast
qed

end
