(* ===== verification/Ethernet.thy ===== *)
theory Ethernet
  imports Bmp
begin

text \<open>
  The network adapter, \<^verbatim>\<open>kernel/net/e1000.c\<close>: it is found on the PCI bus and its address is read from its EEPROM
  through the register at offset \<open>0x14\<close>.
\<close>

section \<open>The adapter\<close>

record NICinfo_t =
  mac :: "u8 list"
  regBase :: u64

record nic_state = bmp_state +
  NICinfoAddr :: u64
  NICinfo :: NICinfo_t
  bar0 :: pciBar_t

text \<open>\<open>while((!((tmp = *reg))) & (1 << 4));\<close>: the negation binds tighter than the mask.\<close>

definition eeprom_loops :: "u32 \<Rightarrow> bool" where
  "eeprom_loops tmp \<longleftrightarrow> (if tmp = 0 then 1 else 0) AND push_bit 4 1 \<noteq> (0 :: u32)"

definition eepromRead :: "nat \<Rightarrow> u8 \<Rightarrow> 'a nic_state_scheme \<Rightarrow> (u32 \<times> 'a nic_state_scheme) result" where
  "eepromRead fuel addr s =
     (let reg = regBase (NICinfo s) + 0x14;
          s = mmio_write reg (1 OR push_bit 8 (ucast addr)) s in
      and_then (poll fuel (\<lambda>tmp. \<not> eeprom_loops tmp) (mmio_read reg) s) (\<lambda>(tmp, s).
        Inr (ucast (ucast (drop_bit 16 tmp AND 0xffff) :: u16), s)))"

text \<open>The loop over the devices: it leaves the function at the last one, goes on with the adapter if there is one
  before, and with an uninitialised one on an empty bus.\<close>

definition find_adapter :: "pci_t \<Rightarrow> 'a nic_state_scheme \<Rightarrow> ('a nic_state_scheme, pci_t option \<times> 'a nic_state_scheme) flow result" where
  "find_adapter junk s =
     for_u64 (\<lambda>i s.
       and_then (fetch (pciDevices s) i) (\<lambda>d.
       if classCode d = 2 \<and> subClass d = 0 then
         and_then (kprintDS (cstr ''[NET]'') (cstr ''Ethernet adapater found from vendor %x and deviceID %x'')
           [VaInt (ucast (vendorID d)), VaInt (ucast (deviceID d))] s) (\<lambda>s.
         and_then (kprintVS (cstr (''Ethernet adapater found from vendor %x and deviceID %x'' @ [CHR 0x0A]))
           [VaInt (ucast (vendorID d)), VaInt (ucast (deviceID d))] s) (\<lambda>s.
         Inr (Exit (Some d, s))))
       else if i = totalDevices s - 1 then
         and_then (kprintDS (cstr ''[NET]'') (cstr ''No ethernet adapter can be found'') [] s) (\<lambda>s. Inr (Exit (None, s)))
       else Inr (Next s)))
       0 (totalDevices s) s"

definition read_mac :: "nat \<Rightarrow> 'a nic_state_scheme \<Rightarrow> 'a nic_state_scheme result" where
  "read_mac fuel s =
     and_then
       (each_u64 (\<lambda>i (cnt :: u32, s).
          and_then (eepromRead fuel (ucast i) s) (\<lambda>(tmp, s).
          and_then (store (mac (NICinfo s)) (ucast cnt) (ucast tmp)) (\<lambda>m.
          and_then (store m (ucast (cnt + 1)) (ucast (drop_bit 8 tmp))) (\<lambda>m.
            Inr (cnt + 2, s\<lparr>NICinfo := (NICinfo s)\<lparr>mac := m\<rparr>\<rparr>)))))
          0 3 (0, s))
       (\<lambda>(_, s). Inr s)"

definition initEthernet ::
  "nat \<Rightarrow> NICinfo_t \<Rightarrow> pci_t \<Rightarrow> 'a nic_state_scheme \<Rightarrow> 'a nic_state_scheme result"
where
  "initEthernet fuel fresh junk s =
     and_then (kmalloc 16 s) (\<lambda>(a, s).
     and_then (find_adapter junk (s\<lparr>NICinfoAddr := a, NICinfo := fresh\<rparr>)) (\<lambda>f.
     case (case f of Next s \<Rightarrow> (Some junk, s) | Exit r \<Rightarrow> r) of
       (None, s) \<Rightarrow> Inr s
     | (Some d, s) \<Rightarrow>
         let (b, s) = getBAR d 0 s; s = s\<lparr>bar0 := b\<rparr> in
         and_then (kprintDS (cstr ''[NET]'') (cstr ''BAR0 base %x | size %x'') [VaInt (bar_base b), VaInt (bar_size b)] s) (\<lambda>s.
         and_then (read_mac fuel (s\<lparr>NICinfo := (NICinfo s)\<lparr>regBase := ucast (bar_base b) + HIGH_VMA\<rparr>\<rparr>)) (\<lambda>s.
           kprintDS (cstr ''[NET]'') (cstr ''MAC address: %x:%x:%x:%x:%x:%x'')
             (map (\<lambda>b. VaInt (ucast b)) (mac (NICinfo s))) s))))"

section \<open>The address\<close>

lemma eeprom_never_loops: "\<not> eeprom_loops tmp"
  by (simp add: eeprom_loops_def)

lemma eepromRead_eq:
  assumes "0 < fuel"
  shows "eepromRead fuel addr s =
    (let reg = regBase (NICinfo s) + 0x14;
         l = io_log s @ [MmioWrite reg (1 OR push_bit 8 (ucast addr)), MmioRead reg] in
     Inr (drop_bit 16 (ucast (io_device s l)) AND 0xffff, s\<lparr>io_log := l\<rparr>))"
proof -
  obtain n where "fuel = Suc n" using assms by (cases fuel) auto
  moreover have "ucast (ucast (w AND 0xffff) :: u16) = w AND 0xffff" for w :: u32
  proof -
    have f: "0xffff = (mask 16 :: u32)" by (simp add: mask_eq_exp_minus_1)
    show ?thesis unfolding f by (rule bit_word_eqI) (auto simp: bit_simps)
  qed
  ultimately show ?thesis
    by (simp add: eepromRead_def eeprom_never_loops mmio_write_def mmio_read_def io_write_def io_read_def Let_def)
qed


text \<open>
  \<open>eepromRead\<close> reads the register once and returns its upper half, whether or not the adapter has set the
  done bit (bit 4) it means to wait for.
\<close>

theorem eepromRead_does_not_wait:
  assumes "0 < fuel"
  shows "\<exists>s'. eepromRead fuel addr s =
      Inr (drop_bit 16 (ucast (io_device s (io_log s'))) AND 0xffff, s') \<and>
    io_log s' = io_log s @ [MmioWrite (regBase (NICinfo s) + 0x14) (1 OR push_bit 8 (ucast addr)),
      MmioRead (regBase (NICinfo s) + 0x14)]"
  using eepromRead_eq[OF assms, of addr s] by (simp add: Let_def)

lemma each_u64_three: "each_u64 f 0 3 s = and_then (f 0 s) (\<lambda>s. and_then (f 1 s) (f 2))"
proof -
  have 3: "each_u64 f 3 3 = (Inr :: 'x \<Rightarrow> 'x result)" for f :: "u64 \<Rightarrow> 'x \<Rightarrow> 'x result"
    by (rule ext) (simp add: each_u64_stop)
  have 2: "each_u64 f 2 3 = f 2"
    by (rule ext) (simp add: each_u64_step 3 and_then_def split: sum.splits)
  have 1: "each_u64 f 1 3 = (\<lambda>s. and_then (f 1 s) (f 2))"
    by (rule ext) (simp add: each_u64_step 2)
  show ?thesis by (simp add: each_u64_step 1)
qed

text \<open>
  With an EEPROM that answers at once, the address is its first three words, low byte first.
\<close>

theorem read_mac_reads:
  assumes "0 < fuel" and "length (mac (NICinfo s)) = 6"
    and "\<And>l addr. (ucast (io_device s (l @ [MmioWrite (regBase (NICinfo s) + 0x14) (1 OR push_bit 8 (ucast addr)),
      MmioRead (regBase (NICinfo s) + 0x14)])) :: u32) = push_bit 16 (ucast (eeprom addr :: u16)) OR push_bit 4 1"
  shows "\<exists>s'. read_mac fuel s = Inr s' \<and>
    mac (NICinfo s') = concat (map (\<lambda>i. [ucast (eeprom i), ucast (drop_bit 8 (eeprom i))]) [0, 1, 2 :: u8])"
proof -
  let ?reg = "regBase (NICinfo s)"
  have w: "drop_bit 16 (push_bit 16 (ucast v) OR push_bit 4 1) AND 0xffff = (ucast v :: u32)" for v :: u16
  proof -
    define c :: u32 where "c = push_bit 4 1"
    have c: "\<not> bit c n" if "16 \<le> n" for n using that unfolding c_def by (simp only: bit_push_bit_iff bit_1_iff) simp
    have f: "0xffff = (mask 16 :: u32)" by (simp add: mask_eq_exp_minus_1)
    show ?thesis unfolding f c_def[symmetric]
      by (rule bit_word_eqI) (auto simp: bit_simps c dest: bit_imp_le_length)
  qed
  have b: "ucast (ucast v :: u32) = (ucast v :: u8)" "ucast (drop_bit 8 (ucast v :: u32)) = (ucast (drop_bit 8 v) :: u8)"
    for v :: u16
    by (rule bit_word_eqI; auto simp: bit_simps dest: bit_imp_le_length)+
  have rd: "\<exists>l'. eepromRead fuel addr (s\<lparr>NICinfo := (NICinfo s)\<lparr>mac := m\<rparr>, io_log := l\<rparr>) =
      Inr (ucast (eeprom addr), s\<lparr>NICinfo := (NICinfo s)\<lparr>mac := m\<rparr>, io_log := l'\<rparr>)" for addr m l
  proof -
    have w': "drop_bit 16 (push_bit 16 (ucast v)) AND 0xffff = (ucast v :: u32)" for v :: u16
      using w[of v] by simp
    show ?thesis
      using eepromRead_eq[OF assms(1), of addr "s\<lparr>NICinfo := (NICinfo s)\<lparr>mac := m\<rparr>, io_log := l\<rparr>"]
      unfolding Let_def by (simp add: assms(3) w') blast
  qed
  obtain m0 m1 m2 m3 m4 m5 where m: "mac (NICinfo s) = [m0, m1, m2, m3, m4, m5]"
    using assms(2) by (auto simp: numeral_eq_Suc length_Suc_conv)
  define E where "E i = (ucast (eeprom i) :: u8)" for i
  define F where "F i = (ucast (drop_bit 8 (eeprom i)) :: u8)" for i
  let ?s = "\<lambda>m l. s\<lparr>NICinfo := (NICinfo s)\<lparr>mac := m\<rparr>, io_log := l\<rparr>"
  have s0: "s = ?s [m0, m1, m2, m3, m4, m5] (io_log s)" using m by (cases s) (auto intro: NICinfo_t.equality)
  let ?body = "\<lambda>i (cnt :: u32, s :: 'a nic_state_scheme).
          and_then (eepromRead fuel (ucast (i :: u64)) s) (\<lambda>(tmp, s).
          and_then (store (mac (NICinfo s)) (ucast cnt) (ucast tmp)) (\<lambda>m.
          and_then (store m (ucast (cnt + 1)) (ucast (drop_bit 8 tmp))) (\<lambda>m.
            Inr (cnt + 2, s\<lparr>NICinfo := (NICinfo s)\<lparr>mac := m\<rparr>\<rparr>))))"
  have body: "\<exists>l'. ?body i (cnt, ?s xs l) =
      Inr (cnt + 2, ?s (xs[unat cnt := E (ucast i), unat (cnt + 1) := F (ucast i)]) l')"
    if "unat cnt < length xs" "unat (cnt + 1) < length xs" for i cnt xs l
  proof -
    obtain l' where "eepromRead fuel (ucast i) (?s xs l) = Inr (ucast (eeprom (ucast i)), ?s xs l')" using rd by blast
    then show ?thesis using that by (intro exI[of _ l']) (simp add: store_def unat_ucast_up b E_def F_def)
  qed
  obtain l1 where 1: "?body 0 (0, ?s [m0, m1, m2, m3, m4, m5] (io_log s)) = Inr (2, ?s [E 0, F 0, m2, m3, m4, m5] l1)"
    using body[of 0 "[m0, m1, m2, m3, m4, m5]" 0 "io_log s"] by auto
  obtain l2 where 2: "?body 1 (2, ?s [E 0, F 0, m2, m3, m4, m5] l1) = Inr (4, ?s [E 0, F 0, E 1, F 1, m4, m5] l2)"
    using body[of 2 "[E 0, F 0, m2, m3, m4, m5]" 1 l1] by auto
  obtain l3 where 3: "?body 2 (4, ?s [E 0, F 0, E 1, F 1, m4, m5] l2) = Inr (6, ?s [E 0, F 0, E 1, F 1, E 2, F 2] l3)"
    using body[of 4 "[E 0, F 0, E 1, F 1, m4, m5]" 2 l2] by auto
  have "each_u64 ?body 0 3 (0, s) = Inr (6, ?s [E 0, F 0, E 1, F 1, E 2, F 2] l3)"
  proof -
    have "each_u64 ?body 0 3 (0, ?s [m0, m1, m2, m3, m4, m5] (io_log s)) = Inr (6, ?s [E 0, F 0, E 1, F 1, E 2, F 2] l3)"
      unfolding each_u64_three 1 and_then_simps 2 3 ..
    then show ?thesis unfolding s0[symmetric] .
  qed
  then show ?thesis by (auto simp: read_mac_def E_def F_def)
qed


section \<open>Witnesses\<close>

text \<open>An adapter whose registers always read the same word: with the done bit, and without.\<close>

definition example_nic :: "u32 \<Rightarrow> unit nic_state_scheme" where
  "example_nic w = bmp_state.extend (example_bmp\<lparr>io_log := [], io_device := (\<lambda>_. ucast w)\<rparr>)
     (nic_state.fields 0 \<lparr>mac = replicate 6 0, regBase = HIGH_VMA\<rparr> \<lparr>bar_base = 0, bar_size = 0\<rparr>)"

lemma example_nic_fields:
  "io_device (example_nic w) = (\<lambda>_. ucast w)" "NICinfo (example_nic w) = \<lparr>mac = replicate 6 0, regBase = HIGH_VMA\<rparr>"
  by (simp_all add: example_nic_def bmp_state.defs nic_state.defs)

theorem eepromRead_does_not_wait_witness:
  "\<exists>s'. eepromRead 1 0 (example_nic 0) = Inr (0, s')"
  using eepromRead_does_not_wait[of 1 0 "example_nic 0"] by (auto simp: example_nic_fields)

theorem read_mac_reads_witness:
  "\<exists>s'. read_mac 1 (example_nic 0x00520010) = Inr s' \<and> mac (NICinfo s') = [0x52, 0, 0x52, 0, 0x52, 0]"
  using read_mac_reads[of 1 "example_nic 0x00520010" "\<lambda>_. 0x52"] by (simp add: example_nic_fields)

end
