(* ===== verification/Boot.thy ===== *)
theory Boot
  imports Ethernet
begin

text \<open>
  The start of the kernel, \<open>bootMain\<close> of \<^verbatim>\<open>kernel/kernelMain.c\<close>, which calls every other part in turn, the tasks
  it creates, and the keyboard handler of \<^verbatim>\<open>kernel/drivers/keyboard.c\<close>. \<open>boot_env\<close> collects what the machine
  and the linker provide: the contents of fresh heap memory and of uninitialised variables, and the addresses of functions.
\<close>

section \<open>The keyboard\<close>

record kernel_state = nic_state +
  upkey :: bool
  bruh :: u64

definition keyMap :: string where
  "keyMap = ''  1234567890-='' @ [CHR 0x08, CHR 0x09] @ ''qwertyuiop[]  asdfghjkl;'' @ [CHR 0x27, CHR 0x60] @ '' '' @
     [CHR 0x5C] @ ''zxcvbnm,./    ''"

definition capKeyMap :: string where
  "capKeyMap = ''  !@#$%^&*()_+'' @ [CHR 0x08, CHR 0x09] @ ''QWERTYUIOP{}  ASDFGHJKL:'' @ [CHR 0x27] @ ''~ '' @
     [CHR 0x5C] @ ''ZXCVBNM<>?    ''"

definition keyboardHandlerMain :: "'a kernel_state_scheme \<Rightarrow> 'a kernel_state_scheme" where
  "keyboardHandlerMain s =
     (let (keycode, s) = inb 0x60 s in
      if keycode = 0xaa then s\<lparr>upkey := False\<rparr>
      else if keycode = 0x2a then s\<lparr>upkey := True\<rparr>
      else s)"

section \<open>The tasks\<close>

text \<open>One round of the loop of a task, after its delay: the interrupt it raises, with the values the other registers hold.\<close>

definition task_call ::
  "(nat \<Rightarrow> thread_t) \<Rightarrow> regs_t \<Rightarrow> u64 \<Rightarrow> regs_t \<Rightarrow> 'a int_state_scheme \<Rightarrow> (resumption \<times> 'a int_state_scheme) result"
where
  "task_call fresh junk number regs s =
     isrHandlerMain fresh junk (regs\<lparr>rax := number, isrNumber := 0x69, errorCode := 0\<rparr>) s"

definition task2 ::
  "(nat \<Rightarrow> thread_t) \<Rightarrow> regs_t \<Rightarrow> regs_t \<Rightarrow> 'a kernel_state_scheme \<Rightarrow> 'a kernel_state_scheme result"
where
  "task2 fresh junk regs s =
     (let n = bruh s in printf fresh junk regs (cstr ''hi from userspace %d'') [VaLong n] (s\<lparr>bruh := n + 1\<rparr>))"

definition task3 where "task3 fresh junk = task_call fresh junk 0x69420"
definition task4 where "task4 fresh junk = task_call fresh junk 0x1"
definition task5 where "task5 fresh junk = task_call fresh junk 0x2"
definition task6 where "task6 fresh junk = task_call fresh junk 0x3"

section \<open>bootMain\<close>

record boot_env =
  e_fuel :: nat
  fresh_pci :: "nat \<Rightarrow> pci_t"
  fresh_tss :: "nat \<Rightarrow> tss_t"
  fresh_drives :: "nat \<Rightarrow> drive_t"
  fresh_tasks :: "nat \<Rightarrow> task_t"
  fresh_threads :: "nat \<Rightarrow> thread_t"
  fresh_cpus :: "nat \<Rightarrow> cpuInfo_t"
  fresh_madt :: madtInfo_t
  fresh_nic :: NICinfo_t
  junk_device :: pci_t
  junk_regs :: regs_t
  junk_stack :: u64
  isr_address :: "isr_symbol \<Rightarrow> u64"
  core_entry :: u64
  idtr_address :: u64
  task_address :: "nat \<Rightarrow> u64"

definition debug_args :: "bproto_t \<Rightarrow> (string \<times> va_value) list" where
  "debug_args b =
     [(''%x'', VaLong 184), (''mmap address: %x'', VaLong (mmapAddress b)),
      (''e820 entries: %d'', VaInt (ucast (mmapEntries b))), (''rsdp address: %x'', VaInt (b_rsdp b)),
      (''screen pitch: %d'', VaInt (ucast (b_pitch b))), (''screen width: %d'', VaInt (ucast (b_width b))),
      (''screen height: %d'', VaInt (ucast (b_height b))), (''screen bpp: %d'', VaInt (ucast (b_bpp b))),
      (''framebuffer: %x'', VaInt (b_framebuffer b))]"

fun print_all :: "(string \<times> va_value) list \<Rightarrow> 'a console_state_scheme \<Rightarrow> 'a console_state_scheme result" where
  "print_all [] s = Inr s"
| "print_all ((str, v) # xs) s = and_then (kprintDS (cstr ''[KDEBUG]'') (cstr str) [v] s) (print_all xs)"

definition print_mmap :: "bproto_t \<Rightarrow> mmapEntry_t list \<Rightarrow> 'a console_state_scheme \<Rightarrow> 'a console_state_scheme result" where
  "print_mmap b mmap s =
     each_u64 (\<lambda>i s. and_then (fetch mmap i) (\<lambda>e.
       kprintDS (cstr ''[KDEBUG]'') (cstr ''[%x -> %x] : length %x type %x'')
         [VaLong (e_base e), VaLong (e_base e + e_length e), VaLong (e_length e), VaInt (e_type e)] s))
       0 (ucast (mmapEntries b)) s"

text \<open>The memory managers and the heap; \<open>stack\<close> is the address of the new stack's top. Then the paging structures.\<close>

definition boot_heap ::
  "bproto_t \<Rightarrow> mmapEntry_t list \<Rightarrow> 'a vmm_state_scheme \<Rightarrow> (u64 \<times> 'a vmm_state_scheme) result"
where
  "boot_heap b mmap s =
     and_then (initPMM b mmap s) (\<lambda>s.
     and_then (physicalPageAlloc 4 s) (\<lambda>(p, s).
     let stack = p + 0x4000 + KERNEL_HIGH_VMA in
     and_then (kHeapInit s) (\<lambda>s. Inr (stack, s))))"

definition boot_memory ::
  "bproto_t \<Rightarrow> mmapEntry_t list \<Rightarrow> 'a vmm_state_scheme \<Rightarrow> (u64 \<times> 'a vmm_state_scheme) result"
where
  "boot_memory b mmap s =
     and_then (boot_heap b mmap s) (\<lambda>(stack, s). and_then (initVMM s) (\<lambda>s. Inr (stack, s)))"

definition boot_devices ::
  "boot_env \<Rightarrow> bproto_t \<Rightarrow> 'a kernel_state_scheme \<Rightarrow> 'a kernel_state_scheme result"
where
  "boot_devices e b s =
     and_then (initVESAtext 0xffffffff 0 (ucast (b_width b)) (ucast (b_height b)) (initVESA b s)) (\<lambda>s.
     and_then (kprintVS (cstr (''Welcome to seaweed'' @ [CHR 0x0A])) [] s) (\<lambda>s.
     and_then (rsdpInit (ucast (b_rsdp b) + HIGH_VMA) s) (\<lambda>s.
     and_then (initHPET s) (\<lambda>s.
     and_then (madtInit (e_fuel e) (fresh_madt e) s) (\<lambda>s.
     and_then (initAPIC (e_fuel e) s) (\<lambda>s.
     and_then (initGDT (fresh_tss e) s) (\<lambda>s.
     and_then (initPCI (fresh_pci e) (e_fuel e) s) (\<lambda>s.
     and_then (initAHCI (e_fuel e) (fresh_drives e) (junk_device e) s) (\<lambda>s.
       initGFS (e_fuel e) s)))))))))"

text \<open>\<open>createNewTask(ss, physicalPageAlloc(1) + HIGH_VMA + 0x1000, cs, &task, pages)\<close>.\<close>

definition boot_task ::
  "boot_env \<Rightarrow> u16 \<Rightarrow> u16 \<Rightarrow> nat \<Rightarrow> u64 \<Rightarrow> 'a kernel_state_scheme \<Rightarrow> 'a kernel_state_scheme result"
where
  "boot_task e ss cs n pageCnt s =
     and_then (physicalPageAlloc 1 s) (\<lambda>(p, s).
       createNewTask (fresh_tasks e) (fresh_threads e) (junk_regs e) ss (p + HIGH_VMA + 0x1000) cs
         (task_address e n) pageCnt s)"

definition boot_tasks :: "boot_env \<Rightarrow> 'a kernel_state_scheme \<Rightarrow> 'a kernel_state_scheme result" where
  "boot_tasks e s =
     and_then (boot_task e 0x10 0x8 1 10 s) (\<lambda>s.
     and_then (boot_task e 0x23 0x1b 2 9 s) (\<lambda>s.
     and_then (boot_task e 0x23 0x1b 3 8 s) (\<lambda>s.
     and_then (boot_task e 0x23 0x1b 4 7 s) (\<lambda>s.
     and_then (boot_task e 0x23 0x1b 5 6 s)
       (boot_task e 0x23 0x1b 6 5)))))"

text \<open>After the \<open>memset\<close> of \<open>.bss\<close> and up to the loop at the end. \<open>asm ("movq %0, %%rsp" : "=r"(stack))\<close> has
  \<open>stack\<close> as an output: afterwards it holds what the register the compiler chose held, \<open>junk_stack\<close>.\<close>

definition bootMain ::
  "boot_env \<Rightarrow> bproto_t \<Rightarrow> mmapEntry_t list \<Rightarrow> 'a kernel_state_scheme \<Rightarrow> 'a kernel_state_scheme result"
where
  "bootMain e b mmap s =
     and_then (print_all (debug_args b) s) (\<lambda>s.
     and_then (print_mmap b mmap s) (\<lambda>s.
     and_then (boot_memory b mmap s) (\<lambda>(_, s).
     let stack = junk_stack e in
     and_then (boot_devices e b s) (\<lambda>s.
     and_then (createGenericTSS (fresh_tss e) stack s) (\<lambda>s.
     and_then (createNewGDT 0 (grabTSS 0 s) s) (\<lambda>s.
     and_then (idtInit (isr_address e) s) (\<lambda>s.
     and_then (drawBmp (e_fuel e) s) (\<lambda>s.
     and_then (initEthernet (e_fuel e) (fresh_nic e) (junk_device e) s) (\<lambda>s.
     and_then (lapicTimerInit (e_fuel e) 100 s) (\<lambda>s.
     and_then (initSMP (e_fuel e) (fresh_cpus e) (core_entry e) (idtr_address e) s) (\<lambda>s.
     and_then (schedulerInit (fresh_tasks e) s)
       (boot_tasks e))))))))))))"


section \<open>The memory at boot\<close>

text \<open>What the machine is like when the kernel starts: no memory counted, a memory map the bitmap covers, locks free.\<close>

definition machine_ok :: "bproto_t \<Rightarrow> mmapEntry_t list \<Rightarrow> 'a vmm_state_scheme \<Rightarrow> bool" where
  "machine_ok b mmap s \<longleftrightarrow> console_ready s \<and> totalDetectedMemory s = 0 \<and> \<not> pageAllocLock s \<and>
     unat (mmapEntries b) \<le> length mmap \<and> mmap_fits mmap (8 * length (bitmap s)) \<and> 0x120 \<le> 8 * length (bitmap s) \<and>
     unat (sum_list (map e_length (take (unat (mmapEntries b)) mmap))) div 4096 \<le> 8 * length (bitmap s) \<and>
     length (kbitmap s) = 4096 \<and> length (allocationBitmap s) = 16384"

definition boot_used :: "bproto_t \<Rightarrow> mmapEntry_t list \<Rightarrow> 'a vmm_state_scheme \<Rightarrow> nat set" where
  "boot_used b mmap s = bits (bitmap s) \<union> reserved (take (unat (mmapEntries b)) mmap) \<union> {..<0x120}"

definition boot_pages :: "bproto_t \<Rightarrow> mmapEntry_t list \<Rightarrow> nat" where
  "boot_pages b mmap = unat (sum_list (map e_length (take (unat (mmapEntries b)) mmap))) div 4096"

lemma heap_of_more:
  fixes s s' :: "'a heap_state_scheme"
  shows "pmm_state.more s' = pmm_state.more s \<Longrightarrow>
    kbitmap s' = kbitmap s \<and> allocationBitmap s' = allocationBitmap s"
  by (cases s, cases s') simp

lemma initPMM_boot:
  assumes "machine_ok b mmap s"
  shows "holds (initPMM b mmap s) (\<lambda>s'. page_runs_ok s' [] \<and> console_ready s' \<and> bits (bitmap s') = boot_used b mmap s \<and>
    npages s' = boot_pages b mmap \<and> length (kbitmap s') = 4096 \<and> length (allocationBitmap s') = 16384)"
proof -
  have "holds (initPMM b mmap s) (\<lambda>s'. length (bitmap s') = length (bitmap s) \<and> bits (bitmap s') = boot_used b mmap s \<and>
      totalDetectedMemory s' = sum_list (map e_length (take (unat (mmapEntries b)) mmap)) \<and>
      pageAllocLock s' = pageAllocLock s \<and> console_ready s' \<and> pmm_state.more s' = pmm_state.more s)"
    unfolding boot_used_def by (rule initPMM_holds) (use assms in \<open>simp_all add: machine_ok_def\<close>)
  then show ?thesis
    by (rule holds_mono)
       (use assms in \<open>auto simp: machine_ok_def page_runs_ok_def runs_marked_def pmm_ok_def npages_def boot_pages_def
          unat_div boot_used_def dest: heap_of_more\<close>)
qed

lemma empty_heap:
  assumes "heap_ok s" and "bits (kbitmap s) = {}"
  shows "\<not> {..<32768} \<subseteq> bits (kbitmap s)" and "\<exists>e \<in> set (allocationBitmap s). a_size e = 0"
proof -
  show "\<not> {..<32768} \<subseteq> bits (kbitmap s)" using assms(2) by (simp add: lessThan_empty_iff)
  have "table_blocks (allocationBitmap s) = {}" "length (allocationBitmap s) = 16384"
    using assms by (auto simp: heap_ok_def table_ok_def)
  moreover from this(2) obtain e where e: "e \<in> set (allocationBitmap s)" by (cases "allocationBitmap s") auto
  ultimately have "entry_blocks e = {}" by (auto simp: table_blocks_def)
  then have "a_size e = 0" by (simp add: entry_blocks_def word_unat_eq_iff)
  with e show "\<exists>e \<in> set (allocationBitmap s). a_size e = 0" by blast
qed

lemma boot_heap_holds:
  assumes "machine_ok b mmap s"
    and f0: "f0 = first_fit (boot_used b mmap s) (boot_pages b mmap) 4" "u0 = boot_used b mmap s \<union> run_pages f0 4"
    and f1: "f1 = first_fit u0 (boot_pages b mmap) 0x100" "u1 = u0 \<union> run_pages f1 0x100"
    and f2: "f2 = first_fit u1 (boot_pages b mmap) 1" "u2 = u1 \<union> run_pages f2 1"
    and f3: "f3 = first_fit u2 (boot_pages b mmap) 16"
  shows "holds (boot_heap b mmap s) (\<lambda>(stack, s'). heap_ok s' \<and> bits (kbitmap s') = {} \<and> console_ready s' \<and>
    stack = run_address f0 + 0x4000 + KERNEL_HIGH_VMA \<and> kHeapBegin s' = run_address f1 \<and>
    kbitmapAddr s' = run_address f2 + HIGH_VMA \<and> allocationBitmapAddr s' = run_address f3 + HIGH_VMA)"
  unfolding boot_heap_def
proof (rule holds_bind[OF initPMM_boot[OF assms(1)]], elim conjE, goal_cases)
  case (1 s1)
  have f: "f0 = first_fit (bits (bitmap s1)) (npages s1) (unat (4 :: u64))" using 1 by (simp add: f0)
  show ?case
  proof (rule alloc_step[OF 1(1) f], unfold prod.case Let_def)
    fix bm
    assume ok: "page_runs_ok (s1\<lparr>bitmap := bm\<rparr>) []" and used: "bits bm = bits (bitmap s1) \<union> run_pages f0 (unat (4 :: u64))"
    have "holds (kHeapInit (s1\<lparr>bitmap := bm\<rparr>)) (\<lambda>s'. heap_ok s' \<and> bits (kbitmap s') = {} \<and> console_ready s' \<and>
      kHeapBegin s' = run_address f1 \<and> kbitmapAddr s' = run_address f2 + HIGH_VMA \<and>
      allocationBitmapAddr s' = run_address f3 + HIGH_VMA \<and> bits (bitmap s') = u2 \<union> run_pages f3 16)"
      by (rule kHeapInit_holds[OF ok, where ?u1.0 = u1])
        (use 1 used in \<open>simp_all add: console_ready_def f0 f1 f2 f3\<close>)
    then show "holds (and_then (kHeapInit (s1\<lparr>bitmap := bm\<rparr>))
        (\<lambda>s. Inr (run_address f0 + 0x4000 + KERNEL_HIGH_VMA, s))) (\<lambda>(stack, s'). heap_ok s' \<and> bits (kbitmap s') = {} \<and> console_ready s' \<and>
      stack = run_address f0 + 0x4000 + KERNEL_HIGH_VMA \<and> kHeapBegin s' = run_address f1 \<and>
      kbitmapAddr s' = run_address f2 + HIGH_VMA \<and> allocationBitmapAddr s' = run_address f3 + HIGH_VMA)"
      by (rule holds_bind) simp
  qed
qed

lemma first_block:
  fixes s :: "'a heap_state_scheme"
  assumes "heap_ok s" and "bits (kbitmap s) = {}" and "kmalloc 4000 s = Inr (a, s')"
  shows "a = kHeapBegin s + HIGH_VMA"
proof -
  have n: "unat (ROUNDUP 4000 32) = 125" by (simp add: ROUNDUP_def)
  have fit: "first_fit (bits (kbitmap s)) 32768 (unat (ROUNDUP 4000 32)) = Some 0"
    by (simp add: assms(2) n first_fit_empty)
  have "kmalloc 4000 s = kmalloc_take 0 (ROUNDUP 4000 32) s"
    using kmalloc_eq[OF assms(1) empty_heap(1)[OF assms(1,2)], of 4000] unfolding fit by simp
  then have "holds (kmalloc 4000 s) (took 0 125 s)"
    using kmalloc_take_holds[OF assms(1) empty_heap(2)[OF assms(1,2)] fit] by (simp add: n)
  then show ?thesis using assms(3) by (auto simp: took_def block_addr_def elim!: holdsE)
qed

text \<open>Where the memory goes when nothing but the first 0x120 pages is reserved or marked up to the end of the heap's table:
  the stack, the heap, its bitmap and its table one after the other.\<close>

lemma boot_runs:
  assumes "{0x120..<0x235} \<inter> (bits (bitmap s) \<union> reserved (take (unat (mmapEntries b)) mmap)) = {}"
    and "0x235 \<le> boot_pages b mmap"
  shows "first_fit (boot_used b mmap s) (boot_pages b mmap) 4 = Some 0x120"
    "first_fit (boot_used b mmap s \<union> {0x120..<0x124}) (boot_pages b mmap) 0x100 = Some 0x124"
    "first_fit (boot_used b mmap s \<union> {0x120..<0x124} \<union> {0x124..<0x224}) (boot_pages b mmap) 1 = Some 0x224"
    "first_fit (boot_used b mmap s \<union> {0x120..<0x124} \<union> {0x124..<0x224} \<union> {0x224..<0x225}) (boot_pages b mmap) 16 = Some 0x225"
proof -
  let ?u = "boot_used b mmap s"
  have low: "{..<0x120} \<subseteq> ?u" and free: "\<And>k. 0x120 \<le> k \<Longrightarrow> k < 0x235 \<Longrightarrow> k \<notin> ?u"
    using assms(1) by (auto simp: boot_used_def)
  have run: "first_fit (?u \<union> v) (boot_pages b mmap) c = Some p"
    if v: "{0x120..<p} \<subseteq> v" "v \<subseteq> {..<p}" and p: "0x120 \<le> p" "p + c \<le> 0x235" "0 < c" for v p c
  proof (rule first_fit_least)
    show "run_free (?u \<union> v) (boot_pages b mmap) c p"
      unfolding run_free_def
    proof (intro conjI ballI)
      show "k \<notin> ?u \<union> v" if "k \<in> {p..<p + c}" for k
      proof -
        have "p \<le> k" "k < p + c" using that by simp_all
        then have "k \<notin> ?u" "k \<notin> v" using free[of k] v(2) p(1,2) by auto
        then show ?thesis by blast
      qed
    qed (use p assms(2) in linarith)+
    show "{..<p} \<subseteq> ?u \<union> v"
    proof
      fix k assume "k \<in> {..<p}"
      then have "k \<in> {..<0x120} \<or> k \<in> {0x120..<p}" by auto
      then show "k \<in> ?u \<union> v" using low v(1) by blast
    qed
  qed
  show "first_fit ?u (boot_pages b mmap) 4 = Some 0x120" using run[of "0x120" "{}" 4] by simp
  show "first_fit (?u \<union> {0x120..<0x124}) (boot_pages b mmap) 0x100 = Some 0x124" by (rule run) auto
  show "first_fit (?u \<union> {0x120..<0x124} \<union> {0x124..<0x224}) (boot_pages b mmap) 1 = Some 0x224"
    unfolding Un_assoc by (rule run) auto
  show "first_fit (?u \<union> {0x120..<0x124} \<union> {0x124..<0x224} \<union> {0x224..<0x225}) (boot_pages b mmap) 16 = Some 0x225"
    unfolding Un_assoc by (rule run) auto
qed

text \<open>
  C7: on a machine with the usual memory, nothing reserved or marked from \<open>0x120000\<close> to \<open>0x235000\<close> and that much memory at
  least, the start of the memory managers returns. Its four allocations succeed and follow each other: the stack from
  \<open>0x120000\<close>, the heap from \<open>0x124000\<close>, its bitmap at \<open>0x224000\<close> and its table from \<open>0x225000\<close>, so that none of the memory
  written here, the table of address spaces in the first 4 KiB of the heap included, lies in the kernel's page tables, which
  \<open>initVMM\<close> builds at the fixed addresses \<open>0x200000\<close> to \<open>0x208000\<close>. At the end those are in force: the first 4 GiB at their own
  addresses and at \<open>HIGH_VMA\<close>, the first GiB at \<open>KERNEL_HIGH_VMA\<close>. On other machines an allocation may fail, or
  end up in the page tables; the code checks neither, and nothing is said.
\<close>

theorem boot_memory_maps:
  assumes "machine_ok b mmap s" and "{0x120..<0x235} \<inter> (bits (bitmap s) \<union> reserved (take (unat (mmapEntries b)) mmap)) = {}"
    and "0x235 \<le> boot_pages b mmap"
  shows "\<exists>stack s'. boot_memory b mmap s = Inr (stack, s') \<and> cr3 s' = kpml4Addr \<and>
    (\<forall>p. unat p < 2 ^ 32 \<longrightarrow>
       walk (mem s') (cr3 s') p = Some (7, p) \<and> walk (mem s') (cr3 s') (HIGH_VMA + p) = Some (7, p)) \<and>
    (\<forall>p. unat p < 2 ^ 30 \<longrightarrow> walk (mem s') (cr3 s') (KERNEL_HIGH_VMA + p) = Some (7, p)) \<and>
    stack = 0x120000 + 0x4000 + KERNEL_HIGH_VMA \<and> kHeapBegin s' = 0x124000 \<and>
    kbitmapAddr s' = 0x224000 + HIGH_VMA \<and> allocationBitmapAddr s' = 0x225000 + HIGH_VMA \<and>
    pageDirectoryAddr s' = 0x124000 + HIGH_VMA"
proof -
  have heap: "holds (boot_heap b mmap s) (\<lambda>(stack, s'). heap_ok s' \<and> bits (kbitmap s') = {} \<and> console_ready s' \<and>
      stack = 0x120000 + 0x4000 + KERNEL_HIGH_VMA \<and> kHeapBegin s' = 0x124000 \<and>
      kbitmapAddr s' = 0x224000 + HIGH_VMA \<and> allocationBitmapAddr s' = 0x225000 + HIGH_VMA)"
    by (rule holds_mono[OF boot_heap_holds[OF assms(1) refl refl refl refl refl refl refl]])
      (auto simp: boot_runs[OF assms(2,3), simplified])
  have "holds (boot_memory b mmap s) (\<lambda>(stack, s'). cr3 s' = kpml4Addr \<and> kernel_map (mem s') (cr3 s') \<and>
      stack = 0x120000 + 0x4000 + KERNEL_HIGH_VMA \<and> kHeapBegin s' = 0x124000 \<and>
      kbitmapAddr s' = 0x224000 + HIGH_VMA \<and> allocationBitmapAddr s' = 0x225000 + HIGH_VMA \<and>
      pageDirectoryAddr s' = 0x124000 + HIGH_VMA)"
    unfolding boot_memory_def
  proof (rule holds_bind[OF heap], clarify, goal_cases)
    case (1 stack s1)
    have "a = 0x124000 + HIGH_VMA" if "kmalloc 4000 s1 = Inr (a, s2)" for a s2
      using first_block[OF 1(1,2) that] 1(4) by simp
    then show ?case
      by (intro holds_bind[OF initVMM_holds[OF 1(1,3) empty_heap[OF 1(1,2)]]]) (use 1 in auto)
  qed
  then show ?thesis by (rule holdsE) (auto simp: kernel_map_def)
qed

text \<open>
  C32: on a machine with the usual memory, nothing reserved or marked from \<open>0x120000\<close> to \<open>0x224000\<close>, the heap is
  the memory from \<open>0x124000\<close> on, 1 MiB. The kernel's page tables, whose addresses \<open>0x200000\<close> to \<open>0x208000\<close> are
  fixed and never reserved, lie inside it: a block \<open>kmalloc\<close> hands out there is a page table in force.
\<close>

theorem boot_heap_holds_tables:
  assumes "machine_ok b mmap s" and "{0x120..<0x224} \<inter> (bits (bitmap s) \<union> reserved (take (unat (mmapEntries b)) mmap)) = {}"
    and "0x224 \<le> boot_pages b mmap"
  shows "\<exists>stack s'. boot_heap b mmap s = Inr (stack, s') \<and> kHeapBegin s' = 0x124000 \<and>
    unat (kHeapBegin s') < unat kpml4Addr \<and> unat kpml3AddrHH + 0x1000 < unat (kHeapBegin s') + 0x100 * 0x1000"
proof -
  let ?u = "boot_used b mmap s"
  have u: "{..<0x120} \<subseteq> ?u" "\<And>k. 0x120 \<le> k \<Longrightarrow> k < 0x224 \<Longrightarrow> k \<notin> ?u"
    using assms(2) by (auto simp: boot_used_def)
  have 1: "first_fit ?u (boot_pages b mmap) 4 = Some 0x120"
    by (rule first_fit_least) (use u assms(3) in \<open>auto simp: run_free_def\<close>)
  have low: "{..<0x124} \<subseteq> ?u \<union> {0x120..<0x120 + 4}" using u(1) by auto
  have 2: "first_fit (?u \<union> {0x120..<0x120 + 4}) (boot_pages b mmap) 0x100 = Some 0x124"
    by (rule first_fit_least) (use u assms(3) low in \<open>auto simp: run_free_def\<close>)
  have "holds (boot_heap b mmap s) (\<lambda>(stack, s'). kHeapBegin s' = 0x124000)"
    by (rule holds_mono[OF boot_heap_holds[OF assms(1) refl refl refl refl refl refl refl]])
      (auto simp: 1 2[simplified])
  then show ?thesis by (rule holdsE) (auto simp: kpml_defs)
qed

lemma syscallLock_free: "\<not> syscallLock t \<Longrightarrow> t\<lparr>syscallLock := False\<rparr> = t" for t :: "'a int_state_scheme"
  by (cases t) simp

text \<open>
  The system calls of the tasks, with the handlers of \<open>idtInit\<close>: \<open>task3\<close>, \<open>task4\<close> and \<open>task6\<close> are acknowledged
  at the local APIC and change nothing else; \<open>task5\<close> asks for a new thread whenever \<open>rcx\<close> happens to be 0, of the task
  and at the address that \<open>rdx\<close> and \<open>rbx\<close> happen to hold.
\<close>

theorem task_calls:
  assumes "handlers_set s" and "\<not> syscallLock s"
  shows "task3 fresh junk regs s = Inr (Return, lapicWrite LAPIC_EOI 0 s) \<and>
    task4 fresh junk regs s = Inr (Return, lapicWrite LAPIC_EOI 0 s) \<and>
    task6 fresh junk regs s = Inr (Return, lapicWrite LAPIC_EOI 0 s) \<and>
    task5 fresh junk regs s =
      (if rcx regs = 0 then
         and_then (createThread fresh junk (rdx regs) (rbx regs) ((lapicWrite LAPIC_EOI 0 s)\<lparr>syscallLock := True\<rparr>))
           (\<lambda>s'. Inr (Return, s'\<lparr>syscallLock := False\<rparr>))
       else Inr (Return, lapicWrite LAPIC_EOI 0 s))"
proof -
  have call: "task_call fresh junk n regs s =
      and_then (syscallMain fresh junk (regs\<lparr>rax := n, isrNumber := 0x69, errorCode := 0\<rparr>) (eoi s)) (\<lambda>s'. Inr (Return, s'))" for n
    using isrHandlerMain_eq[OF assms(1), of "regs\<lparr>rax := n, isrNumber := 0x69, errorCode := 0\<rparr>"]
    by (simp add: task_call_def)
  have same: "(eoi s)\<lparr>syscallLock := False\<rparr> = eoi s" using assms(2) by (simp add: syscallLock_free)
  have lock: "\<not> syscallLock (eoi s)" using assms(2) by simp
  show ?thesis
    unfolding task3_def task4_def task5_def task6_def call eoi_def[symmetric]
    using lock same by (simp add: syscallMain_def syscall_numbers spinRelease_def and_then_assoc)
qed

section \<open>Witnesses\<close>

text \<open>A machine with 6 MiB of memory and a bitmap for a little more.\<close>

definition example_machine :: vmm_state where
  "example_machine = example_vmm\<lparr>bitmap := replicate 200 0, totalDetectedMemory := 0,
     kbitmap := replicate 4096 0, allocationBitmap := replicate 16384 \<lparr>a_block = 0, a_size = 0\<rparr>\<rparr>"

definition example_boot :: bproto_t where
  "example_boot = example_mode\<lparr>mmapEntries := 1\<rparr>"

definition example_map :: "mmapEntry_t list" where
  "example_map = [\<lparr>e_base = 0, e_length = 0x600000, e_type = 1, e_unused = 0\<rparr>]"

lemma example_machine_ok: "machine_ok example_boot example_map example_machine"
  by (simp add: machine_ok_def example_machine_def example_boot_def example_mode_def example_map_def mmap_fits_def
      console_ready_def example_vmm_def example_space_def)

lemma example_machine_memory:
  "bits (bitmap example_machine) \<union> reserved (take (unat (mmapEntries example_boot)) example_map) = {}"
  "boot_pages example_boot example_map = 0x600"
proof -
  have "bits (bitmap example_machine) = {}"
    by (auto simp: example_machine_def in_bits_iff)
  moreover have "reserved (take (unat (mmapEntries example_boot)) example_map) = {}"
    by (simp add: reserved_def example_boot_def example_mode_def example_map_def)
  ultimately show "bits (bitmap example_machine) \<union> reserved (take (unat (mmapEntries example_boot)) example_map) = {}"
    by simp
  show "boot_pages example_boot example_map = 0x600"
    by (simp add: boot_pages_def example_boot_def example_mode_def example_map_def)
qed

theorem boot_memory_maps_witness:
  "\<exists>stack s'. boot_memory example_boot example_map example_machine = Inr (stack, s') \<and>
    walk (mem s') (cr3 s') (HIGH_VMA + 0x12345678) = Some (7, 0x12345678) \<and> stack = 0x124000 + KERNEL_HIGH_VMA \<and>
    kbitmapAddr s' = 0x224000 + HIGH_VMA"
proof -
  obtain stack s' where s': "boot_memory example_boot example_map example_machine = Inr (stack, s')"
    "\<And>p. unat p < 2 ^ 32 \<Longrightarrow> walk (mem s') (cr3 s') (HIGH_VMA + p) = Some (7, p)"
    "stack = 0x124000 + KERNEL_HIGH_VMA" "kbitmapAddr s' = 0x224000 + HIGH_VMA"
    using boot_memory_maps[OF example_machine_ok] example_machine_memory by auto
  then show ?thesis using s'(2)[of "0x12345678"] by simp
qed

theorem boot_heap_holds_tables_witness:
  "\<exists>stack s'. boot_heap example_boot example_map example_machine = Inr (stack, s') \<and> kHeapBegin s' = 0x124000 \<and>
    unat (kHeapBegin s') < unat kpml4Addr"
  using boot_heap_holds_tables[OF example_machine_ok] example_machine_memory by auto

theorem task_calls_witness:
  "\<forall>fresh junk regs. task3 fresh junk regs example_int = Inr (Return, lapicWrite LAPIC_EOI 0 example_int)"
  using task_calls[of example_int] by (simp add: handlers_set_def example_int_def apic_state.defs)

end
