(* ===== verification/Assembly.thy ===== *)
theory Assembly
  imports Boot
begin

text \<open>
  The assembly of the kernel: the interrupt stubs (\<^verbatim>\<open>kernel/int/isr.asm\<close>), \<open>startTask\<close> and \<open>switchTask\<close>
  (\<^verbatim>\<open>kernel/sched/scheduler.asm\<close>), the loading of the descriptor tables (\<^verbatim>\<open>kernel/int/gdt.asm\<close>) and the system calls of
  the user library (\<^verbatim>\<open>lib/libu/syscalls.asm\<close>), as lists of instructions that \<open>exec\<close> runs on the registers
  of a core. \<open>deliver\<close> is what the processor does when an interrupt is taken. The lemmas connect
  the registers of the core with the \<open>regs_t\<close> the C functions work on, so that the theorems speak of both sides:
  what \<open>isrHandlerMain\<close> and \<open>schedulerMain\<close> are given, and what the resumption of a task restores.
\<close>

section \<open>The processor\<close>

datatype gpr =
    RAX | RBX | RCX | RDX | RBP | RDI | RSI | R8 | R9 | R10 | R11 | R12 | R13 | R14 | R15 | RSP

datatype sreg = CS | DS | ES | FS | GS | SS

instantiation gpr :: enum
begin

definition "enum_gpr = [RAX, RBX, RCX, RDX, RBP, RDI, RSI, R8, R9, R10, R11, R12, R13, R14, R15, RSP]"
definition "enum_all_gpr P \<longleftrightarrow> list_all P [RAX, RBX, RCX, RDX, RBP, RDI, RSI, R8, R9, R10, R11, R12, R13, R14, R15, RSP]"
definition "enum_ex_gpr P \<longleftrightarrow> list_ex P [RAX, RBX, RCX, RDX, RBP, RDI, RSI, R8, R9, R10, R11, R12, R13, R14, R15, RSP]"

instance
proof
  have all: "(UNIV :: gpr set) = {RAX, RBX, RCX, RDX, RBP, RDI, RSI, R8, R9, R10, R11, R12, R13, R14, R15, RSP}"
    using gpr.exhaust by blast
  show "(UNIV :: gpr set) = set enum_class.enum" by (simp add: all enum_gpr_def)
  show "distinct (enum_class.enum :: gpr list)" by (simp add: enum_gpr_def)
  show "enum_class.enum_all P \<longleftrightarrow> Ball UNIV P" for P :: "gpr \<Rightarrow> bool" by (simp add: all enum_all_gpr_def)
  show "enum_class.enum_ex P \<longleftrightarrow> Bex UNIV P" for P :: "gpr \<Rightarrow> bool" by (simp add: all enum_ex_gpr_def)
qed

end

text \<open>\<open>quad a\<close> is the aligned quadword of memory at the address \<open>a\<close>. \<open>pc\<close> is given where control is
  transferred; it does not follow the instructions in between.\<close>

record cpu =
  reg :: "gpr \<Rightarrow> u64"
  seg :: "sreg \<Rightarrow> u16"
  eflags :: u64
  pc :: u64
  quad :: "u64 \<Rightarrow> u64"
  gdt_operand :: u64
  task_register :: u16

definition IF_FLAG :: u64 where "IF_FLAG = 0x200"

text \<open>Trap, nested task, resume and virtual 8086 flag: a gate clears them.\<close>

definition GATE_CLEARED :: u64 where "GATE_CLEARED = 0x100 OR 0x4000 OR 0x10000 OR 0x20000"

definition interrupts_on :: "cpu \<Rightarrow> bool" where
  "interrupts_on c \<longleftrightarrow> eflags c AND IF_FLAG \<noteq> 0"

definition privilege :: "u16 \<Rightarrow> u16" where
  "privilege s = s AND 3"

datatype instr =
    Push gpr
  | PushImm u64
  | PushSeg sreg
  | PushFlags
  | Pop gpr
  | Mov gpr gpr
  | MovImm gpr u64
  | MovAx u16
  | MovSeg sreg gpr
  | Xor gpr gpr
  | AddImm gpr u64
  | Cli
  | Sti
  | IretQ
  | Trap nat
  | Ret
  | Lgdt gpr
  | Ltr gpr

text \<open>What depends on the processor or on the rest of the system: which selectors a return to user
  mode clears from \<open>DS\<close>, \<open>ES\<close>, \<open>FS\<close>, \<open>GS\<close>, the status flags after an arithmetic instruction, and what a software
  interrupt does until it returns.\<close>

record machine =
  clears :: "u16 \<Rightarrow> bool"
  status_flags :: "instr \<Rightarrow> cpu \<Rightarrow> u64"
  software_interrupt :: "nat \<Rightarrow> cpu \<Rightarrow> cpu"

definition push :: "u64 \<Rightarrow> cpu \<Rightarrow> cpu" where
  "push v c = c\<lparr>reg := (reg c)(RSP := reg c RSP - 8), quad := (quad c)(reg c RSP - 8 := v)\<rparr>"

text \<open>The segment registers after a return to the code segment \<open>cs\<close>.\<close>

definition returned :: "machine \<Rightarrow> u16 \<Rightarrow> u16 \<Rightarrow> (sreg \<Rightarrow> u16) \<Rightarrow> sreg \<Rightarrow> u16" where
  "returned m cs ss f = (\<lambda>s. case s of CS \<Rightarrow> cs | SS \<Rightarrow> ss
     | s \<Rightarrow> if privilege (f CS) < privilege cs \<and> clears m (f s) then 0 else f s)"

fun exec :: "machine \<Rightarrow> instr \<Rightarrow> cpu \<Rightarrow> cpu" where
  "exec m (Push r) c = push (reg c r) c"
| "exec m (PushImm v) c = push v c"
| "exec m (PushSeg s) c = push (ucast (seg c s)) c"
| "exec m PushFlags c = push (eflags c) c"
| "exec m (Pop r) c = c\<lparr>reg := (reg c)(RSP := reg c RSP + 8, r := quad c (reg c RSP))\<rparr>"
| "exec m (Mov r q) c = c\<lparr>reg := (reg c)(r := reg c q)\<rparr>"
| "exec m (MovImm r v) c = c\<lparr>reg := (reg c)(r := v)\<rparr>"
| "exec m (MovAx v) c = c\<lparr>reg := (reg c)(RAX := reg c RAX AND NOT 0xffff OR ucast v)\<rparr>"
| "exec m (MovSeg s r) c = c\<lparr>seg := (seg c)(s := ucast (reg c r))\<rparr>"
| "exec m (Xor r q) c = c\<lparr>reg := (reg c)(r := reg c r XOR reg c q), eflags := status_flags m (Xor r q) c\<rparr>"
| "exec m (AddImm r v) c = c\<lparr>reg := (reg c)(r := reg c r + v), eflags := status_flags m (AddImm r v) c\<rparr>"
| "exec m Cli c = c\<lparr>eflags := eflags c AND NOT IF_FLAG\<rparr>"
| "exec m Sti c = c\<lparr>eflags := eflags c OR IF_FLAG\<rparr>"
| "exec m IretQ c =
     (let a = reg c RSP in
      c\<lparr>pc := quad c a, seg := returned m (ucast (quad c (a + 8))) (ucast (quad c (a + 32))) (seg c),
        eflags := quad c (a + 16), reg := (reg c)(RSP := quad c (a + 24))\<rparr>)"
| "exec m (Trap v) c = software_interrupt m v c"
| "exec m Ret c = c\<lparr>reg := (reg c)(RSP := reg c RSP + 8), pc := quad c (reg c RSP)\<rparr>"
| "exec m (Lgdt r) c = c\<lparr>gdt_operand := reg c r\<rparr>"
| "exec m (Ltr r) c = c\<lparr>task_register := ucast (reg c r)\<rparr>"

definition run :: "machine \<Rightarrow> instr list \<Rightarrow> cpu \<Rightarrow> cpu" where
  "run m = fold (exec m)"

lemma run_simps [simp]:
  "run m [] c = c" "run m (i # is) c = run m is (exec m i c)" "run m (is @ js) c = run m js (run m is c)"
  by (simp_all add: run_def)

text \<open>The flags behind the gate \<open>g\<close>: only an interrupt gate (type 14) switches the interrupts off.\<close>

definition gate_flags :: "idtEntry_t \<Rightarrow> u64 \<Rightarrow> u64" where
  "gate_flags g f = f AND NOT (GATE_CLEARED OR (if gate_type g = 14 then IF_FLAG else 0))"

text \<open>An interrupt through the gate \<open>g\<close>: the stack of the task state segment if it comes from user
  mode, aligned, and on it what \<open>iretq\<close> takes off again, with an error code for some exceptions.\<close>

definition deliver :: "u64 \<Rightarrow> idtEntry_t \<Rightarrow> u64 option \<Rightarrow> cpu \<Rightarrow> cpu" where
  "deliver kstack g err c =
     (let user = privilege (seg c CS) \<noteq> 0;
          top = (if user then kstack else reg c RSP) AND NOT 0xf;
          d = fold push [ucast (seg c SS), reg c RSP, eflags c, ucast (seg c CS), pc c]
                (c\<lparr>reg := (reg c)(RSP := top)\<rparr>);
          d = (case err of None \<Rightarrow> d | Some e \<Rightarrow> push e d) in
      d\<lparr>seg := (seg c)(CS := selector g, SS := if user then 0 else seg c SS),
        eflags := gate_flags g (eflags c),
        pc := gate_offset g\<rparr>)"

section \<open>The sources\<close>

definition pushall :: "instr list" where
  "pushall = [Push RAX, Push RBX, Push RCX, Push RDX, Push RBP, Push RDI, Push RSI, Push R8, Push R9,
     Push R10, Push R11, Push R12, Push R13, Push R14, Push R15]"

definition popall :: "instr list" where
  "popall = [Pop R15, Pop R14, Pop R13, Pop R12, Pop R11, Pop R10, Pop R9, Pop R8, Pop RSI, Pop RDI,
     Pop RBP, Pop RDX, Pop RCX, Pop RBX, Pop RAX]"

fun stub :: "isr_symbol \<Rightarrow> instr list" where
  "stub (Isr n) = [PushImm 0, PushImm (of_nat n), PushSeg FS]"
| "stub (ErrorIsr n) = [PushImm (of_nat n), PushSeg FS]"

text \<open>\<open>isrHandler\<close> up to the call of \<open>isrHandlerMain\<close>, and from its return on.\<close>

definition isrHandler_before :: "instr list" where
  "isrHandler_before = [Cli] @ pushall @ [Mov RDI RSP]"

definition isrHandler_after :: "instr list" where
  "isrHandler_after = popall @ [AddImm RSP 24, Sti, IretQ]"

definition startTask :: "instr list" where
  "startTask = [MovSeg DS RDI, MovSeg ES RDI, MovSeg GS RDI, Sti, Push RDI, Push RSI, PushFlags,
     Push RDX, Push RCX, IretQ]"

definition switchTask :: "instr list" where
  "switchTask = [MovSeg DS RSI, MovSeg ES RSI, MovSeg GS RSI, Sti, Mov RSP RDI] @ popall @
     [AddImm RSP 24, IretQ]"

definition printSerial_code :: "instr list" where
  "printSerial_code = [Push RAX, Push RCX, Push RDX, Xor RAX RAX, Xor RCX RCX, Mov RDX RDI, Trap 0x69,
     Pop RDX, Pop RCX, Pop RAX, Ret]"

definition pthread_code :: "instr list" where
  "pthread_code = [Push RAX, Push RCX, Push RDX, Push RBX, MovImm RAX 2, Xor RCX RCX, Mov RDX RDI, Mov RBX RSI,
     Trap 0x69, Pop RBX, Pop RDX, Pop RCX, Pop RAX, Ret]"

definition lgdt_code :: "u64 \<Rightarrow> instr list" where
  "lgdt_code entryPt = [Lgdt RDI, Push RBP, Mov RBP RSP, PushImm 0x10, Push RBP, PushFlags, PushImm 8,
     PushImm entryPt, IretQ, Pop RBP, MovAx 0x10, MovSeg DS RAX, MovSeg ES RAX, MovSeg GS RAX, MovSeg SS RAX,
     MovAx 0x28, Ltr RAX, Ret]"

text \<open>From the interrupt to the call of \<open>isrHandlerMain\<close>.\<close>

definition enter :: "machine \<Rightarrow> u64 \<Rightarrow> idtEntry_t \<Rightarrow> isr_symbol \<Rightarrow> u64 option \<Rightarrow> cpu \<Rightarrow> cpu" where
  "enter m kstack g s err c = run m (stub s @ isrHandler_before) (deliver kstack g err c)"

text \<open>The whole interrupt, \<open>call\<close> being the call of \<open>isrHandlerMain\<close>.\<close>

definition interrupt ::
  "machine \<Rightarrow> u64 \<Rightarrow> idtEntry_t \<Rightarrow> isr_symbol \<Rightarrow> u64 option \<Rightarrow> (cpu \<Rightarrow> cpu) \<Rightarrow> cpu \<Rightarrow> cpu"
where
  "interrupt m kstack g s err call c = run m isrHandler_after (call (enter m kstack g s err c))"

section \<open>Blocks of memory and \<open>regs_t\<close>\<close>

primrec write_block :: "u64 \<Rightarrow> u64 list \<Rightarrow> (u64 \<Rightarrow> u64) \<Rightarrow> u64 \<Rightarrow> u64" where
  "write_block a [] q = q"
| "write_block a (v # vs) q = (write_block (a + 8) vs q)(a := v)"

text \<open>The members of the structure in memory, in the order of \<open>asmUtils.h\<close>.\<close>

definition regs_list :: "regs_t \<Rightarrow> u64 list" where
  "regs_list r = [r15 r, r14 r, r13 r, r12 r, r11 r, r10 r, r9 r, r8 r, rsi r, rdi r, rbp r, rdx r, rcx r,
     rbx r, rax r, r_core r, isrNumber r, errorCode r, rip r, r_cs r, rflags r, rsp r, r_ss r]"

text \<open>The structure a pointer \<open>regs_t *\<close> points to.\<close>

definition regs_at :: "(u64 \<Rightarrow> u64) \<Rightarrow> u64 \<Rightarrow> regs_t" where
  "regs_at q a = \<lparr>r15 = q a, r14 = q (a + 8), r13 = q (a + 16), r12 = q (a + 24), r11 = q (a + 32),
     r10 = q (a + 40), r9 = q (a + 48), r8 = q (a + 56), rsi = q (a + 64), rdi = q (a + 72), rbp = q (a + 80),
     rdx = q (a + 88), rcx = q (a + 96), rbx = q (a + 104), rax = q (a + 112), r_core = q (a + 120),
     isrNumber = q (a + 128), errorCode = q (a + 136), rip = q (a + 144), r_cs = q (a + 152),
     rflags = q (a + 160), rsp = q (a + 168), r_ss = q (a + 176)\<rparr>"

text \<open>The structure with the registers of a core, the number of a stub and an error code.\<close>

definition regs_of :: "cpu \<Rightarrow> u64 \<Rightarrow> u64 \<Rightarrow> regs_t" where
  "regs_of c n e = \<lparr>r15 = reg c R15, r14 = reg c R14, r13 = reg c R13, r12 = reg c R12, r11 = reg c R11,
     r10 = reg c R10, r9 = reg c R9, r8 = reg c R8, rsi = reg c RSI, rdi = reg c RDI, rbp = reg c RBP,
     rdx = reg c RDX, rcx = reg c RCX, rbx = reg c RBX, rax = reg c RAX, r_core = ucast (seg c FS),
     isrNumber = n, errorCode = e, rip = pc c, r_cs = ucast (seg c CS), rflags = eflags c,
     rsp = reg c RSP, r_ss = ucast (seg c SS)\<rparr>"

fun gprs :: "regs_t \<Rightarrow> gpr \<Rightarrow> u64" where
  "gprs r RAX = rax r" | "gprs r RBX = rbx r" | "gprs r RCX = rcx r" | "gprs r RDX = rdx r"
| "gprs r RBP = rbp r" | "gprs r RDI = rdi r" | "gprs r RSI = rsi r" | "gprs r R8 = r8 r"
| "gprs r R9 = r9 r" | "gprs r R10 = r10 r" | "gprs r R11 = r11 r" | "gprs r R12 = r12 r"
| "gprs r R13 = r13 r" | "gprs r R14 = r14 r" | "gprs r R15 = r15 r" | "gprs r RSP = rsp r"

lemma gprs_regs_of [simp]: "gprs (regs_of c n e) = reg c"
  by (rule ext) (rename_tac x, case_tac x, simp_all add: regs_of_def)

lemma regs_of_simps [simp]:
  "r_core (regs_of c n e) = ucast (seg c FS)" "isrNumber (regs_of c n e) = n" "errorCode (regs_of c n e) = e"
  "rip (regs_of c n e) = pc c" "r_cs (regs_of c n e) = ucast (seg c CS)" "rflags (regs_of c n e) = eflags c"
  "rsp (regs_of c n e) = reg c RSP" "r_ss (regs_of c n e) = ucast (seg c SS)"
  by (simp_all add: regs_of_def)

text \<open>A selector survives in a quadword.\<close>

lemma ucast_selector [simp]: "ucast (ucast s :: u64) = s" for s :: u16
  by (rule bit_word_eqI) (auto simp: bit_simps)

text \<open>What the stub of an interrupt records as its number and error code.\<close>

fun stub_number :: "isr_symbol \<Rightarrow> u64" where
  "stub_number (Isr n) = of_nat n"
| "stub_number (ErrorIsr n) = of_nat n"

text \<open>The processor pushes an error code just for the stubs that expect one.\<close>

fun error_expected :: "isr_symbol \<Rightarrow> u64 option \<Rightarrow> bool" where
  "error_expected (Isr n) err \<longleftrightarrow> err = None"
| "error_expected (ErrorIsr n) err \<longleftrightarrow> err \<noteq> None"

definition error_code :: "u64 option \<Rightarrow> u64" where
  "error_code err = (case err of None \<Rightarrow> 0 | Some e \<Rightarrow> e)"

definition frame_top :: "u64 \<Rightarrow> cpu \<Rightarrow> u64" where
  "frame_top kstack c = (if privilege (seg c CS) \<noteq> 0 then kstack else reg c RSP) AND NOT 0xf"

lemma write_block_append:
  "write_block a (xs @ ys) q = write_block a xs (write_block (a + 8 * of_nat (length xs)) ys q)"
  by (induction xs arbitrary: a) (simp_all add: algebra_simps)

lemma fold_push:
  "fold push vs c = c\<lparr>reg := (reg c)(RSP := reg c RSP - 8 * of_nat (length vs)),
     quad := write_block (reg c RSP - 8 * of_nat (length vs)) (rev vs) (quad c)\<rparr>"
proof (induction vs arbitrary: c)
  case (Cons v vs)
  have "fold push (v # vs) c = fold push vs (push v c)" by simp
  also have "\<dots> = c\<lparr>reg := (reg c)(RSP := reg c RSP - 8 * of_nat (length (v # vs))),
     quad := write_block (reg c RSP - 8 * of_nat (length (v # vs))) (rev (v # vs)) (quad c)\<rparr>"
    unfolding Cons.IH by (simp add: push_def write_block_append algebra_simps)
  finally show ?case .
qed simp

lemma slot_neq:
  assumes "i < n" and "j < n" and "i \<noteq> j" and "n \<le> 2 ^ 61"
  shows "a + 8 * of_nat i \<noteq> a + 8 * (of_nat j :: u64)"
proof -
  have "unat (8 * of_nat k :: u64) = 8 * k" if "k < n" for k
    using that assms(4) unat_of_nat_u64 [of "8 * k"] by simp
  then show ?thesis using assms(1-3) by (metis add_left_cancel mult_left_cancel zero_neq_numeral)
qed

lemma write_block_nth:
  "i < length vs \<Longrightarrow> length vs \<le> 2 ^ 61 \<Longrightarrow> write_block a vs q (a + 8 * of_nat i) = vs ! i"
proof (induction vs arbitrary: a i)
  case (Cons v vs)
  show ?case
  proof (cases i)
    case (Suc j)
    have "a + 8 * of_nat (Suc j) \<noteq> a + 8 * (of_nat 0 :: u64)"
      by (rule slot_neq [of _ "length (v # vs)"]) (use Cons.prems Suc in auto)
    then show ?thesis
      using Cons.IH [of j "a + 8"] Cons.prems Suc by (simp add: algebra_simps)
  qed simp
qed simp

lemma write_block_other:
  "(\<And>i. i < length vs \<Longrightarrow> x \<noteq> a + 8 * of_nat i) \<Longrightarrow> write_block a vs q x = q x"
proof (induction vs arbitrary: a)
  case (Cons v vs)
  have "x \<noteq> a" using Cons.prems [of 0] by simp
  moreover have "x \<noteq> a + 8 + 8 * of_nat i" if "i < length vs" for i
    using Cons.prems [of "Suc i"] that by (simp add: algebra_simps)
  ultimately show ?case using Cons.IH [of "a + 8"] by simp
qed simp

lemma regs_at_list: "regs_at q a = r \<longleftrightarrow> (\<forall>i < 23. q (a + 8 * of_nat i) = regs_list r ! i)"
proof -
  have "(\<forall>i < 23. q (a + 8 * of_nat i) = regs_list r ! i) \<longleftrightarrow>
      (\<forall>i \<in> set [0..<23]. q (a + 8 * of_nat i) = regs_list r ! i)"
    unfolding set_upt by fastforce
  also have "\<dots> \<longleftrightarrow> regs_at q a = r"
    by (cases r) (simp add: upt_rec regs_list_def regs_at_def conj_ac)
  finally show ?thesis by simp
qed

lemma regs_at_write_block [simp]: "regs_at (write_block a (regs_list r) q) a = r"
  unfolding regs_at_list by (intro allI impI write_block_nth) (simp_all add: regs_list_def)

section \<open>Entering and leaving an interrupt\<close>

lemma enter_eq:
  assumes "error_expected s err"
  shows "enter m kstack g s err c =
    c\<lparr>reg := (reg c)(RSP := frame_top kstack c - 184, RDI := frame_top kstack c - 184),
      seg := (seg c)(CS := selector g, SS := if privilege (seg c CS) \<noteq> 0 then 0 else seg c SS),
      eflags := gate_flags g (eflags c) AND NOT IF_FLAG,
      pc := gate_offset g,
      quad := write_block (frame_top kstack c - 184) (regs_list (regs_of c (stub_number s) (error_code err))) (quad c)\<rparr>"
proof -
  define top where "top = frame_top kstack c"
  have d: "deliver kstack g err c = (let d = fold push ([ucast (seg c SS), reg c RSP, eflags c, ucast (seg c CS), pc c] @
      (case err of None \<Rightarrow> [] | Some e \<Rightarrow> [e])) (c\<lparr>reg := (reg c)(RSP := top)\<rparr>) in
      d\<lparr>seg := (seg c)(CS := selector g, SS := if privilege (seg c CS) \<noteq> 0 then 0 else seg c SS),
        eflags := gate_flags g (eflags c), pc := gate_offset g\<rparr>)"
    by (simp add: deliver_def Let_def top_def frame_top_def split: option.split)
  show ?thesis
    unfolding enter_def d top_def [symmetric] using assms
    by (cases s; cases err)
      (auto simp: isrHandler_before_def pushall_def push_def regs_list_def regs_of_def error_code_def Let_def
        fun_upd_twist [of RSP RDI] fun_upd_twist [of SS CS])
qed

text \<open>\<open>popall\<close> loads what \<open>pushall\<close> has stored.\<close>

lemma run_popall:
  "run m popall d = d\<lparr>reg := (gprs (regs_at (quad d) (reg d RSP)))(RSP := reg d RSP + 120)\<rparr>"
proof -
  have "reg (run m popall d) r = ((gprs (regs_at (quad d) (reg d RSP)))(RSP := reg d RSP + 120)) r" for r
    by (cases r) (simp_all add: popall_def regs_at_def add.commute)
  moreover have "run m popall d = d\<lparr>reg := reg (run m popall d)\<rparr>" by (simp add: popall_def)
  ultimately show ?thesis by (metis ext)
qed

text \<open>What \<open>popall\<close>, the skipped members and \<open>iretq\<close> make of a core that has \<open>r\<close> at its stack pointer.\<close>

definition resumed :: "machine \<Rightarrow> regs_t \<Rightarrow> cpu \<Rightarrow> cpu" where
  "resumed m r d = d\<lparr>reg := gprs r, pc := rip r, eflags := rflags r,
     seg := returned m (ucast (r_cs r)) (ucast (r_ss r)) (seg d)\<rparr>"

lemma run_resumed:
  assumes "regs_at (quad d) (reg d RSP) = r"
  shows "run m (popall @ [AddImm RSP 24, IretQ]) d = resumed m r d"
    "run m (popall @ [AddImm RSP 24, Sti, IretQ]) d = resumed m r d"
proof -
  let ?a = "reg d RSP"
  have r: "quad d (?a + 144) = rip r" "quad d (?a + 152) = r_cs r" "quad d (?a + 160) = rflags r"
    "quad d (?a + 168) = rsp r" "quad d (?a + 176) = r_ss r"
    using assms by (auto simp: regs_at_def)
  have "(gprs r)(RSP := rsp r) = gprs r" by (rule ext) simp
  then show "run m (popall @ [AddImm RSP 24, IretQ]) d = resumed m r d"
    "run m (popall @ [AddImm RSP 24, Sti, IretQ]) d = resumed m r d"
    using assms by (simp_all add: run_popall resumed_def Let_def r add.assoc)
qed


lemma frame_outside:
  assumes "\<And>i. i < 23 \<Longrightarrow> a \<noteq> b + 8 * of_nat i"
  shows "write_block b (regs_list r) q a = q a"
  by (rule write_block_other) (use assms in \<open>simp add: regs_list_def\<close>)

text \<open>The registers \<open>isrHandlerMain\<close> is given are the interrupted ones, and nothing else in memory has changed.\<close>

lemma enter_frame:
  assumes "error_expected s err"
  shows "reg (enter m kstack g s err c) RSP = frame_top kstack c - 184"
    "reg (enter m kstack g s err c) RDI = frame_top kstack c - 184"
    "regs_at (quad (enter m kstack g s err c)) (frame_top kstack c - 184) = regs_of c (stub_number s) (error_code err)"
    "\<not> interrupts_on (enter m kstack g s err c)"
    "seg (enter m kstack g s err c) = (seg c)(CS := selector g, SS := if privilege (seg c CS) \<noteq> 0 then 0 else seg c SS)"
    "\<forall>a. (\<forall>i < 23. a \<noteq> frame_top kstack c - 184 + 8 * of_nat i) \<longrightarrow> quad (enter m kstack g s err c) a = quad c a"
proof -
  have "x AND NOT IF_FLAG AND IF_FLAG = 0" for x :: u64
    by (rule bit_word_eqI) (auto simp: bit_simps)
  then show "\<not> interrupts_on (enter m kstack g s err c)"
    by (simp add: enter_eq [OF assms] interrupts_on_def and.assoc)
qed (auto simp: enter_eq [OF assms] frame_outside)

text \<open>What the C code called by a stub has to leave as it was: the stack pointer, the segments and the
  structure it was given.\<close>

definition leaves_frame :: "cpu \<Rightarrow> cpu \<Rightarrow> bool" where
  "leaves_frame d d' \<longleftrightarrow> reg d' RSP = reg d RSP \<and> seg d' = seg d \<and>
     regs_at (quad d') (reg d RSP) = regs_at (quad d) (reg d RSP)"

lemma interrupt_eq:
  assumes "error_expected s err" and "leaves_frame (enter m kstack g s err c) (call (enter m kstack g s err c))"
  shows "interrupt m kstack g s err call c =
    resumed m (regs_of c (stub_number s) (error_code err)) (call (enter m kstack g s err c))"
proof -
  let ?d = "enter m kstack g s err c"
  have "regs_at (quad (call ?d)) (reg (call ?d) RSP) = regs_of c (stub_number s) (error_code err)"
    using assms(2) enter_frame [OF assms(1)] by (simp add: leaves_frame_def)
  from run_resumed(2) [OF this] show ?thesis by (simp add: interrupt_def isrHandler_after_def)
qed

section \<open>The resumption of a task\<close>

lemma switchTask_resumed:
  assumes "regs_at (quad d) (reg d RDI) = r"
  shows "run m switchTask d = resumed m r (d\<lparr>eflags := eflags d OR IF_FLAG,
    reg := (reg d)(RSP := reg d RDI),
    seg := (seg d)(DS := ucast (reg d RSI), ES := ucast (reg d RSI), GS := ucast (reg d RSI))\<rparr>)"
proof -
  let ?e = "d\<lparr>eflags := eflags d OR IF_FLAG, reg := (reg d)(RSP := reg d RDI),
    seg := (seg d)(DS := ucast (reg d RSI), ES := ucast (reg d RSI), GS := ucast (reg d RSI))\<rparr>"
  let ?start = "[MovSeg DS RSI, MovSeg ES RSI, MovSeg GS RSI, Sti, Mov RSP RDI]"
  have "run m ?start d = ?e" by simp
  then have "run m switchTask d = run m (popall @ [AddImm RSP 24, IretQ]) ?e"
    by (simp only: switchTask_def run_simps(3))
  also have "\<dots> = resumed m r ?e" by (rule run_resumed(1)) (use assms in simp)
  finally show ?thesis .
qed

lemma scheduled_keeps_regs:
  fixes s :: "'a sched_state_scheme"
  assumes sch: "scheduled regs s r s' next" and ok: "sched_ok s" and core: "unat (r_core regs) < ncores s"
    and k: "k < ntasks s" "status_of s k = WAITING" "status_of s' k = WAITING"
  shows "t_regs (tasks s' ! k) = t_regs (tasks s ! k)"
proof -
  have len: "ntasks s \<le> length (tasks s)" using ok by (simp add: sched_ok_def)
  have "current s (unat (r_core regs)) \<noteq> Some k"
    using ok core k(2) by (fastforce simp: sched_ok_def)
  then show ?thesis
  proof (cases "next")
    case None
    then show ?thesis
      using scheduled_None [OF sch [unfolded None] len] k(1) len by (simp add: aged_nth)
  next
    case (Some n)
    then show ?thesis
      using scheduled_Some [OF sch [unfolded Some] len, of k] k len
        \<open>current s (unat (r_core regs)) \<noteq> Some k\<close>
      by (auto simp: Let_def status_of_def split: if_splits)
  qed
qed

lemma timer_ticks_keep_regs:
  fixes s :: "'a sched_state_scheme"
  assumes "ready b s" and "b + length rs < 2 ^ 64" and "\<forall>r \<in> set rs. unat (r_core r) < ncores s"
    and "timer_ticks rs s = Inr t" and "k < ntasks s" and "\<forall>s' \<in> set t. status_of s' k = WAITING"
  shows "t \<noteq> [] \<and> t_regs (tasks (last t) ! k) = t_regs (tasks s ! k) \<and> ready (b + length rs) (last t) \<and>
    ncores (last t) = ncores s \<and> ntasks (last t) = ntasks s \<and> hd t = s"
  using assms
proof (induction rs arbitrary: b s t)
  case (Cons r rs)
  have r: "ready b s" "b < 2 ^ 64" "unat (r_core r) < ncores s" using Cons.prems by auto
  obtain q s1 u where step: "schedulerMain r s = Inr (q, s1)" "timer_ticks rs s1 = Inr u" "t = s # u"
    using Cons.prems(4) by (auto simp: and_then_eq_Inr_iff)
  obtain "next" where sch: "scheduled r s q s1 next"
    using holds_InrD [OF ready_scheduled [OF r] step(1)] by auto
  note n = scheduled_ready [OF sch r]
  have u: "u \<noteq> [] \<and> t_regs (tasks (last u) ! k) = t_regs (tasks s1 ! k) \<and> ready (b + 1 + length rs) (last u) \<and>
      ncores (last u) = ncores s1 \<and> ntasks (last u) = ntasks s1 \<and> hd u = s1"
    by (rule Cons.IH [OF _ _ _ step(2)]) (use n Cons.prems step in auto)
  then have "s1 \<in> set u" by (metis hd_in_set)
  then have "t_regs (tasks s1 ! k) = t_regs (tasks s ! k)"
    using scheduled_keeps_regs [OF sch _ r(3), of k] r(1) Cons.prems(5,6) step(3) by (simp add: ready_def)
  then show ?case using u n step(3) by simp
qed auto

text \<open>A task that was switched out, waited and is switched in again goes on with the registers it had.\<close>

lemma switched_out_resumes:
  fixes s :: "'a sched_state_scheme"
  assumes ready: "ready b s" and b: "b + length rs + 1 < 2 ^ 64"
    and cores: "unat (r_core regs) < ncores s" "\<forall>r \<in> set rs. unat (r_core r) < ncores s" "unat (r_core regs') < ncores s"
    and out: "schedulerMain regs s = Inr (res, s1)" "current s (unat (r_core regs)) = Some k" "status_of s1 k = WAITING"
    and waits: "timer_ticks rs s1 = Inr t" "\<forall>s' \<in> set t. status_of s' k = WAITING"
    and "in": "schedulerMain regs' (last t) = Inr (res', s2)" "status_of s2 k = RUNNING"
  shows "res' = SwitchTask regs (r_ss regs)"
proof -
  have ok: "sched_ok s" using ready by (simp add: ready_def)
  have len: "ntasks s \<le> length (tasks s)" using ok by (simp add: sched_ok_def)
  have k: "k < ntasks s" "status_of s k = RUNNING"
    using ok out(2) cores(1) by (auto simp: sched_ok_def)
  obtain n1 where sch1: "scheduled regs s res s1 n1"
    using holds_InrD [OF ready_scheduled [OF ready _ cores(1)] out(1)] b by auto
  note r1 = scheduled_ready [OF sch1 ready _ cores(1)]
  have "n1 \<noteq> None"
    using scheduled_status [OF sch1 ok cores(1)] out(3) k by (cases n1) auto
  then obtain n where "n1 = Some n" by blast
  then have saved: "t_regs (tasks s1 ! k) = regs"
    using scheduled_Some [OF sch1 [unfolded \<open>n1 = Some n\<close>] len, of k] out(2,3) k len
    by (auto simp: Let_def status_of_def split: if_splits)
  have keep: "t_regs (tasks (last t) ! k) = regs" "ready (b + 1 + length rs) (last t)"
      "ncores (last t) = ncores s" "ntasks (last t) = ntasks s" "last t \<in> set t"
    using timer_ticks_keep_regs [OF _ _ _ waits(1) _ waits(2), of "b + 1"] r1 b cores(2) k saved by auto
  have ok2: "sched_ok (last t)" using keep(2) by (simp add: ready_def)
  have len2: "ntasks (last t) \<le> length (tasks (last t))" using ok2 by (simp add: sched_ok_def)
  have core2: "unat (r_core regs') < ncores (last t)" using cores(3) keep(3) by simp
  obtain n2 where sch2: "scheduled regs' (last t) res' s2 n2"
    using holds_InrD [OF ready_scheduled [OF keep(2) _ core2] "in"(1)] b by auto
  have w: "status_of (last t) k = WAITING" using waits(2) keep(5) by blast
  have "n2 = Some k"
    using scheduled_status [OF sch2 ok2 core2] "in"(2) w k(1) keep(4)
    by (auto simp: run_next_def split: option.splits if_splits)
  then have "res' = resume (tasks (last t) ! k)" using sch2 by (auto simp: scheduled_def)
  then show ?thesis using w keep(1) by (simp add: resume_def status_of_def)
qed

section \<open>Calls from user mode\<close>

text \<open>The processor up to the trap of a system call, and what the trap is: the interrupt through the gate \<open>g\<close>.\<close>

definition printSerial_trap :: "machine \<Rightarrow> cpu \<Rightarrow> cpu" where
  "printSerial_trap m c = run m (take 6 printSerial_code) c"

definition pthread_trap :: "machine \<Rightarrow> cpu \<Rightarrow> cpu" where
  "pthread_trap m c = run m (take 8 pthread_code) c"

text \<open>An interrupt that returns leaves the \<open>n\<close> quadwords at the stack pointer of \<open>d\<close> as they were.\<close>

definition keeps_stack :: "nat \<Rightarrow> cpu \<Rightarrow> cpu \<Rightarrow> bool" where
  "keeps_stack n d d' \<longleftrightarrow> (\<forall>i < n. quad d' (reg d RSP + 8 * of_nat i) = quad d (reg d RSP + 8 * of_nat i))"

lemma trap_resumed:
  assumes "software_interrupt m v = interrupt m' kstack g (Isr v) None call"
    and "leaves_frame (enter m' kstack g (Isr v) None d) (call (enter m' kstack g (Isr v) None d))"
  shows "exec m (Trap v) d = resumed m' (regs_of d (of_nat v) 0) (call (enter m' kstack g (Isr v) None d))"
  using interrupt_eq [where call = call, OF _ assms(2)] assms(1) by (simp add: error_code_def)

text \<open>The segment registers after a return from the kernel.\<close>

lemma returned_simps [simp]:
  "returned m cs ss f CS = cs" "returned m cs ss f SS = ss"
  "x \<in> {DS, ES, FS, GS} \<Longrightarrow>
    returned m cs ss f x = (if privilege (f CS) < privilege cs \<and> clears m (f x) then 0 else f x)"
  by (auto simp: returned_def)

lemma privilege_8 [simp]: "privilege 8 = 0"
  by (simp add: privilege_def)

text \<open>\<open>pthread\<close> asks for \<open>CALLS\<close>, \<open>PTHREAD\<close> with its two arguments.\<close>

lemma pthread_passes:
  "let d = pthread_trap m c; e = enter m' kstack g (Isr 0x69) None d in
    regs_at (quad e) (reg e RDI) = (regs_of c 0x69 0)
      \<lparr>rax := CALLS, rcx := PTHREAD, rdx := reg c RDI, rbx := reg c RSI, rflags := eflags d, rsp := reg c RSP - 32\<rparr>"
  by (simp add: enter_frame error_code_def Let_def)
    (simp add: pthread_trap_def pthread_code_def push_def regs_of_def syscall_numbers)

text \<open>\<open>lgdt\<close> returns to its caller with the kernel's code and data segments and the task state segment of
  the table it has loaded; \<open>FS\<close>, which holds the number of the core, is left alone.\<close>

lemma lgdt_loads:
  assumes "privilege (seg c CS) = 0"
  shows "let c' = run m (lgdt_code entryPt) c in
    reg c' = (reg c)(RAX := reg c RAX AND NOT 0xffff OR 0x28, RSP := reg c RSP + 8) \<and>
    pc c' = quad c (reg c RSP) \<and> eflags c' = eflags c \<and> gdt_operand c' = reg c RDI \<and> task_register c' = 0x28 \<and>
    (\<forall>x. seg c' x = (if x = CS then 8 else if x = FS then seg c FS else 0x10))"
proof -
  have ax: "ucast (v AND NOT 0xffff OR ucast x :: u64) = (x :: u16)" for v x
  proof (rule bit_word_eqI)
    fix n assume "n < LENGTH(16)"
    then have "bit (mask 16 :: u64) n" by (simp add: bit_mask_iff)
    then have "bit (0xffff :: u64) n" by (simp add: mask_eq_exp_minus_1)
    then show "bit (ucast (v AND NOT 0xffff OR ucast x :: u64) :: u16) n \<longleftrightarrow> bit x n"
      using \<open>n < LENGTH(16)\<close> by (auto simp: bit_simps)
  qed
  have twice: "(v AND k OR a) AND k = v AND k" if "a AND k = 0" for v a k :: u64
    using that by (auto simp: bit_eq_iff bit_simps)
  show ?thesis
    using ax [of _ "0x10"] ax [of _ "0x28"] twice [of "0x10" "NOT 0xffff"] assms
    by (simp add: lgdt_code_def push_def returned_def Let_def fun_eq_iff split: sreg.split)
qed

section \<open>Properties\<close>

text \<open>
  C2: an interrupt is transparent. Its handler is given the registers the interrupt found, on a stack
  frame beside which no memory has changed, with the interrupts off and in kernel mode. If it returns and has kept the
  frame, the interrupted code goes on with every register, its flags, its code and its stack segment as they were.
  The other segment registers are the same too, except on a return to user mode for those the processor clears.
\<close>

theorem interrupt_transparent:
  assumes "error_expected s err" and "selector g = 8"
    and "leaves_frame (enter m kstack g s err c) (call (enter m kstack g s err c))"
  shows "let d = enter m kstack g s err c; c' = interrupt m kstack g s err call c in
    regs_at (quad d) (reg d RDI) = regs_of c (stub_number s) (error_code err) \<and>
    (\<forall>a. (\<forall>i < 23. a \<noteq> frame_top kstack c - 184 + 8 * of_nat i) \<longrightarrow> quad d a = quad c a) \<and>
    \<not> interrupts_on d \<and> privilege (seg d CS) = 0 \<and>
    reg c' = reg c \<and> pc c' = pc c \<and> eflags c' = eflags c \<and> quad c' = quad (call d) \<and>
    (\<forall>x. seg c' x = (if x \<in> {DS, ES, FS, GS} \<and> privilege (seg c CS) \<noteq> 0 \<and> clears m (seg c x) then 0 else seg c x))"
proof -
  let ?d = "enter m kstack g s err c"
  have c': "interrupt m kstack g s err call c =
      resumed m (regs_of c (stub_number s) (error_code err)) (call ?d)"
    by (rule interrupt_eq [where call = call, OF assms(1,3)])
  note d = enter_frame [OF assms(1)]
  have "seg (call ?d) = seg ?d" using assms(3) by (simp add: leaves_frame_def)
  then have "returned m (seg c CS) (seg c SS) (seg (call ?d)) x =
      (if x \<in> {DS, ES, FS, GS} \<and> privilege (seg c CS) \<noteq> 0 \<and> clears m (seg c x) then 0 else seg c x)" for x
    by (cases x) (simp_all add: d assms(2) word_neq_0_conv)
  then show ?thesis
    unfolding Let_def c' by (simp add: resumed_def d assms(2))
qed

text \<open>
  C1: a task loses nothing when it is switched out and in again. The stub of the timer hands its
  registers to \<open>schedulerMain\<close>; whatever timer interrupts follow on whatever cores while it waits, the call that
  resumes it asks for \<open>switchTask\<close> with just these registers; and on the core that executes it the general registers, the
  instruction pointer, the flags and the code and stack segments are those at the interruption.
\<close>

theorem task_continues:
  fixes s :: "'a sched_state_scheme"
  assumes "regs = (let e = enter m kstack g (Isr 32) None c in regs_at (quad e) (reg e RDI))"
    and "ready b s" and "b + length rs + 1 < 2 ^ 64"
    and "unat (r_core regs) < ncores s" and "\<forall>r \<in> set rs. unat (r_core r) < ncores s" and "unat (r_core regs') < ncores s"
    and "schedulerMain regs s = Inr (res, s1)" and "current s (unat (r_core regs)) = Some k" and "status_of s1 k = WAITING"
    and "timer_ticks rs s1 = Inr t" and "\<forall>s' \<in> set t. status_of s' k = WAITING"
    and "schedulerMain regs' (last t) = Inr (res', s2)" and "status_of s2 k = RUNNING"
    and "regs_at (quad d) (reg d RDI) = switch_regs res'" and "reg d RSI = switch_ss res'" and "privilege (seg d CS) = 0"
  shows "res' = SwitchTask regs (r_ss regs) \<and> (let c' = run m switchTask d in
    reg c' = reg c \<and> pc c' = pc c \<and> eflags c' = eflags c \<and> seg c' CS = seg c CS \<and> seg c' SS = seg c SS \<and>
    quad c' = quad d \<and>
    (\<forall>x \<in> {DS, ES, GS}. seg c' x = (if privilege (seg c CS) \<noteq> 0 \<and> clears m (seg c SS) then 0 else seg c SS)))"
proof -
  have regs: "regs = regs_of c 32 0"
    using assms(1) by (simp add: enter_frame error_code_def)
  have res: "res' = SwitchTask regs (r_ss regs)" by (rule switched_out_resumes) (rule assms)+
  then have "regs_at (quad d) (reg d RDI) = regs" "reg d RSI = ucast (seg c SS)"
    using assms(14,15) regs by simp_all
  then show ?thesis
    using res assms(16) unfolding switchTask_resumed [OF \<open>regs_at (quad d) (reg d RDI) = regs\<close>] Let_def regs
    by (simp add: resumed_def word_neq_0_conv)
qed

text \<open>
  C15: \<open>switchTask\<close> switches the interrupts on before it takes the registers of the task from the table. An interrupt
  at the first of these loads pushes its frame, 184 bytes, from \<open>&regs\<close> (rounded down to 16 bytes) down: the stack segment and the stack
  pointer over the \<open>pml4Index\<close> and the \<open>status\<close> of the task that is being resumed, the two quadwords before \<open>regs\<close>, or,
  where \<open>regs\<close> is at an odd multiple of 8, over the \<open>status\<close> and the quadword before it; the rest over the entry before it.
\<close>

theorem switchTask_interrupted:
  assumes "privilege (seg d CS) = 0" and "error_expected s err"
  shows "let c = run m (take 5 switchTask) d; e = enter m kstack g s err c; a = reg d RDI AND NOT 0xf in
    interrupts_on c \<and> reg c RSP = reg d RDI \<and>
    regs_at (quad e) (a - 184) = regs_of c (stub_number s) (error_code err) \<and>
    quad e (a - 8) = ucast (seg d SS) \<and> quad e (a - 16) = reg d RDI"
proof -
  let ?c = "run m (take 5 switchTask) d"
  let ?e = "enter m kstack g s err ?c"
  let ?a = "reg d RDI AND NOT 0xf"
  have c: "reg ?c RSP = reg d RDI" "seg ?c CS = seg d CS" "seg ?c SS = seg d SS" "eflags ?c = eflags d OR IF_FLAG"
    by (simp_all add: switchTask_def)
  have "(x OR IF_FLAG) AND IF_FLAG = IF_FLAG" for x :: u64
    by (rule bit_word_eqI) (auto simp: bit_simps)
  then have on: "interrupts_on ?c" by (simp add: interrupts_on_def c) (simp add: IF_FLAG_def)
  have top: "frame_top kstack ?c = ?a" unfolding frame_top_def c using assms(1) by simp
  have frame: "regs_at (quad ?e) (?a - 184) = regs_of ?c (stub_number s) (error_code err)"
    using enter_frame(3) [OF assms(2), of m kstack g ?c] unfolding top .
  have "quad ?e (?a - 8) = ucast (seg d SS)" "quad ?e (?a - 16) = reg d RDI"
    using arg_cong [OF frame, of r_ss] arg_cong [OF frame, of rsp] c by (simp_all add: regs_at_def)
  then show ?thesis using on c(1) frame unfolding Let_def by blast
qed

text \<open>
  C14: on a processor that clears the selector in which a core keeps its number when it returns to user
  mode, a user task that \<open>startTask\<close> starts makes every timer interrupt of its core one of core 0: the task that
  core 0 is running gets the registers of the other task and waits.
\<close>

theorem user_task_loses_core:
  fixes s :: "'a sched_state_scheme"
  assumes "privilege (seg d CS) = 0" and "privilege (ucast (reg d RDX)) \<noteq> 0" and "clears m (seg d FS)"
    and "seg c = seg (run m startTask d)"
    and "regs = (let e = enter m kstack g (Isr 32) None c in regs_at (quad e) (reg e RDI))"
    and "ready b s" and "b < 2 ^ 64" and "0 < ncores s" and "current s 0 = Some l"
  shows "r_core regs = 0 \<and> (\<exists>r s'. schedulerMain regs s = Inr (r, s') \<and>
    (r \<noteq> Return \<longrightarrow> t_regs (tasks s' ! l) = regs \<and> status_of s' l = WAITING))"
proof -
  have regs: "regs = regs_of c 32 0"
    using assms(5) by (simp add: enter_frame error_code_def)
  have "seg c FS = 0"
    using assms(1-4) by (simp add: startTask_def push_def Let_def word_neq_0_conv)
  then have core: "r_core regs = 0" by (simp add: regs)
  then have c0: "unat (r_core regs) < ncores s" using assms(8) by simp
  obtain r s' n where call: "schedulerMain regs s = Inr (r, s')" and sch: "scheduled regs s r s' n"
    using ready_scheduled [OF assms(6,7) c0] by (auto elim!: holdsE)
  have ok: "sched_ok s" using assms(6) by (simp add: ready_def)
  have len: "ntasks s \<le> length (tasks s)" using ok by (simp add: sched_ok_def)
  have l: "l < ntasks s" "status_of s l = RUNNING" using ok assms(8,9) by (auto simp: sched_ok_def)
  have "t_regs (tasks s' ! l) = regs \<and> status_of s' l = WAITING" if "r \<noteq> Return"
  proof -
    obtain k where n: "n = Some k" using sch \<open>r \<noteq> Return\<close> by (cases n) (auto simp: scheduled_def)
    have "k \<noteq> l"
      using scheduled_status [OF sch ok c0] l n by (auto simp: run_next_def)
    then show ?thesis
      using scheduled_Some [OF sch [unfolded n] len, of l] l len assms(9) core
      by (auto simp: Let_def status_of_def)
  qed
  then show ?thesis using call core by blast
qed

text \<open>
  C22: \<open>printSerial(c)\<close> of the user library hands the handler of the system calls exactly the registers its
  model passes on: \<open>rax\<close> and \<open>rcx\<close> 0, the character in \<open>rdx\<close>, the others as in the caller. When the call has left its frame and the
  stack of the caller alone, \<open>printSerial\<close> returns behind the call with the general registers as they were.
\<close>

theorem printSerial_calls:
  assumes "software_interrupt m 0x69 = interrupt m' kstack g (Isr 0x69) None call" and "selector g = 8"
    and "leaves_frame (enter m' kstack g (Isr 0x69) None (printSerial_trap m c))
      (call (enter m' kstack g (Isr 0x69) None (printSerial_trap m c)))"
    and "keeps_stack 4 (printSerial_trap m c) (call (enter m' kstack g (Isr 0x69) None (printSerial_trap m c)))"
  shows "let d = printSerial_trap m c; e = enter m' kstack g (Isr 0x69) None d; c' = run m printSerial_code c in
    regs_at (quad e) (reg e RDI) = (regs_of c 0x69 0)
      \<lparr>rax := 0, rcx := 0, rdx := reg c RDI, rflags := eflags d, rsp := reg c RSP - 24\<rparr> \<and>
    reg c' = (reg c)(RSP := reg c RSP + 8) \<and> pc c' = quad c (reg c RSP) \<and> quad c' = quad (call e)"
proof -
  let ?d = "printSerial_trap m c"
  let ?e = "enter m' kstack g (Isr 0x69) None ?d"
  have d: "reg ?d = (reg c)(RAX := 0, RCX := 0, RDX := reg c RDI, RSP := reg c RSP - 24)"
    "quad ?d (reg c RSP - 8) = reg c RAX" "quad ?d (reg c RSP - 16) = reg c RCX"
    "quad ?d (reg c RSP - 24) = reg c RDX" "quad ?d (reg c RSP) = quad c (reg c RSP)"
    "seg ?d = seg c" "pc ?d = pc c"
    by (simp_all add: printSerial_trap_def printSerial_code_def push_def fun_eq_iff)
  have frame: "regs_at (quad ?e) (reg ?e RDI) = regs_of ?d 0x69 0"
    by (simp add: enter_frame error_code_def)
  have code: "run m printSerial_code c = run m [Pop RDX, Pop RCX, Pop RAX, Ret] (exec m (Trap 0x69) ?d)"
    by (simp add: printSerial_code_def printSerial_trap_def del: exec.simps)
  have k: "quad (call ?e) (reg c RSP - 24) = reg c RDX" "quad (call ?e) (reg c RSP - 16) = reg c RCX"
    "quad (call ?e) (reg c RSP - 8) = reg c RAX" "quad (call ?e) (reg c RSP) = quad c (reg c RSP)"
    using assms(4) [unfolded keeps_stack_def, rule_format, of 0] assms(4) [unfolded keeps_stack_def, rule_format, of 1]
      assms(4) [unfolded keeps_stack_def, rule_format, of 2] assms(4) [unfolded keeps_stack_def, rule_format, of 3] d
    by simp_all
  show ?thesis
    unfolding Let_def frame code trap_resumed [OF assms(1,3)]
    using d(1,6,7) k by (auto simp: resumed_def fun_eq_iff) (simp_all add: regs_of_def)
qed

section \<open>Witnesses\<close>

text \<open>A processor that clears the null selectors, and a user task on core 0.\<close>

definition example_processor :: machine where
  "example_processor = \<lparr>clears = (\<lambda>x. x < 4), status_flags = (\<lambda>_ c. eflags c), software_interrupt = (\<lambda>_ c. c)\<rparr>"

definition example_cpu :: cpu where
  "example_cpu = \<lparr>reg = (\<lambda>r. case r of RSP \<Rightarrow> 0x6000 | RDI \<Rightarrow> 0x41 | RAX \<Rightarrow> 7 | _ \<Rightarrow> 1),
     seg = (\<lambda>x. case x of CS \<Rightarrow> 0x1b | FS \<Rightarrow> 0 | _ \<Rightarrow> 0x23), eflags = 0x202, pc = 0x7000, quad = (\<lambda>_. 0),
     gdt_operand = 0, task_register = 0x28\<rparr>"

definition example_gate :: idtEntry_t where
  "example_gate = gate 0x8f 0xffffffff80101000"

lemma example_gate_selector: "selector example_gate = 8"
  by (simp add: example_gate_def gate_def)

lemma example_simps [simp]:
  "pc example_cpu = 0x7000" "eflags example_cpu = 0x202" "seg example_cpu CS = 0x1b" "seg example_cpu SS = 0x23"
  "seg example_cpu DS = 0x23" "seg example_cpu ES = 0x23" "seg example_cpu GS = 0x23" "seg example_cpu FS = 0"
  "reg example_cpu RSP = 0x6000" "reg example_cpu RDI = 0x41" "reg example_cpu RAX = 7"
  "clears example_processor v \<longleftrightarrow> v < 4"
  by (simp_all add: example_cpu_def example_processor_def)

theorem interrupt_transparent_witness:
  "let d = enter example_processor 0x9000 example_gate (ErrorIsr 14) (Some 2) example_cpu;
       c' = interrupt example_processor 0x9000 example_gate (ErrorIsr 14) (Some 2) id example_cpu in
     errorCode (regs_at (quad d) (reg d RDI)) = 2 \<and> rip (regs_at (quad d) (reg d RDI)) = 0x7000 \<and>
     reg c' = reg example_cpu \<and> pc c' = 0x7000 \<and> seg c' = seg example_cpu"
  using interrupt_transparent [of "ErrorIsr 14" "Some 2" example_gate example_processor "0x9000" example_cpu id]
  by (auto simp: example_gate_selector leaves_frame_def Let_def error_code_def fun_eq_iff)

text \<open>The same by running the instructions: register files are compared by the enumeration of their names.\<close>

lemma interrupt_example:
  "reg (interrupt example_processor 0x9000 example_gate (Isr 32) None id example_cpu) = reg example_cpu"
  by code_simp

definition timer_regs :: "cpu \<Rightarrow> regs_t" where
  "timer_regs c = (let e = enter example_processor 0x9000 example_gate (Isr 32) None c in regs_at (quad e) (reg e RDI))"

lemma timer_regs_eq: "timer_regs c = regs_of c 32 0"
  by (simp add: timer_regs_def enter_frame error_code_def)

definition two_tasks :: sched_state where
  "two_tasks = example_sched\<lparr>numberOfTasks := 2\<rparr>"

text \<open>With two started tasks, one of which waits, a tick switches to that one.\<close>

lemma two_tasks_switch:
  fixes s :: "'a sched_state_scheme"
  assumes ready: "ready b s" "b < 2 ^ 64" and core: "unat (r_core regs) < ncores s"
    and two: "ntasks s = 2" "j < 2" "k < 2" "j \<noteq> k"
    and st: "status_of s k = WAITING" "status_of s j = RUNNING" "current s (unat (r_core regs)) = Some j"
  shows "\<exists>r s'. schedulerMain regs s = Inr (r, s') \<and> ready (b + 1) s' \<and> ntasks s' = 2 \<and> ncores s' = ncores s \<and>
    status_of s' j = WAITING \<and> status_of s' k = RUNNING \<and> current s' (unat (r_core regs)) = Some k"
proof -
  obtain r s' n where call: "schedulerMain regs s = Inr (r, s')" and sch: "scheduled regs s r s' n"
    using ready_scheduled [OF ready core] by (auto elim!: holdsE)
  have w: "waits (tasks s) k" "\<not> waits (tasks s) j" "\<not> starts (tasks s) k" "\<not> starts (tasks s) j"
    using st by (simp_all add: waits_def starts_def status_of_def)
  have all2: "(i < 2) = (i = j \<or> i = k)" for i using two by auto
  have "n = Some k"
    using sch w unfolding scheduled_def tick_def first_waiting_def two(1) all2
    by (auto split: option.splits if_splits)
  then show ?thesis
    using scheduled_status [OF sch _ core] scheduled_ready [OF sch ready core] ready(1) call two st core
    by (auto simp: run_next_def ready_def)
qed

lemma two_tasks_ready: "ready 8 two_tasks" "ntasks two_tasks = 2" "ncores two_tasks = 1"
    "status_of two_tasks 1 = WAITING" "status_of two_tasks 0 = RUNNING" "current two_tasks 0 = Some 0"
proof -
  have all2: "(\<forall>k < 2. P k) \<longleftrightarrow> P 0 \<and> P (1 :: nat)" for P
    by (auto simp: less_Suc_eq numeral_2_eq_2)
  have n: "ntasks two_tasks = 2" "ncores two_tasks = 1"
    by (simp_all add: ntasks_def ncores_def two_tasks_def example_sched_def desc_state.defs)
  then show "ntasks two_tasks = 2" "ncores two_tasks = 1" .
  show "ready 8 two_tasks" "status_of two_tasks 1 = WAITING" "status_of two_tasks 0 = RUNNING"
    "current two_tasks 0 = Some 0"
    unfolding ready_def sched_ok_def spaces_ok_def idle_below_def n all2
    by (simp_all add: status_of_def current_def two_tasks_def example_sched_def desc_state.defs example_task_def
        all2 example_desc_def pci_state.defs)
qed

text \<open>The user task is switched out and, one tick later, in again.\<close>

theorem task_continues_witness:
  "\<exists>r s1 res' s2. schedulerMain (timer_regs example_cpu) two_tasks = Inr (r, s1) \<and>
     schedulerMain zero_regs s1 = Inr (res', s2) \<and> res' = SwitchTask (timer_regs example_cpu) 0x23 \<and>
     (let d = example_cpu\<lparr>seg := (\<lambda>x. if x = CS then 8 else 0),
          reg := (\<lambda>_. 0)(RDI := 0x8010, RSI := 0x23), quad := write_block 0x8010 (regs_list (timer_regs example_cpu)) (\<lambda>_. 0)\<rparr>;
          c' = run example_processor switchTask d in
      reg c' = reg example_cpu \<and> pc c' = 0x7000 \<and> seg c' CS = 0x1b \<and> seg c' DS = 0x23)"
proof -
  let ?regs = "timer_regs example_cpu"
  have core: "unat (r_core ?regs) = 0" "unat (r_core zero_regs) = 0" "r_ss ?regs = 0x23"
    by (simp_all add: timer_regs_eq zero_regs_def)
  obtain r s1 where 1: "schedulerMain ?regs two_tasks = Inr (r, s1)" "ready (8 + 1) s1" "ntasks s1 = 2"
      "ncores s1 = ncores two_tasks" "status_of s1 0 = WAITING" "status_of s1 1 = RUNNING" "current s1 0 = Some 1"
    using two_tasks_switch [of 8 two_tasks ?regs 0 1] two_tasks_ready by (auto simp: core)
  obtain res' s2 where 2: "schedulerMain zero_regs s1 = Inr (res', s2)" "status_of s2 0 = RUNNING"
    using two_tasks_switch [of 9 s1 zero_regs 1 0] 1 two_tasks_ready by (auto simp: core)
  let ?d = "example_cpu\<lparr>seg := (\<lambda>x. if x = CS then 8 else 0),
      reg := (\<lambda>_. 0)(RDI := 0x8010, RSI := switch_ss res'),
      quad := write_block 0x8010 (regs_list (switch_regs res')) (\<lambda>_. 0)\<rparr>"
  have d: "regs_at (quad ?d) (reg ?d RDI) = switch_regs res'" "reg ?d RSI = switch_ss res'" "privilege (seg ?d CS) = 0"
    by simp_all
  note * = task_continues [OF _ two_tasks_ready(1) _ _ _ _ 1(1) _ 1(5) _ _ _ 2(2) d, where rs = "[]" and t = "[s1]"
      and c = example_cpu and m = example_processor and kstack = "0x9000" and g = example_gate and regs' = zero_regs]
  have "res' = SwitchTask ?regs (r_ss ?regs) \<and> (let c' = run example_processor switchTask ?d in
    reg c' = reg example_cpu \<and> pc c' = pc example_cpu \<and> eflags c' = eflags example_cpu \<and> seg c' CS = seg example_cpu CS \<and>
    seg c' SS = seg example_cpu SS \<and> quad c' = quad ?d \<and>
    (\<forall>x \<in> {DS, ES, GS}. seg c' x = (if privilege (seg example_cpu CS) \<noteq> 0 \<and> clears example_processor (seg example_cpu SS)
      then 0 else seg example_cpu SS)))"
    by (rule *) (use 1 2 two_tasks_ready in \<open>simp_all add: core timer_regs_def [symmetric]\<close>)
  then show ?thesis
    using 1(1) 2(1) core(3) by (intro exI [of _ r] exI [of _ s1] exI [of _ res'] exI [of _ s2])
      (auto simp: Let_def)
qed

theorem switchTask_interrupted_witness:
  "let d = example_cpu\<lparr>seg := (\<lambda>x. if x = CS then 8 else 0x10), reg := (\<lambda>_. 5)(RDI := 0x8010, RSI := 0x23)\<rparr>;
       e = enter example_processor 0x9000 example_gate (Isr 32) None (run example_processor (take 5 switchTask) d) in
     quad e (0x8010 - 8) = 0x10 \<and> quad e (0x8010 - 16) = 0x8010"
  using switchTask_interrupted [of "example_cpu\<lparr>seg := (\<lambda>x. if x = CS then 8 else 0x10),
      reg := (\<lambda>_. 5)(RDI := 0x8010, RSI := 0x23)\<rparr>" "Isr 32" None example_processor "0x9000" example_gate]
  by (simp add: Let_def)

text \<open>Core 1 starts a user task and is interrupted by its timer.\<close>

theorem user_task_loses_core_witness:
  "\<exists>regs r s'. isrNumber regs = 32 \<and> schedulerMain regs two_tasks = Inr (r, s') \<and> (r \<noteq> Return \<longrightarrow> status_of s' 0 = WAITING)"
proof -
  let ?d = "example_cpu\<lparr>seg := (\<lambda>x. if x = CS then 8 else if x = FS then 1 else 0x10), reg := (\<lambda>_. 0x6000)(RDX := 0x1b)\<rparr>"
  let ?c = "run example_processor startTask ?d"
  have "privilege (seg ?d CS) = 0" "privilege (ucast (reg ?d RDX)) \<noteq> 0" "clears example_processor (seg ?d FS)"
    by (simp_all add: privilege_def)
  from user_task_loses_core [where m = example_processor and kstack = "0x9000" and g = example_gate and c = ?c,
    OF this refl refl two_tasks_ready(1), folded timer_regs_def, of 0]
  obtain r s' where "schedulerMain (timer_regs ?c) two_tasks = Inr (r, s')" "r \<noteq> Return \<longrightarrow> status_of s' 0 = WAITING"
    by (auto simp: two_tasks_ready simp del: run_simps)
  moreover have "isrNumber (timer_regs ?c) = 32" by (simp only: timer_regs_eq regs_of_simps)
  ultimately show ?thesis by blast
qed

theorem printSerial_calls_witness:
  "let m = example_processor\<lparr>software_interrupt := \<lambda>_. interrupt example_processor 0x9000 example_gate (Isr 0x69) None id\<rparr>;
       d = printSerial_trap m example_cpu; e = enter example_processor 0x9000 example_gate (Isr 0x69) None d in
     rdx (regs_at (quad e) (reg e RDI)) = 0x41 \<and> reg (run m printSerial_code example_cpu) RAX = 7"
proof -
  let ?m = "example_processor\<lparr>software_interrupt := \<lambda>_. interrupt example_processor 0x9000 example_gate (Isr 0x69) None id\<rparr>"
  let ?d = "printSerial_trap ?m example_cpu"
  let ?e = "enter example_processor 0x9000 example_gate (Isr 0x69) None ?d"
  have d: "reg ?d RSP = 0x6000 - 24" "privilege (seg ?d CS) \<noteq> 0"
    by (simp_all add: printSerial_trap_def printSerial_code_def push_def example_cpu_def privilege_def)
  then have top: "frame_top 0x9000 ?d = 0x9000" by (simp add: frame_top_def)
  have apart: "0x6000 - 24 + 8 * of_nat i \<noteq> 0x9000 - 184 + 8 * (of_nat j :: u64)" if "i < 4" "j < 23" for i j
  proof -
    have "unat (0x6000 - 24 + 8 * of_nat i :: u64) = 24552 + 8 * i" "unat (0x9000 - 184 + 8 * of_nat j :: u64) = 36680 + 8 * j"
      using that unat_of_nat_u64 [of "24552 + 8 * i"] unat_of_nat_u64 [of "36680 + 8 * j"] by simp_all
    then show ?thesis using that by (intro notI) simp
  qed
  have "quad ?e (0x6000 - 24 + 8 * of_nat i) = quad ?d (0x6000 - 24 + 8 * of_nat i)" if "i < 4" for i
    by (rule enter_frame(6) [rule_format]) (unfold top, use apart [OF that] in simp_all)
  then have "keeps_stack 4 ?d (id ?e)" by (simp add: keeps_stack_def d)
  then show ?thesis
    using printSerial_calls [where m = ?m and m' = example_processor and kstack = "0x9000" and g = example_gate and call = id
      and c = example_cpu]
    by (simp add: example_gate_selector leaves_frame_def Let_def)
qed

end
