(* ===== verification/Boot_Sector.thy ===== *)
theory Boot_Sector
  imports Assembly
begin

text \<open>
  The boot sector, \<^verbatim>\<open>kernel/boot.asm\<close>, as far as the kernel depends on it: the memory map of the BIOS, the choice of a
  video mode, the page tables under which the kernel starts, the search for the firmware's tables and the
  code in which the other cores start. The BIOS calls are parameters. Physical memory is a function of the address, by
  aligned quadwords for the page tables and by bytes for the search.
\<close>

section \<open>The memory map\<close>

text \<open>\<open>bios ebx\<close> is what \<open>int 0x15\<close> returns for the continuation \<open>ebx\<close>: the carry flag and the next
  continuation. The \<open>add edi, 24\<close> between the call and the \<open>jc\<close> sets the carry flag anew. The result is the address
  behind the entries and \<open>e820EntryNumber\<close>.\<close>

fun e820 :: "nat \<Rightarrow> (u32 \<Rightarrow> bool \<times> u32) \<Rightarrow> u32 \<Rightarrow> u32 \<Rightarrow> u8 \<Rightarrow> (u32 \<times> u8) option" where
  "e820 0 bios ebx edi entries = None"
| "e820 (Suc fuel) bios ebx edi entries =
     (let (carry, ebx) = bios ebx;
          carry = (unat edi + 24 \<ge> 2 ^ 32);
          edi = edi + 24 in
      if carry then Some (edi, entries)
      else
        let entries = entries + 1 in
        if ebx = 0 then Some (edi, entries) else e820 fuel bios ebx edi entries)"

section \<open>The video mode\<close>

text \<open>The registers are 16 bits wide: \<open>shl di, 4\<close> drops the upper bits of the segment.\<close>

definition modeListAddress :: "u16 \<Rightarrow> u16 \<Rightarrow> u32" where
  "modeListAddress modeSeg modeOff = ucast (push_bit 4 modeSeg + modeOff)"

text \<open>\<open>mode_info\<close> is what the BIOS writes to \<open>VBEMODEINFO\<close> for a mode: width, height, bits per pixel.
  The result is \<open>ecx\<close>, which is given to the BIOS as the mode to set.\<close>

fun findVesaMode :: "nat \<Rightarrow> (u32 \<Rightarrow> u16) \<Rightarrow> (u16 \<Rightarrow> u16 \<times> u16 \<times> u8) \<Rightarrow> u32 \<Rightarrow> u32 \<Rightarrow> u32 option" where
  "findVesaMode 0 mem16 mode_info edi ecx = None"
| "findVesaMode (Suc fuel) mem16 mode_info edi ecx =
     (if mem16 (edi + ecx) = 0xffff then Some ecx
      else
        let (width, height, bpp) = mode_info (mem16 (edi + ecx)) in
        if width \<noteq> 1024 \<or> height \<noteq> 768 \<or> bpp \<noteq> 32
        then findVesaMode fuel mem16 mode_info edi (ecx AND NOT 0xffff OR ucast (ucast ecx + 2 :: u16))
        else Some (ecx AND NOT 0xffff OR ucast (mem16 (edi + ecx))))"

section \<open>The page tables\<close>

definition boot_pml4 :: u64 where "boot_pml4 = 0x1000"
definition boot_pml3 :: u64 where "boot_pml3 = 0x2000"
definition boot_pml2 :: u64 where "boot_pml2 = 0x3000"
definition hh_pml2 :: u64 where "hh_pml2 = 0x4000"
definition hh_pml3 :: u64 where "hh_pml3 = 0x5000"

lemmas boot_table_defs = boot_pml4_def boot_pml3_def boot_pml2_def hh_pml2_def hh_pml3_def

text \<open>The stores of a word and of a double word at the start of a quadword, and \<open>rep stosw\<close>.\<close>

definition put_word :: "u64 \<Rightarrow> u16 \<Rightarrow> (u64 \<Rightarrow> u64) \<Rightarrow> u64 \<Rightarrow> u64" where
  "put_word a v q = q(a := q a AND NOT 0xffff OR ucast v)"

definition put_dword :: "u64 \<Rightarrow> u32 \<Rightarrow> (u64 \<Rightarrow> u64) \<Rightarrow> u64 \<Rightarrow> u64" where
  "put_dword a v q = q(a := q a AND NOT 0xffffffff OR ucast v)"

definition zero_tables :: "(u64 \<Rightarrow> u64) \<Rightarrow> u64 \<Rightarrow> u64" where
  "zero_tables q = (\<lambda>a. if boot_pml4 \<le> a \<and> a < boot_pml4 + 0x6000 then 0 else q a)"

definition link_tables :: "(u64 \<Rightarrow> u64) \<Rightarrow> u64 \<Rightarrow> u64" where
  "link_tables q =
     (let q = put_word (boot_pml4 + 256 * 8) (ucast boot_pml3 OR 0x3) q;
          q = put_word boot_pml4 (ucast boot_pml3 OR 0x3) q;
          q = put_word boot_pml3 (ucast boot_pml2 OR 0x3) q;
          q = put_word (boot_pml4 + 511 * 8) (ucast hh_pml3 OR 0x3) q in
      put_word (hh_pml3 + 510 * 8) (ucast hh_pml2 OR 0x3) q)"

fun buildPageTables :: "nat \<Rightarrow> u32 \<Rightarrow> u32 \<Rightarrow> (u64 \<Rightarrow> u64) \<Rightarrow> (u64 \<Rightarrow> u64) option" where
  "buildPageTables 0 eax edi q = None"
| "buildPageTables (Suc fuel) eax edi q =
     (let eax = eax OR (push_bit 7 1 OR 0x3);
          q = put_dword (boot_pml2 + ucast edi) eax q;
          q = put_dword (hh_pml2 + ucast edi) eax q;
          eax = eax + 0x200000;
          edi = edi + 8 in
      if eax < 0x40000000 then buildPageTables fuel eax edi q else Some q)"

text \<open>The tables the kernel starts with.\<close>

definition boot_tables :: "nat \<Rightarrow> (u64 \<Rightarrow> u64) \<Rightarrow> (u64 \<Rightarrow> u64) option" where
  "boot_tables fuel q = buildPageTables fuel 0 0 (link_tables (zero_tables q))"

section \<open>The search for the firmware's tables\<close>

definition rsdpSignature :: "u8 list" where
  "rsdpSignature = map (\<lambda>c. of_nat (of_char c)) (''RSD PTR '' @ [CHR 0x00])"

text \<open>The loop \<open>.l2\<close>: the bytes at \<open>eax\<close> against the signature.\<close>

fun signature_loop :: "nat \<Rightarrow> (u32 \<Rightarrow> u8) \<Rightarrow> u32 \<Rightarrow> nat \<Rightarrow> bool" where
  "signature_loop 0 b eax ecx = False"
| "signature_loop (Suc n) b eax ecx =
     (if b (eax + of_nat ecx) \<noteq> rsdpSignature ! ecx then False
      else if ecx = 7 then True
      else signature_loop n b eax (ecx + 1))"

definition signature_at :: "(u32 \<Rightarrow> u8) \<Rightarrow> u32 \<Rightarrow> bool" where
  "signature_at b eax = signature_loop 8 b eax 0"

text \<open>The loop \<open>.l1\<close>: the value \<open>bootheader.rsdp\<close> gets, or none if it keeps its 0.\<close>

fun rsdp_loop :: "nat \<Rightarrow> (u32 \<Rightarrow> u8) \<Rightarrow> u32 \<Rightarrow> u32 option option" where
  "rsdp_loop 0 b eax = None"
| "rsdp_loop (Suc fuel) b eax =
     (let eax = (if eax = 0xa0000 then 0xe0000 else eax) in
      if signature_at b eax then Some (Some eax)
      else if eax = 0x100000 then Some None
      else rsdp_loop fuel b (eax + 16))"

definition findRSDP :: "nat \<Rightarrow> (u32 \<Rightarrow> u8) \<Rightarrow> u32 option" where
  "findRSDP fuel b = map_option (\<lambda>r. case r of Some a \<Rightarrow> a | None \<Rightarrow> 0) (rsdp_loop fuel b 0x80000)"

section \<open>The start of another core\<close>

text \<open>What \<open>initCSTramp\<close> and \<open>smpLongModeCode\<close> take from the arguments at 0x500: \<open>cr3\<close>, the operand
  of \<open>lidt\<close> and the registers. The rest of \<open>c\<close> is what the core had before.\<close>

definition smpLongModeCode :: "(u64 \<Rightarrow> u64) \<Rightarrow> cpu \<Rightarrow> u64 \<times> u64 \<times> cpu" where
  "smpLongModeCode q c =
     (let rsp = q 0x500; rbx = q (0x500 + 16); rcx = q (0x500 + 24); rax = q (0x500 + 32) in
      (ucast (ucast (q (0x500 + 8)) :: u32), rcx,
       c\<lparr>reg := (reg c)(RSP := rsp, RBX := rbx, RCX := rcx, RAX := rax),
         seg := (\<lambda>s. case s of CS \<Rightarrow> 0x28 | FS \<Rightarrow> ucast rax | _ \<Rightarrow> 0x30), pc := rbx\<rparr>))"

section \<open>What the loops do\<close>

text \<open>The carry flag of the BIOS, with which it reports an error, has no effect.\<close>

lemma e820_ignores_carry: "e820 fuel bios ebx edi n = e820 fuel (\<lambda>x. (c x, snd (bios x))) ebx edi n"
  by (induction fuel arbitrary: ebx edi n) (simp_all add: Let_def case_prod_beta)

text \<open>A list of modes in a segment from 0x1000 on is looked for at the wrong address.\<close>

lemma modeListAddress_wrong: "modeListAddress 0xc000 0x1234 = 0x1234"
  by (simp add: modeListAddress_def)

definition suitable :: "u16 \<times> u16 \<times> u8 \<Rightarrow> bool" where
  "suitable = (\<lambda>(width, height, bpp). width = 1024 \<and> height = 768 \<and> bpp = 32)"

lemma small_low: "unat x < 2 ^ 16 \<Longrightarrow> x AND NOT 0xffff = 0" for x :: u32
proof -
  assume x: "unat x < 2 ^ 16"
  have m: "(0xffff :: u32) = mask 16" by (simp add: mask_eq_exp_minus_1)
  show ?thesis
    unfolding m using small_bits [OF x] by (intro bit_word_eqI) (auto simp: bit_simps)
qed

lemma unat_mode: "k < 2 ^ 16 \<Longrightarrow> unat (of_nat k :: u32) = k"
  by (simp only: unat_of_nat) simp

lemma next_mode:
  assumes "2 * k + 2 < 2 ^ 16"
  shows "(of_nat (2 * k) :: u32) AND NOT 0xffff OR ucast (ucast (of_nat (2 * k) :: u32) + 2 :: u16) = of_nat (2 * Suc k)"
proof -
  have x: "unat (of_nat (2 * k) :: u32) = 2 * k" using assms by (intro unat_mode) simp
  have "unat (ucast (of_nat (2 * k) :: u32) :: u16) = 2 * k"
    unfolding unsigned_ucast_eq x using assms by (simp add: take_bit_eq_mod)
  then have "unat ((ucast (of_nat (2 * k) :: u32) :: u16) + 2) = 2 * Suc k"
    using assms by (simp add: unat_word_ariths)
  then have "unat (ucast ((ucast (of_nat (2 * k) :: u32) :: u16) + 2) :: u32) = unat (of_nat (2 * Suc k) :: u32)"
    using assms by (subst unat_mode) (simp_all add: unsigned_ucast_eq take_bit_eq_mod)
  moreover have "(of_nat (2 * k) :: u32) AND NOT 0xffff = 0" using x assms by (intro small_low) simp
  ultimately show ?thesis by (metis or.left_neutral word_unat_eq_iff)
qed

lemma findVesaMode_from:
  assumes "i + n = m" and "2 * m + 2 < 2 ^ 16"
    and skip: "\<And>j. j < m \<Longrightarrow> mem16 (edi + of_nat (2 * j)) \<noteq> 0xffff \<and> \<not> suitable (mode_info (mem16 (edi + of_nat (2 * j))))"
  shows "mem16 (edi + of_nat (2 * m)) = 0xffff \<Longrightarrow>
      findVesaMode (Suc n) mem16 mode_info edi (of_nat (2 * i)) = Some (of_nat (2 * m))"
    and "mem16 (edi + of_nat (2 * m)) = mode \<Longrightarrow> mode \<noteq> 0xffff \<Longrightarrow> suitable (mode_info mode) \<Longrightarrow>
      findVesaMode (Suc n) mem16 mode_info edi (of_nat (2 * i)) = Some (ucast mode)"
  using assms(1)
proof (atomize (full), induction n arbitrary: i)
  case 0
  have "unat (of_nat (2 * m) :: u32) = 2 * m" using assms(2) by (intro unat_mode) simp
  then have "(of_nat (2 * m) :: u32) AND NOT 0xffff = 0" using assms(2) by (intro small_low) simp
  then show ?case using 0 by (auto simp: suitable_def simp del: of_nat_mult split: prod.splits)
next
  case (Suc n)
  have i: "i < m" "2 * i + 2 < 2 ^ 16" using Suc.prems assms(2) by simp_all
  have "findVesaMode (Suc (Suc n)) mem16 mode_info edi (of_nat (2 * i)) =
      findVesaMode (Suc n) mem16 mode_info edi (of_nat (2 * Suc i))"
    using skip [OF i(1)] next_mode [OF i(2)]
    by (subst findVesaMode.simps) (auto simp: suitable_def simp del: findVesaMode.simps of_nat_mult of_nat_Suc split: prod.splits)
  then show ?case using Suc.IH [of "Suc i"] Suc.prems by simp
qed

section \<open>The tables built\<close>

definition pde :: "nat \<Rightarrow> u32" where
  "pde j = of_nat (0x200000 * j + 0x83)"

lemma bits_83: "bit (0x83 :: 'a::len word) n \<Longrightarrow> n < 8"
proof -
  assume b: "bit (0x83 :: 'a word) n"
  have "(0x83 :: 'a word) = word_of_int 0x83" by simp
  then have "bit (0x83 :: int) n" using b by (simp only: bit_word_of_int_iff)
  moreover have "take_bit 8 (0x83 :: int) = 0x83" by simp
  ultimately show "n < 8" by (metis bit_take_bit_iff)
qed

lemma add_83:
  assumes "0x200000 dvd unat p"
  shows "p + 0x83 = p OR (0x83 :: 'a::len word)"
proof (rule disjunctive_add)
  fix n
  show "\<not> bit p n \<or> \<not> bit (0x83 :: 'a word) n"
    using aligned_bits [of 21 p n] bits_83 [of n] assms by fastforce
qed

lemma pde_or: "j < 2 ^ 10 \<Longrightarrow> pde j OR 0x83 = pde j"
proof -
  assume j: "j < 2 ^ 10"
  have "unat (of_nat (0x200000 * j) :: u32) = 0x200000 * j" using j by (simp only: unat_of_nat) simp
  then have "pde j = of_nat (0x200000 * j) OR 0x83"
    using add_83 [of "of_nat (0x200000 * j) :: u32"] by (simp add: pde_def)
  then show ?thesis by (simp add: or.assoc)
qed

lemma unat_pde: "j \<le> 512 \<Longrightarrow> unat (pde j) = 0x200000 * j + 0x83"
  unfolding pde_def by (simp only: unat_of_nat) simp

lemma pde_next: "pde j + 0x200000 = pde (Suc j)"
  by (simp add: pde_def algebra_simps)

lemma ucast_pde:
  assumes "j < 512"
  shows "ucast (pde j) = (of_nat (0x200000 * j) OR 0x83 :: u64)"
proof -
  have u: "unat (of_nat (0x200000 * j) :: u64) = 0x200000 * j" using assms by (intro unat_of_nat_u64) simp
  have "unat (ucast (pde j) :: u64) = 0x200000 * j + 0x83"
    using assms unat_pde [of j] by (simp add: unsigned_ucast_eq take_bit_eq_mod)
  also have "\<dots> = unat (of_nat (0x200000 * j) + 0x83 :: u64)" using u assms by (subst unat_add_u64) simp_all
  finally show ?thesis using add_83 [of "of_nat (0x200000 * j) :: u64"] u by (simp only: word_unat_eq_iff) simp
qed

text \<open>The quadwords of the two tables, from entry \<open>i\<close> on.\<close>

definition entries_from :: "nat \<Rightarrow> u64 set" where
  "entries_from i = (\<lambda>j. boot_pml2 + 8 * of_nat j) ` {i..<512} \<union> (\<lambda>j. hh_pml2 + 8 * of_nat j) ` {i..<512}"

lemma unat_entry:
  "j < 512 \<Longrightarrow> unat (boot_pml2 + 8 * of_nat j) = 0x3000 + 8 * j"
  "j < 512 \<Longrightarrow> unat (hh_pml2 + 8 * of_nat j) = 0x4000 + 8 * j"
proof -
  have "unat (8 * of_nat j :: u64) = 8 * j" if "j < 512" using unat_of_nat_u64 [of "8 * j"] that by simp
  then show "j < 512 \<Longrightarrow> unat (boot_pml2 + 8 * of_nat j) = 0x3000 + 8 * j"
    "j < 512 \<Longrightarrow> unat (hh_pml2 + 8 * of_nat j) = 0x4000 + 8 * j"
    by (simp_all add: unat_add_u64 boot_table_defs)
qed

lemma entry_eq_iff:
  assumes "i < 512" "j < 512"
  shows "boot_pml2 + 8 * of_nat i = boot_pml2 + 8 * of_nat j \<longleftrightarrow> i = j"
    "hh_pml2 + 8 * of_nat i = hh_pml2 + 8 * of_nat j \<longleftrightarrow> i = j"
    "boot_pml2 + 8 * of_nat i \<noteq> hh_pml2 + 8 * of_nat j" "hh_pml2 + 8 * of_nat j \<noteq> boot_pml2 + 8 * of_nat i"
  using unat_entry assms by (auto simp: word_unat_eq_iff)

lemma entries_from_iff:
  "a \<in> entries_from i \<longleftrightarrow> (\<exists>j. i \<le> j \<and> j < 512 \<and> (a = boot_pml2 + 8 * of_nat j \<or> a = hh_pml2 + 8 * of_nat j))"
  unfolding entries_from_def Un_iff image_iff Bex_def atLeastLessThan_iff by blast

lemma entries_fromI: "i < 512 \<Longrightarrow> boot_pml2 + 8 * of_nat i \<in> entries_from i" "i < 512 \<Longrightarrow> hh_pml2 + 8 * of_nat i \<in> entries_from i"
  by (auto simp: entries_from_def)

lemma put_dword_zero: "q a = 0 \<Longrightarrow> put_dword a v q = q(a := ucast v)"
  by (simp add: put_dword_def)

lemma buildPageTables_fills:
  assumes "i + n = 511" and "eax OR 0x83 = pde i" and "edi = of_nat (8 * i)"
    and "\<forall>a \<in> entries_from i. q a = 0"
  shows "\<exists>q'. buildPageTables (Suc n) eax edi q = Some q' \<and>
    (\<forall>j. i \<le> j \<and> j < 512 \<longrightarrow> q' (boot_pml2 + 8 * of_nat j) = ucast (pde j) \<and> q' (hh_pml2 + 8 * of_nat j) = ucast (pde j)) \<and>
    (\<forall>a. a \<notin> entries_from i \<longrightarrow> q' a = q a)"
  using assms
proof (induction n arbitrary: i eax edi q)
  case 0
  have i: "i = 511" and lt: "i < 512" using 0 by simp_all
  let ?a = "boot_pml2 + 8 * of_nat i" and ?b = "hh_pml2 + 8 * of_nat i"
  have edi: "(ucast edi :: u64) = 8 * of_nat i" unfolding 0 i by simp
  have q: "q ?a = 0" "q ?b = 0" using 0(4) entries_fromI [OF lt] by blast+
  have "\<not> pde i + 0x200000 < 0x40000000"
    unfolding pde_next using unat_pde [of "Suc i"] i by (simp add: word_less_nat_alt)
  then have "buildPageTables (Suc 0) eax edi q = Some (q(?a := ucast (pde i), ?b := ucast (pde i)))"
    using 0(2) q entry_eq_iff [of i i] i by (simp add: edi Let_def put_dword_zero)
  moreover have "j = i" if "i \<le> j" "j < 512" for j using that i by simp
  ultimately show ?case
    using entry_eq_iff [OF lt lt] entries_fromI [OF lt]
    by (intro exI [of _ "q(?a := ucast (pde i), ?b := ucast (pde i))"]) (auto simp del: buildPageTables.simps)
next
  case (Suc n)
  have i: "i < 511" using Suc.prems by simp
  let ?a = "boot_pml2 + 8 * of_nat i" and ?b = "hh_pml2 + 8 * of_nat i"
  let ?q = "q(?a := ucast (pde i), ?b := ucast (pde i))"
  have "unat (of_nat (8 * i) :: u32) = 8 * i" using i by (simp only: unat_of_nat) simp
  then have "unat (ucast edi :: u64) = unat (8 * of_nat i :: u64)"
    unfolding Suc.prems(3) using i unat_of_nat_u64 [of "8 * i"] by (simp add: unsigned_ucast_eq take_bit_eq_mod)
  then have edi: "(ucast edi :: u64) = 8 * of_nat i" by (simp only: word_unat_eq_iff)
  have q: "q ?a = 0" "q ?b = 0" using Suc.prems(4) entries_fromI [of i] i by simp_all
  have "pde i + 0x200000 < 0x40000000"
    unfolding pde_next using unat_pde [of "Suc i"] i by (simp add: word_less_nat_alt)
  then have step: "buildPageTables (Suc (Suc n)) eax edi q = buildPageTables (Suc n) (pde (Suc i)) (edi + 8) ?q"
    using Suc.prems(2) q entry_eq_iff [of i i] i
    by (subst buildPageTables.simps) (simp add: edi Let_def put_dword_zero pde_next del: buildPageTables.simps)
  have sub: "a \<in> entries_from i \<and> a \<noteq> ?a \<and> a \<noteq> ?b" if "a \<in> entries_from (Suc i)" for a
  proof -
    obtain j where j: "i < j" "j < 512" "a = boot_pml2 + 8 * of_nat j \<or> a = hh_pml2 + 8 * of_nat j"
      using \<open>a \<in> entries_from (Suc i)\<close> unfolding entries_from_iff Suc_le_eq by blast
    then have "a \<in> entries_from i" unfolding entries_from_iff using less_imp_le by blast
    moreover have "a \<noteq> ?a \<and> a \<noteq> ?b" using j entry_eq_iff [of j i] entry_eq_iff [of i j] i by auto
    ultimately show ?thesis by blast
  qed
  obtain q' where q': "buildPageTables (Suc n) (pde (Suc i)) (edi + 8) ?q = Some q'"
    "\<And>j. Suc i \<le> j \<Longrightarrow> j < 512 \<Longrightarrow> q' (boot_pml2 + 8 * of_nat j) = ucast (pde j) \<and> q' (hh_pml2 + 8 * of_nat j) = ucast (pde j)"
    "\<And>a. a \<notin> entries_from (Suc i) \<Longrightarrow> q' a = ?q a"
  proof -
    have 1: "Suc i + n = 511" and 2: "pde (Suc i) OR 0x83 = pde (Suc i)"
      using Suc.prems(1) pde_or [of "Suc i"] i by simp_all
    have 3: "edi + 8 = of_nat (8 * Suc i)" unfolding Suc.prems(3) by simp
    have 4: "\<forall>a \<in> entries_from (Suc i). ?q a = 0" using sub Suc.prems(4) by simp
    show ?thesis using Suc.IH [OF 1 2 3 4] that by blast
  qed
  have out: "?a \<notin> entries_from (Suc i)" "?b \<notin> entries_from (Suc i)" using sub by blast+
  have "q' (boot_pml2 + 8 * of_nat j) = ucast (pde j) \<and> q' (hh_pml2 + 8 * of_nat j) = ucast (pde j)"
    if "i \<le> j" "j < 512" for j
  proof (cases "j = i")
    case True
    then show ?thesis using q'(3) [OF out(1)] q'(3) [OF out(2)] entry_eq_iff [of i i] i by simp
  qed (use q'(2) [of j] that in auto)
  moreover have "q' a = q a" if "a \<notin> entries_from i" for a
  proof -
    have "a \<noteq> ?a" "a \<noteq> ?b" "a \<notin> entries_from (Suc i)" using that i sub entries_fromI [of i] by auto
    then show ?thesis using q'(3) by simp
  qed
  ultimately show ?case using step q'(1) by auto
qed

text \<open>The upper levels.\<close>

lemma link_tables_entries:
  "link_tables (zero_tables q) 0x1000 = 0x2003" "link_tables (zero_tables q) 0x1800 = 0x2003"
  "link_tables (zero_tables q) 0x2000 = 0x3003" "link_tables (zero_tables q) 0x1ff8 = 0x5003"
  "link_tables (zero_tables q) 0x5ff0 = 0x4003"
  by (simp_all add: link_tables_def put_word_def zero_tables_def boot_table_defs Let_def)

lemma link_tables_zero: "a \<in> entries_from 0 \<Longrightarrow> link_tables (zero_tables q) a = 0"
proof -
  assume "a \<in> entries_from 0"
  then obtain j where "j < 512" "a = boot_pml2 + 8 * of_nat j \<or> a = hh_pml2 + 8 * of_nat j"
    by (auto simp: entries_from_def)
  then have a: "0x3000 \<le> unat a" "unat a < 0x5000" using unat_entry [of j] by auto
  then have "a \<noteq> 0x1000" "a \<noteq> 0x1800" "a \<noteq> 0x1ff8" "a \<noteq> 0x2000" "a \<noteq> 0x5ff0" by auto
  moreover have "0x1000 \<le> a" "a < 0x7000" using a by (simp_all add: word_le_nat_alt word_less_nat_alt)
  ultimately show ?thesis
    by (simp add: link_tables_def put_word_def zero_tables_def boot_table_defs Let_def)
qed

lemma low_not_entry: "unat a < 0x3000 \<or> 0x5000 \<le> unat a \<Longrightarrow> a \<notin> entries_from 0"
  using unat_entry by (fastforce simp: entries_from_def)

lemma boot_tables_entries:
  "\<exists>q'. boot_tables 512 q = Some q' \<and> q' 0x1000 = 0x2003 \<and> q' 0x1800 = 0x2003 \<and> q' 0x2000 = 0x3003 \<and>
    q' 0x1ff8 = 0x5003 \<and> q' 0x5ff0 = 0x4003 \<and>
    (\<forall>j < 512. q' (0x3000 + 8 * of_nat j) = of_nat (0x200000 * j) OR 0x83 \<and>
      q' (0x4000 + 8 * of_nat j) = of_nat (0x200000 * j) OR 0x83)"
proof -
  obtain q' where q': "buildPageTables (Suc 511) 0 0 (link_tables (zero_tables q)) = Some q'"
    "\<forall>j. 0 \<le> j \<and> j < 512 \<longrightarrow> q' (boot_pml2 + 8 * of_nat j) = ucast (pde j) \<and> q' (hh_pml2 + 8 * of_nat j) = ucast (pde j)"
    "\<forall>a. a \<notin> entries_from 0 \<longrightarrow> q' a = link_tables (zero_tables q) a"
    using buildPageTables_fills [of 0 511 0 0 "link_tables (zero_tables q)"] link_tables_zero pde_def [of 0] by auto
  then show ?thesis
    using link_tables_entries [of q]
    by (intro exI [of _ q']) (simp add: boot_tables_def ucast_pde boot_pml2_def hh_pml2_def low_not_entry)
qed

text \<open>The walk through a table of the first level, one of the second and the entry of a large page.\<close>

lemma walk_boot:
  assumes "q (boot_pml4 + 8 * slot 3 va) = t3 OR 3" "q (t3 + 8 * slot 2 va) = t2 OR 3"
    "q (t2 + 8 * slot 1 va) = p OR 0x83"
    and pages: "page_ok t3" "page_ok t2" and p: "0x200000 dvd unat p" "unat p < 2 ^ 47"
  shows "walk (\<lambda>a. q (a - HIGH_VMA)) boot_pml4 va = Some (3, p + (va AND 0x1fffff))"
proof -
  note page = large_base [OF p]
  have f: "bit (3 :: u64) 0" "\<not> bit (3 :: u64) 7" "bit (0x83 :: u64) 0" "bit (0x83 :: u64) 7" by code_simp+
  have "frame boot_pml4 = boot_pml4" by (rule frame_page) (simp add: page_ok_def boot_pml4_def)
  then have e4: "entry_at (\<lambda>a. q (a - HIGH_VMA)) boot_pml4 (slot 3 va) = t3 OR 3"
    using assms(1) by (simp add: entry_at_def)
  have e3: "entry_at (\<lambda>a. q (a - HIGH_VMA)) (t3 OR 3) (slot 2 va) = t2 OR 3"
    using assms(2) frame_entry [OF pages(1), of 3] by (simp add: entry_at_def)
  have e2: "entry_at (\<lambda>a. q (a - HIGH_VMA)) (t2 OR 3) (slot 1 va) = p OR 0x83"
    using assms(3) frame_entry [OF pages(2), of 3] by (simp add: entry_at_def)
  have fr: "frame (p OR 0x83) = p" by (rule frame_entry) (use page in simp_all)
  have r: "(t3 OR 3) AND (t2 OR 3) AND (p OR 0x83) AND 7 = 3"
  proof (rule bit_word_eqI)
    fix n
    have low: "\<not> bit x n" if "page_ok x" "n < 3" for x
      using aligned_bits [of 12 x n] that by (simp add: page_ok_def)
    have m: "(3 :: u64) = mask 2" by (simp add: mask_eq_exp_minus_1)
    have three: "bit (3 :: u64) n \<longleftrightarrow> n < 2" unfolding m by (auto simp: bit_mask_iff)
    have "bit (0x83 :: u64) 0" "bit (0x83 :: u64) 1" "\<not> bit (0x83 :: u64) 2" by code_simp+
    then have "n < 3 \<Longrightarrow> bit (0x83 :: u64) n \<longleftrightarrow> n < 2" by (auto simp: less_Suc_eq numeral_3_eq_3 numeral_2_eq_2)
    then show "bit ((t3 OR 3) AND (t2 OR 3) AND (p OR 0x83) AND 7) n \<longleftrightarrow> bit (3 :: u64) n"
      unfolding bit_and_iff bit_or_iff bit_7_iff three using low [OF pages(1)] low [OF pages(2)] low [OF page(1)] by auto
  qed
  show ?thesis
    unfolding walk_def Let_def e4 e3 e2
    using r page(2) by (simp add: entry_flags pages page f fr and.assoc)
qed

lemma walk_boot_at:
  assumes q: "q 0x1000 = 0x2003" "q 0x1800 = 0x2003" "q 0x2000 = 0x3003" "q 0x1ff8 = 0x5003" "q 0x5ff0 = 0x4003"
    and tables: "\<forall>j < 512. q (0x3000 + 8 * of_nat j) = of_nat (0x200000 * j) OR 0x83 \<and>
      q (0x4000 + 8 * of_nat j) = of_nat (0x200000 * j) OR 0x83"
    and p: "unat p < 2 ^ 30" and va: "unat va = k * 2 ^ 39 + l * 2 ^ 30 + unat p"
    and kl: "k mod 512 = 0 \<and> l = 0 \<or> k mod 512 = 256 \<and> l = 0 \<or> k mod 512 = 511 \<and> l = 510"
  shows "walk (\<lambda>a. q (a - HIGH_VMA)) boot_pml4 va = Some (3, p)"
proof -
  define j where "j = unat p div 0x200000"
  have l: "l < 512" using kl by auto
  note s = slots_of [OF va p l]
  have j: "j < 512" "slot 1 va = of_nat j" using s(3,4) by (simp_all add: j_def)
  have ok: "page_ok 0x2000" "page_ok 0x3000" "page_ok 0x4000" "page_ok 0x5000" by (simp_all add: page_ok_def)
  let ?b = "of_nat (0x200000 * j) :: u64"
  have ub: "unat ?b = 0x200000 * j" using j(1) by (intro unat_of_nat_u64) simp
  then have b: "0x200000 dvd unat ?b" "unat ?b < 2 ^ 47" using j(1) by simp_all
  have "walk (\<lambda>a. q (a - HIGH_VMA)) boot_pml4 va = Some (3, ?b + (va AND 0x1fffff))"
  proof (cases "l = 0")
    case True
    then have "q (boot_pml4 + 8 * slot 3 va) = 0x2000 OR 3"
      using kl q(1,2) s(1) by (auto simp: boot_pml4_def)
    moreover have "q (0x2000 + 8 * slot 2 va) = 0x3000 OR 3" using True q(3) s(2) by simp
    moreover have "q (0x3000 + 8 * slot 1 va) = ?b OR 0x83" using tables [rule_format, OF j(1)] by (simp only: j(2))
    ultimately show ?thesis by (rule walk_boot) (rule ok b)+
  next
    case False
    then have "q (boot_pml4 + 8 * slot 3 va) = 0x5000 OR 3" "l = 510"
      using kl q(4) s(1) by (auto simp: boot_pml4_def)
    moreover have "q (0x5000 + 8 * slot 2 va) = 0x4000 OR 3" using \<open>l = 510\<close> q(5) s(2) by simp
    moreover have "q (0x4000 + 8 * slot 1 va) = ?b OR 0x83" using tables [rule_format, OF j(1)] by (simp only: j(2))
    ultimately show ?thesis by (intro walk_boot) (rule ok b | assumption)+
  qed
  moreover have "unat (?b + (va AND 0x1fffff)) = unat p"
    using b(2) s(5) ub by (subst unat_add_u64) (simp_all add: and_1fffff j_def)
  then have "?b + (va AND 0x1fffff) = p" by (simp only: word_unat_eq_iff)
  ultimately show ?thesis by simp
qed

section \<open>The search\<close>

text \<open>The first eight bytes of the signature at an address, and the addresses in the order of the search.\<close>

definition signature_here :: "(u32 \<Rightarrow> u8) \<Rightarrow> u32 \<Rightarrow> bool" where
  "signature_here b a \<longleftrightarrow> map (\<lambda>i. b (a + of_nat i)) [0..<8] = take 8 rsdpSignature"

definition steps_from :: "u32 \<Rightarrow> nat \<Rightarrow> u32 list" where
  "steps_from a n = map (\<lambda>i. a + 16 * of_nat i) [0..<n]"

lemma signature_at_here: "signature_at b a \<longleftrightarrow> signature_here b a"
  by (simp add: signature_at_def signature_here_def rsdpSignature_def upt_rec eval_nat_numeral)

lemma steps_from_Suc: "steps_from a (Suc n) = a # steps_from (a + 16) n"
  by (simp add: steps_from_def upt_conv_Cons map_Suc_upt [symmetric] algebra_simps del: upt_Suc)

lemma find_append: "find P (xs @ ys) = (case find P xs of Some x \<Rightarrow> Some x | None \<Rightarrow> find P ys)"
  by (induction xs) simp_all

lemma rsdp_loop_steps:
  assumes "\<forall>i < n. a + 16 * of_nat i \<noteq> 0xa0000 \<and> a + 16 * of_nat i \<noteq> 0x100000"
  shows "rsdp_loop (n + fuel) b a =
    (case find (signature_here b) (steps_from a n) of Some x \<Rightarrow> Some (Some x)
     | None \<Rightarrow> rsdp_loop fuel b (a + 16 * of_nat n))"
  using assms
proof (induction n arbitrary: a)
  case 0
  then show ?case by (simp add: steps_from_def)
next
  case (Suc n)
  have a: "a \<noteq> 0xa0000" "a \<noteq> 0x100000" using Suc.prems [rule_format, of 0] by auto
  have "\<forall>i < n. (a + 16) + 16 * of_nat i \<noteq> 0xa0000 \<and> (a + 16) + 16 * of_nat i \<noteq> 0x100000"
    using Suc.prems by (auto simp: add.assoc dest: spec [of _ "Suc _"])
  note IH = Suc.IH [OF this]
  have next_address: "a + 16 * of_nat (Suc n) = a + 16 + 16 * of_nat n" by (simp add: algebra_simps)
  show ?case
    unfolding next_address using a IH by (simp add: steps_from_Suc signature_at_here Let_def del: of_nat_Suc)
qed

section \<open>Properties\<close>

text \<open>
  C8: the page tables the boot sector builds make the first GiB of physical memory visible, present and writable, at its own
  address, from \<open>HIGH_VMA\<close> on and from \<open>KERNEL_HIGH_VMA\<close> on, the addresses the C code uses before \<open>initVMM\<close>; 512
  rounds of the loop are enough.
\<close>

theorem boot_tables_map:
  "\<exists>q'. boot_tables 512 q = Some q' \<and> (\<forall>p. unat p < 2 ^ 30 \<longrightarrow>
    walk (\<lambda>a. q' (a - HIGH_VMA)) boot_pml4 p = Some (3, p) \<and>
    walk (\<lambda>a. q' (a - HIGH_VMA)) boot_pml4 (p + HIGH_VMA) = Some (3, p) \<and>
    walk (\<lambda>a. q' (a - HIGH_VMA)) boot_pml4 (p + KERNEL_HIGH_VMA) = Some (3, p))"
proof -
  obtain q' where q': "boot_tables 512 q = Some q'" "q' 0x1000 = 0x2003" "q' 0x1800 = 0x2003" "q' 0x2000 = 0x3003"
      "q' 0x1ff8 = 0x5003" "q' 0x5ff0 = 0x4003"
      "\<forall>j < 512. q' (0x3000 + 8 * of_nat j) = of_nat (0x200000 * j) OR 0x83 \<and>
        q' (0x4000 + 8 * of_nat j) = of_nat (0x200000 * j) OR 0x83"
    using boot_tables_entries [of q] by blast
  note at = walk_boot_at [OF q'(2-7)]
  have "walk (\<lambda>a. q' (a - HIGH_VMA)) boot_pml4 p = Some (3, p) \<and>
      walk (\<lambda>a. q' (a - HIGH_VMA)) boot_pml4 (p + HIGH_VMA) = Some (3, p) \<and>
      walk (\<lambda>a. q' (a - HIGH_VMA)) boot_pml4 (p + KERNEL_HIGH_VMA) = Some (3, p)" if p: "unat p < 2 ^ 30" for p
  proof -
    have "unat (p + HIGH_VMA) = 0x1ffff00 * 2 ^ 39 + 0 * 2 ^ 30 + unat p"
      "unat (p + KERNEL_HIGH_VMA) = 0x1ffffff * 2 ^ 39 + 510 * 2 ^ 30 + unat p"
      using p by (simp_all add: unat_add_u64 HIGH_VMA_def KERNEL_HIGH_VMA_def)
    then show ?thesis using at [OF p, of p 0 0] at [OF p, of "p + HIGH_VMA" "0x1ffff00" 0]
        at [OF p, of "p + KERNEL_HIGH_VMA" "0x1ffffff" 510] by simp
  qed
  then show ?thesis using q'(1) by blast
qed

text \<open>
  C30: \<open>findRSDP\<close> looks at every sixteenth address from 0x80000 to the video memory and from 0xe0000
  to the first MiB inclusive, and its result is the first one that holds the signature, 0 if there is none.
\<close>

theorem findRSDP_finds:
  "findRSDP 16385 b =
    Some (case find (signature_here b) (steps_from 0x80000 8192 @ steps_from 0xe0000 8193) of Some a \<Rightarrow> a | None \<Rightarrow> 0)"
proof -
  have u: "unat (16 * of_nat i :: u32) = 16 * i" if "i < 8192" for i
    using that unat_mode [of i] by (simp add: unat_word_ariths)
  have v: "unat (a + 16 * of_nat i :: u32) = unat a + 16 * i" if "i < 8192" "unat a \<le> 0xe0000" for a i
    using that u [OF that(1)] by (simp add: unat_word_ariths)
  have c: "\<forall>i < 8192. (0x80000 :: u32) + 16 * of_nat i \<noteq> 0xa0000 \<and> (0x80000 :: u32) + 16 * of_nat i \<noteq> 0x100000"
      "\<forall>i < 8192. (0xe0000 :: u32) + 16 * of_nat i \<noteq> 0xa0000 \<and> (0xe0000 :: u32) + 16 * of_nat i \<noteq> 0x100000"
    using v [of _ "0x80000"] v [of _ "0xe0000"] by (auto simp: word_unat_eq_iff)
  have ends: "0x80000 + 16 * of_nat 8192 = (0xa0000 :: u32)" "0xe0000 + 16 * of_nat 8192 = (0x100000 :: u32)" by simp_all
  have 1: "rsdp_loop 16385 b 0x80000 = (case find (signature_here b) (steps_from 0x80000 8192) of
      Some x \<Rightarrow> Some (Some x) | None \<Rightarrow> rsdp_loop 8193 b 0xa0000)"
    using rsdp_loop_steps [OF c(1), of 8193 b] unfolding ends by simp
  have "rsdp_loop (Suc 8192) b 0xa0000 = rsdp_loop (Suc 8192) b 0xe0000"
    by (simp only: rsdp_loop.simps Let_def) simp
  then have 2: "rsdp_loop 8193 b 0xa0000 = (case find (signature_here b) (steps_from 0xe0000 8192) of
      Some x \<Rightarrow> Some (Some x) | None \<Rightarrow> rsdp_loop 1 b 0x100000)"
    using rsdp_loop_steps [OF c(2), of 1 b] unfolding ends by simp
  have 3: "rsdp_loop 1 b 0x100000 = Some (if signature_here b 0x100000 then Some 0x100000 else None)"
    using signature_at_here [of b "0x100000"] by (simp add: One_nat_def [symmetric] del: One_nat_def) (simp add: Let_def)
  have 4: "steps_from 0xe0000 8193 = steps_from 0xe0000 8192 @ [0x100000]"
    by (simp add: steps_from_def upt_Suc_append [of 0 8192, simplified])
  show ?thesis
    unfolding findRSDP_def 1 2 3 4 by (simp add: find_append split: option.split)
qed

text \<open>
  A started core runs on the stack, at the address, with the page tables and the interrupt table that \<open>prepTrampoline\<close> was
  given, and every interrupt it takes from the kernel reports the number \<open>numberOfCores\<close> had.
\<close>

theorem smp_handover:
  fixes s :: "'a smp_state_scheme"
  assumes "unat pml4 < 2 ^ 32" and "unat (numberOfCores s) < 2 ^ 16"
  shows "let (cr3, idtOperand, c') = smpLongModeCode (\<lambda>a. mem (prepTrampoline stack pml4 entryPt idtPtr s) (a + HIGH_VMA)) c;
      e = enter m kstack g (Isr n) None c' in
    reg c' RSP = stack \<and> pc c' = entryPt \<and> cr3 = pml4 \<and> idtOperand = idtPtr \<and> privilege (seg c' CS) = 0 \<and>
    r_core (regs_at (quad e) (reg e RDI)) = numberOfCores s"
proof -
  have 1: "ucast (ucast pml4 :: u32) = pml4"
    using small_bits [OF assms(1)] by (intro bit_word_eqI) (auto simp: bit_simps)
  have 2: "ucast (ucast (numberOfCores s) :: u16) = numberOfCores s"
    using small_bits [OF assms(2)] by (intro bit_word_eqI) (auto simp: bit_simps)
  show ?thesis
    by (simp add: smpLongModeCode_def prepTrampoline_def Let_def enter_frame 1 2 privilege_def HIGH_VMA_def)
qed

section \<open>Witnesses\<close>

text \<open>The address the kernel is linked to.\<close>

theorem boot_tables_map_witness:
  "\<exists>q'. boot_tables 512 (\<lambda>_. 0x1234) = Some q' \<and>
     walk (\<lambda>a. q' (a - HIGH_VMA)) boot_pml4 0xffffffff80100000 = Some (3, 0x100000)"
proof -
  obtain q' where q': "boot_tables 512 (\<lambda>_. 0x1234) = Some q'"
    "unat (0x100000 :: u64) < 2 ^ 30 \<longrightarrow> walk (\<lambda>a. q' (a - HIGH_VMA)) boot_pml4 (0x100000 + KERNEL_HIGH_VMA) = Some (3, 0x100000)"
    using boot_tables_map [of "\<lambda>_. 0x1234"] by blast
  then show ?thesis by (simp add: KERNEL_HIGH_VMA_def)
qed

theorem smp_handover_witness:
  "let (cr3, idtOperand, c') = smpLongModeCode
       (\<lambda>a. mem (prepTrampoline 0x9000 0x200000 0x1234 0x5678 (example_smp\<lparr>numberOfCores := 3\<rparr>)) (a + HIGH_VMA)) example_cpu in
     reg c' RSP = 0x9000 \<and> pc c' = 0x1234 \<and> cr3 = 0x200000 \<and> idtOperand = 0x5678"
  using smp_handover [of "0x200000" "example_smp\<lparr>numberOfCores := 3\<rparr>" "0x9000" "0x1234" "0x5678" example_cpu]
  by (simp add: case_prod_beta Let_def)

text \<open>A list of two modes of which the second is the one looked for.\<close>

lemma findVesaMode_example:
  "findVesaMode 2 (\<lambda>a. if a = 0x500 then 0x101 else if a = 0x502 then 0x118 else 0xffff)
     (\<lambda>v. if v = 0x118 then (1024, 768, 32) else (640, 480, 8)) 0x500 0 = Some 0x118"
  by code_simp

end
