(* ===== verification/Spec2Isabelle.thy ===== *)
theory Spec2Isabelle
  imports Boot_Sector
begin

text \<open>
  A verification library for seaweed, a small x86-64 kernel in C. The theories form a chain; each one adds
  the global variables of its source file as fields to the record of the state (\<open>console_state\<close> is its root,
  \<open>kernel_state\<close> its end), so that every function runs on the state of the whole kernel and
  the calls between the files are calls between the definitions. A function that can go wrong returns
  \<open>fault + 'a\<close> (\<open>result\<close>): an access outside an object, a division by zero, a lock that is never free again,
  an overflow of a signed sum, an argument of the wrong type and a halt of the core are values of \<open>fault\<close>. Integers
  are words of the width of the C type.

  \<^bold>\<open>Foundations.\<close> \<open>Kernel_Prelude\<close>: faults, sequencing, the counting loops, the rules of \<open>holds\<close> (a call returns and its
  result satisfies a predicate). \<open>Mem_Utils\<close> (\<^verbatim>\<open>lib/libk/memUtils.c\<close>): bit arrays behind the locale \<open>bit_array\<close>, fills and
  copies. \<open>Spin_Lock\<close> (\<open>spinLock\<close>, \<open>spinRelease\<close> of \<^verbatim>\<open>kernel/sched/scheduler.c\<close>): mutual exclusion of any number of cores as a
  step relation, and why a locked section may be modelled as if it ran alone. \<open>Run_Allocator\<close>: the first-fit search
  and the locale \<open>run_allocator\<close> of an allocator whose sequences of calls never hand out overlapping
  memory, interpreted on both allocators. \<open>K_String\<close> (\<^verbatim>\<open>lib/libk/string.c\<close>) and \<open>Console\<close> (\<open>kprintDS\<close> of \<^verbatim>\<open>lib/libk/output.c\<close>):
  strings with their NUL, the format loop, the locale \<open>char_device\<close> of a routine that puts a character, in which the loop
  is proved once for the serial port, the screen and the system call.

  \<^bold>\<open>Memory.\<close> \<open>Physical_Pages\<close>, \<open>Kernel_Heap\<close>, \<open>Virtual_Pages\<close> (\<^verbatim>\<open>kernel/mm\<close>): first fit as the specification of
  \<open>physicalPageAlloc\<close> and \<open>kmalloc\<close>, the invariants \<open>pmm_ok\<close> and \<open>heap_ok\<close>, disjointness over call sequences, what
  \<open>krealloc\<close> copies, and page tables whose walk by the processor gives the mapping that was asked for.

  \<^bold>\<open>Devices.\<close> \<open>Font\<close> and \<open>Screen\<close> (\<^verbatim>\<open>kernel/drivers/vesa.c\<close>, \<open>kprintVS\<close>): pixels, glyphs and a terminal of cells.
  \<open>Machine_IO\<close>: ports and device registers as events whose answers are a function of the history, so that any device
  can stand behind them. \<open>Pci\<close>: the scan of the buses against a reference enumeration. \<open>Acpi\<close> (\<^verbatim>\<open>rsdp.c\<close>, \<^verbatim>\<open>madt.c\<close>, \<^verbatim>\<open>hpet.c\<close>): search
  and parsing of the firmware's tables, waiting on the timer. \<open>Apic\<close>: local and I/O interrupt controllers.
  \<open>Ahci\<close> (\<^verbatim>\<open>kernel/drivers/ahci.c\<close>): the command structures of \<open>sataRW\<close>; a command is decoded back by \<open>decode_request\<close> and
  \<open>ahci_device\<close> is what the documentation makes a controller do with it; on registers that behave as
  documented (\<open>ahci_port\<close>) reads and writes transfer exactly the sectors asked for. \<open>Bfs\<close> (\<^verbatim>\<open>kernel/fs/bfs.c\<close>): the file operations over
  the locale \<open>sector_device\<close>, which the SATA driver interprets. \<open>Bmp\<close>: the wallpaper. \<open>Ethernet\<close> (\<^verbatim>\<open>kernel/net/e1000.c\<close>): the
  hardware address of the network adapter.

  \<^bold>\<open>Tasks and interrupts.\<close> \<open>Descriptors\<close> (\<^verbatim>\<open>tss.c\<close>, \<^verbatim>\<open>gdt.c\<close>), \<open>Scheduler\<close> (\<^verbatim>\<open>scheduler.c\<close>): the choice of the next task, the switch,
  the invariant that no task runs on two cores, a bound on the wait. \<open>Interrupts\<close> (\<^verbatim>\<open>idt.c\<close>, \<^verbatim>\<open>syscall.c\<close>, \<^verbatim>\<open>lib/libu/logs.c\<close>):
  gates, dispatch, system calls, and \<open>printf\<close> through them. \<open>Smp\<close> (\<^verbatim>\<open>smp.c\<close>): the start of the other cores.
  \<open>Boot\<close> (\<^verbatim>\<open>kernel/kernelMain.c\<close>, \<^verbatim>\<open>keyboard.c\<close>): \<open>bootMain\<close>, which calls all of them in the order of the code, and the six tasks;
  the composition of the memory managers is proved for machines whose memory is free from \<open>0x120000\<close> to \<open>0x235000\<close>.

  \<^bold>\<open>Assembly.\<close> \<open>Assembly\<close> (\<^verbatim>\<open>isr.asm\<close>, \<^verbatim>\<open>scheduler.asm\<close>, \<^verbatim>\<open>gdt.asm\<close>, \<^verbatim>\<open>syscalls.asm\<close>): the code as lists of instructions, run on a
  record of the processor's registers; \<open>enter\<close> is an interrupt up to the call of \<open>isrHandlerMain\<close>. The lemmas tie it to the C
  side: \<open>regs_at\<close> reads the structure \<open>isrHandlerMain\<close> and \<open>schedulerMain\<close> are given, \<open>resumed\<close> is what \<open>switchTask\<close> makes of
  the one \<open>schedulerMain\<close> has saved, so that a task goes on with its registers over any sequence of timer interrupts
  (\<open>task_continues\<close>). What the processor leaves open is a parameter (\<open>machine\<close>): the status flags after arithmetic, and which selectors a
  return to user mode clears. \<open>Boot_Sector\<close> (\<^verbatim>\<open>boot.asm\<close>): the first page tables, the search for the firmware's tables, the
  memory map, the video mode and the code in which the other cores start; the BIOS is a parameter.

  \<^bold>\<open>Memory in the model.\<close> Objects behind a pointer that only one file uses (tables of tasks, of devices, the heap's
  bitmap) are lists, next to the address of the object where the address is used; an index outside the list is a fault.
  Page tables and the trampoline's arguments are in \<open>mem\<close>, by quadword; the structures a device shares with the
  driver and the superblock are in \<open>dma\<close>, the framebuffer in \<open>video\<close>, the firmware's tables in \<open>firmware\<close>, by byte. These
  are taken to be different memory: the theorem \<open>boot_heap_holds_tables\<close> shows where the code does not see to it. Nor does
  it check that an allocation succeeded: after a failure the address is 0, and a write to it goes to physical memory from 0 on, which in the
  model is no part of any of these. The properties that depend on it say so: \<open>kHeapInit_ok\<close> and \<open>boot_memory_maps\<close> are about
  allocations that succeed, in pages that hold nothing else; \<open>createNewAddressSpace_maps\<close> tells the cases apart. Behind the
  framebuffer \<open>video\<close> goes on (\<open>bmp_draw_shows\<close>).
  Fresh heap memory and uninitialised variables are parameters (\<open>fresh\<close>, \<open>junk\<close>) about which nothing is assumed.

  \<^bold>\<open>Loops and fuel.\<close> Counting loops are total functions. Polling loops (\<open>poll\<close>), the parsing of the MADT and the recursion over
  PCI bridges, and the loops of the boot sector, have fuel; the properties say how much is enough: the number of reads after which a register shows what the
  loop waits for, the number of structures, the number of buses, the number of addresses or entries. \<open>spinLock\<close> on a lock that nobody
  releases is the fault \<open>Deadlock\<close>.

  \<^bold>\<open>Not modelled.\<close> Of the boot sector, the reading of the kernel from the disk, the switches of the processor's mode and the
  image of the disk behind the code; of the processor, page faults and the checks of selectors during the assembly code. The
  \<open>memset\<close> of \<open>.bss\<close> at the start of \<open>bootMain\<close> is the initial state, the endless loops at the
  end of \<open>bootMain\<close>, \<open>kernelMainSMP\<close> and of the tasks are left out (\<open>task1\<close> is nothing else), and a task is one round of its loop. The
  functions of different cores run one after the other except in \<open>Spin_Lock\<close> and in the sequences of timer interrupts in
  \<open>Scheduler\<close>. Unused constants of the headers (most of \<^verbatim>\<open>apic.h\<close>, the colour macros of \<^verbatim>\<open>output.h\<close>), structures nothing uses
  (\<open>fisD2H_t\<close>) and the build files have no definition.
\<close>

end
